(* ===== verification/Xrr_Prelude.thy ===== *)
theory Xrr_Prelude
  imports Main "HOL-Library.Sublist" "HOL-Library.Word"
begin

section \<open>Shared vocabulary of the development\<close>

text \<open>
  What every component theory uses: Go byte strings, Go errors and results, the functions of
  the standard packages \<^verbatim>\<open>strings\<close> and \<^verbatim>\<open>strconv\<close> that the
  sources call, the interface locale for self-delimiting encodings, and the generic lemmas on
  lists that the component proofs share.

  A Go string and a Go byte slice are both sequences of 8-bit values, and the conversions
  \<^verbatim>\<open>[]byte(s)\<close> and \<^verbatim>\<open>string(b)\<close> copy the octets
  unchanged. Both are \<^typ>\<open>string\<close> here, a list of \<^typ>\<open>char\<close>, which is exactly an octet.
\<close>

type_synonym bytes = string

named_theorems go_strings \<open>characteristic equations of the strings package\<close>

subsection \<open>Errors and results\<close>

text \<open>
  The error values the sources compare, wrap and print. \<open>ErrNew\<close> is an error made from
  a text (\<^verbatim>\<open>errors.New\<close>, \<^verbatim>\<open>fmt.Errorf\<close> without
  \<^verbatim>\<open>%w\<close>); \<open>ErrWrap pre e\<close> is \<^verbatim>\<open>fmt.Errorf("pre: %w", e)\<close>.
  \<open>StatusError code msg text\<close> is a gRPC status error with the text the gRPC runtime
  renders for it, and \<open>ExitError code text\<close> the error of a process that ended with that
  exit code.
\<close>

datatype goerr =
    ErrCassetteMiss
  | ErrShapeMismatch
  | ErrEOF
  | ErrNotExist string
  | ErrNotFound
  | StreamMismatchError string int string
  | StatusError int string string
  | ExitError int string
  | ErrNew string
  | ErrWrap string goerr

type_synonym 'a res = "goerr + 'a"

text \<open>Decimal rendering of integers (\<^verbatim>\<open>%d\<close>, \<^verbatim>\<open>strconv.Itoa\<close>).\<close>

definition digit_char :: "nat \<Rightarrow> char" where
  "digit_char d = char_of (48 + d)"

fun show_nat :: "nat \<Rightarrow> string" where
  "show_nat n = (if n < 10 then [digit_char n] else show_nat (n div 10) @ [digit_char (n mod 10)])"

declare show_nat.simps [simp del]

definition show_int :: "int \<Rightarrow> string" where
  "show_int i = (if i < 0 then ''-'' @ show_nat (nat (- i)) else show_nat (nat i))"

fun err_text :: "goerr \<Rightarrow> string" where
  "err_text ErrCassetteMiss = ''xrr: cassette miss''"
| "err_text ErrShapeMismatch = ''xrr: cassette shape mismatch''"
| "err_text ErrEOF = ''EOF''"
| "err_text (ErrNotExist s) = s"
| "err_text ErrNotFound = ''real binary not found''"
| "err_text (StreamMismatchError op i detail) =
     ''xrr: stream mismatch: '' @ op @ '' '' @ show_int i @ '': '' @ detail"
| "err_text (StatusError c m t) = t"
| "err_text (ExitError c t) = t"
| "err_text (ErrNew s) = s"
| "err_text (ErrWrap pre e) = pre @ '': '' @ err_text e"

text \<open>\<^verbatim>\<open>errors.Is\<close>: the error itself or one it wraps.\<close>

fun err_is :: "goerr \<Rightarrow> goerr \<Rightarrow> bool" where
  "err_is (ErrWrap pre e) t = (ErrWrap pre e = t \<or> err_is e t)"
| "err_is e t = (e = t)"

text \<open>
  \<^verbatim>\<open>errors.Is(err, ErrStreamMismatch)\<close>: the concrete error type answers for the
  sentinel through its \<^verbatim>\<open>Is\<close> method.
\<close>

fun is_stream_mismatch :: "goerr \<Rightarrow> bool" where
  "is_stream_mismatch (StreamMismatchError op i d) = True"
| "is_stream_mismatch (ErrWrap pre e) = is_stream_mismatch e"
| "is_stream_mismatch _ = False"

lemma err_is_refl [simp]: "err_is e e"
  by (cases e) auto

text \<open>Facts about decimal texts: they consist of digits and determine the number.\<close>

definition is_digit :: "char \<Rightarrow> bool" where
  "is_digit c \<longleftrightarrow> 48 \<le> (of_char c :: nat) \<and> (of_char c :: nat) \<le> 57"

lemma of_digit_char: "d < 10 \<Longrightarrow> of_char (digit_char d) = 48 + d"
  by (simp add: digit_char_def)

lemma is_digit_char [simp]: "d < 10 \<Longrightarrow> is_digit (digit_char d)"
  by (simp add: is_digit_def of_digit_char)

lemma show_nat_digits: "list_all is_digit (show_nat n)"
  by (induction n rule: show_nat.induct) (subst show_nat.simps, auto)

lemma show_nat_ne [simp]: "show_nat n \<noteq> []"
  by (subst show_nat.simps) simp

definition read_nat :: "string \<Rightarrow> nat" where
  "read_nat s = foldl (\<lambda>n c. 10 * n + (of_char c - 48)) 0 s"

lemma read_show_nat [simp]: "read_nat (show_nat n) = n"
proof (induction n rule: show_nat.induct)
  case (1 n)
  then show ?case
    by (subst show_nat.simps) (auto simp: read_nat_def of_digit_char)
qed

lemma show_int_cases:
  obtains (neg) n where "0 < n" "i = - int n" "show_int i = CHR ''-'' # show_nat n"
    | (nonneg) n where "i = int n" "show_int i = show_nat n"
proof (cases "i < 0")
  case True
  then show ?thesis by (intro neg[of "nat (- i)"]) (auto simp: show_int_def)
next
  case False
  then show ?thesis by (intro nonneg[of "nat i"]) (auto simp: show_int_def)
qed

text \<open>A text that does not start with a digit ends any decimal number in front of it.\<close>

definition ends_number :: "string \<Rightarrow> bool" where
  "ends_number r \<longleftrightarrow> (case r of [] \<Rightarrow> True | c # _ \<Rightarrow> \<not> is_digit c)"

lemma ends_number_simps [simp]: "ends_number []" "ends_number (c # r) \<longleftrightarrow> \<not> is_digit c"
  by (simp_all add: ends_number_def)

lemma digits_cancel:
  assumes "list_all is_digit ds" "list_all is_digit es" "ends_number r" "ends_number s"
    and "ds @ r = es @ s"
  shows "ds = es \<and> r = s"
  using assms(1,2,5)
proof (induction ds arbitrary: es)
  case Nil
  with assms(3) show ?case by (cases es) simp_all
next
  case (Cons d ds)
  show ?case
  proof (cases es)
    case Nil
    with Cons.prems assms(4) show ?thesis by auto
  next
    case (Cons e es')
    with Cons.prems Cons.IH[of es'] show ?thesis by simp
  qed
qed

lemma show_int_head: "\<exists>c cs. show_int i = c # cs \<and> (is_digit c \<or> c = CHR ''-'')"
proof (cases i rule: show_int_cases)
  case (nonneg n)
  then show ?thesis
    using show_nat_digits[of n] by (cases "show_nat n") simp_all
qed simp

lemma show_int_unique:
  assumes "show_int i @ r = show_int j @ s" "ends_number r" "ends_number s"
  shows "i = j \<and> r = s"
proof -
  have nat_case: "m = n \<and> r = s" if "show_nat m @ r = show_nat n @ s" for m n
    using digits_cancel[OF show_nat_digits show_nat_digits assms(2,3) that] read_show_nat
    by metis
  have no_minus: "show_nat n @ t \<noteq> CHR ''-'' # u" for n t u
    using show_nat_digits[of n] by (cases "show_nat n") (auto simp: is_digit_def)
  show ?thesis
  proof (cases i rule: show_int_cases)
    case neg_i: (neg m)
    show ?thesis
    proof (cases j rule: show_int_cases)
      case (neg n)
      with neg_i assms(1) nat_case[of m n] show ?thesis by simp
    next
      case (nonneg n)
      with neg_i assms(1) no_minus[of n s "show_nat m @ r"] show ?thesis by simp
    qed
  next
    case nonneg_i: (nonneg m)
    show ?thesis
    proof (cases j rule: show_int_cases)
      case (neg n)
      with nonneg_i assms(1) no_minus[of m r "show_nat n @ s"] show ?thesis by simp
    next
      case (nonneg n)
      with nonneg_i assms(1) nat_case[of m n] show ?thesis by simp
    qed
  qed
qed

subsection \<open>Package strings on octets\<close>

definition trim_prefix :: "string \<Rightarrow> string \<Rightarrow> string" where
  "trim_prefix p s = (if prefix p s then drop (length p) s else s)"

definition trim_suffix :: "string \<Rightarrow> string \<Rightarrow> string" where
  "trim_suffix p s = (if suffix p s then take (length s - length p) s else s)"

text \<open>\<^verbatim>\<open>strings.CutPrefix\<close>: the rest and whether the prefix was there.\<close>

definition cut_prefix :: "string \<Rightarrow> string \<Rightarrow> string option" where
  "cut_prefix p s = (if prefix p s then Some (drop (length p) s) else None)"

text \<open>Index of the last occurrence of an octet (\<^verbatim>\<open>strings.LastIndex\<close>), if any.\<close>

fun last_index :: "char \<Rightarrow> string \<Rightarrow> nat option" where
  "last_index c [] = None"
| "last_index c (x # xs) =
     (case last_index c xs of Some i \<Rightarrow> Some (Suc i) | None \<Rightarrow> if x = c then Some 0 else None)"

text \<open>\<^verbatim>\<open>strings.Split(s, sep)\<close> for a separator of one octet.\<close>

fun split_on :: "char \<Rightarrow> string \<Rightarrow> string list" where
  "split_on c [] = [[]]"
| "split_on c (x # xs) =
     (if x = c then [] # split_on c xs
      else case split_on c xs of [] \<Rightarrow> [[x]] | w # ws \<Rightarrow> (x # w) # ws)"

text \<open>\<^verbatim>\<open>strings.Join\<close>.\<close>

fun join_with :: "string \<Rightarrow> string list \<Rightarrow> string" where
  "join_with sep [] = []"
| "join_with sep [w] = w"
| "join_with sep (w # ws) = w @ sep @ join_with sep ws"

text \<open>\<^verbatim>\<open>strings.Cut(s, sep)\<close> at the first occurrence of one octet.\<close>

fun cut_at :: "char \<Rightarrow> string \<Rightarrow> (string \<times> string) option" where
  "cut_at c [] = None"
| "cut_at c (x # xs) =
     (if x = c then Some ([], xs)
      else case cut_at c xs of None \<Rightarrow> None | Some (a, b) \<Rightarrow> Some (x # a, b))"

lemma split_on_ne [simp]: "split_on c s \<noteq> []"
  by (induction s) (auto split: list.splits)

lemma join_split_on [go_strings]: "join_with [c] (split_on c s) = s"
proof (induction s)
  case (Cons x xs)
  obtain w ws where w: "split_on c xs = w # ws"
    by (cases "split_on c xs") auto
  with Cons show ?case
    by (cases ws) auto
qed simp

lemma split_on_no_sep: "w \<in> set (split_on c s) \<Longrightarrow> c \<notin> set w"
proof (induction s arbitrary: w)
  case (Cons x xs)
  obtain v vs where v: "split_on c xs = v # vs"
    by (cases "split_on c xs") auto
  with Cons show ?case
    by (cases "x = c") auto
qed simp

lemma cut_at_Some: "cut_at c s = Some (a, b) \<Longrightarrow> s = a @ c # b \<and> c \<notin> set a"
proof (induction s arbitrary: a)
  case (Cons x xs)
  then show ?case by (cases "cut_at c xs") (auto split: if_splits)
qed simp

lemma cut_at_None: "cut_at c s = None \<longleftrightarrow> c \<notin> set s"
  by (induction s) (auto split: option.splits)

lemma cut_at_append [simp]: "c \<notin> set a \<Longrightarrow> cut_at c (a @ c # b) = Some (a, b)"
  by (induction a) auto

lemma last_index_None: "last_index c s = None \<longleftrightarrow> c \<notin> set s"
  by (induction s) (auto split: option.splits)

lemma last_index_Some:
  "last_index c s = Some i \<Longrightarrow> i < length s \<and> s ! i = c \<and> c \<notin> set (drop (Suc i) s)"
proof (induction s arbitrary: i)
  case (Cons x xs)
  then show ?case
    by (auto split: option.splits if_splits simp: last_index_None)
qed simp

lemma last_index_append_sep [simp]:
  "c \<notin> set b \<Longrightarrow> last_index c (a @ c # b) = Some (length a)"
proof (induction a)
  case Nil
  then show ?case by (simp add: last_index_None[THEN iffD2])
qed simp

text \<open>
  Case mapping. Go maps a string of ASCII octets letter by letter; a string with other octets
  is decoded and mapped through the Unicode tables of package \<^verbatim>\<open>unicode\<close>, which
  are an argument of the model (\<open>u_upper\<close>, \<open>u_lower\<close>, \<open>u_fold\<close>).
\<close>

record unicode =
  u_upper :: "string \<Rightarrow> string"
  u_lower :: "string \<Rightarrow> string"
  u_fold :: "string \<Rightarrow> string \<Rightarrow> bool"

definition is_ascii :: "string \<Rightarrow> bool" where
  "is_ascii s = list_all (\<lambda>c. (of_char c :: nat) < 128) s"

definition in_range :: "char \<Rightarrow> char \<Rightarrow> char \<Rightarrow> bool" where
  "in_range lo hi c \<longleftrightarrow> (of_char lo :: nat) \<le> of_char c \<and> (of_char c :: nat) \<le> of_char hi"

definition upper_char :: "char \<Rightarrow> char" where
  "upper_char c = (if in_range CHR ''a'' CHR ''z'' c then char_of ((of_char c :: nat) - 32) else c)"

definition lower_char :: "char \<Rightarrow> char" where
  "lower_char c = (if in_range CHR ''A'' CHR ''Z'' c then char_of ((of_char c :: nat) + 32) else c)"

definition to_upper :: "unicode \<Rightarrow> string \<Rightarrow> string" where
  "to_upper U s = (if is_ascii s then map upper_char s else u_upper U s)"

definition to_lower :: "unicode \<Rightarrow> string \<Rightarrow> string" where
  "to_lower U s = (if is_ascii s then map lower_char s else u_lower U s)"

definition equal_fold :: "unicode \<Rightarrow> string \<Rightarrow> string \<Rightarrow> bool" where
  "equal_fold U s t =
     (if is_ascii s \<and> is_ascii t then map lower_char s = map lower_char t else u_fold U s t)"

lemma upper_char_idem [simp]: "upper_char (upper_char c) = upper_char c"
proof (cases "in_range CHR ''a'' CHR ''z'' c")
  case True
  then have b: "97 \<le> (of_char c :: nat)" "(of_char c :: nat) \<le> 122"
    by (simp_all add: in_range_def)
  then have "of_char (char_of ((of_char c :: nat) - 32) :: char) = (of_char c :: nat) - 32"
    by simp
  moreover from b have "\<not> 97 \<le> (of_char c :: nat) - 32"
    by arith
  ultimately show ?thesis
    using True by (simp add: upper_char_def in_range_def)
qed (simp add: upper_char_def)

text \<open>
  White space of \<^verbatim>\<open>strings.TrimSpace\<close>: the UTF-8 encodings of the Unicode
  White\_Space code points. Trimming an encoding at an end of the string is what decoding the
  first or last rune and testing it does, since no encoding is a proper suffix of another rune.
\<close>

definition space_seqs :: "string list" where
  "space_seqs =
     [[CHR 0x09], [CHR 0x0A], [CHR 0x0B], [CHR 0x0C], [CHR 0x0D], [CHR 0x20],
      [CHR 0xC2, CHR 0x85], [CHR 0xC2, CHR 0xA0], [CHR 0xE1, CHR 0x9A, CHR 0x80]]
     @ map (\<lambda>k. [CHR 0xE2, CHR 0x80, char_of (k :: nat)])
         [0x80, 0x81, 0x82, 0x83, 0x84, 0x85, 0x86, 0x87, 0x88, 0x89, 0x8A, 0xA8, 0xA9, 0xAF]
     @ [[CHR 0xE2, CHR 0x81, CHR 0x9F], [CHR 0xE3, CHR 0x80, CHR 0x80]]"

function strip_front :: "string list \<Rightarrow> string \<Rightarrow> string" where
  "strip_front qs s =
     (case find (\<lambda>q. q \<noteq> [] \<and> prefix q s) qs of
        None \<Rightarrow> s
      | Some q \<Rightarrow> strip_front qs (drop (length q) s))"
  by pat_completeness auto
termination
proof (relation "measure (length \<circ> snd)", goal_cases)
  case (2 qs s q)
  then have "q \<noteq> []" "prefix q s"
    by (auto simp: find_Some_iff)
  then show ?case
    by (cases s; cases q) auto
qed simp

declare strip_front.simps [simp del]

definition trim_space :: "string \<Rightarrow> string" where
  "trim_space s = rev (strip_front (map rev space_seqs) (rev (strip_front space_seqs s)))"

text \<open>\<^verbatim>\<open>strings.ReplaceAll(s, old, new)\<close> for a non-empty \<open>old\<close>: left to right, no overlap.\<close>

function replace_all :: "string \<Rightarrow> string \<Rightarrow> string \<Rightarrow> string" where
  "replace_all old new [] = []"
| "replace_all old new (x # xs) =
     (if old \<noteq> [] \<and> prefix old (x # xs)
      then new @ replace_all old new (drop (length old) (x # xs))
      else x # replace_all old new xs)"
  by pat_completeness auto
termination
  by (relation "measure (\<lambda>(old, new, s). length s)") (auto simp: neq_Nil_conv)

declare replace_all.simps(2) [simp del]

definition replace_char :: "char \<Rightarrow> char \<Rightarrow> string \<Rightarrow> string" where
  "replace_char a b s = map (\<lambda>c. if c = a then b else c) s"

lemma replace_all_singleton: "replace_all [a] [b] s = replace_char a b s"
  by (induction s) (auto simp: replace_char_def replace_all.simps(2))

subsection \<open>Hexadecimal\<close>

definition hex_digits :: string where
  "hex_digits = ''0123456789abcdef''"

text \<open>The value of a hexadecimal digit of either case.\<close>

definition hex_val :: "char \<Rightarrow> nat option" where
  "hex_val c =
     (let n = of_char c in
      if 48 \<le> n \<and> n \<le> 57 then Some (n - 48)
      else if 97 \<le> n \<and> n \<le> 102 then Some (n - 87)
      else if 65 \<le> n \<and> n \<le> 70 then Some (n - 55)
      else None)"

definition hex_byte :: "char \<Rightarrow> string" where
  "hex_byte c = [hex_digits ! ((of_char c :: nat) div 16), hex_digits ! ((of_char c :: nat) mod 16)]"

text \<open>\<^verbatim>\<open>hex.EncodeToString\<close> and \<^verbatim>\<open>%x\<close> of a byte slice.\<close>

definition hex_encode :: "bytes \<Rightarrow> string" where
  "hex_encode b = concat (map hex_byte b)"

definition is_lower_hex :: "char \<Rightarrow> bool" where
  "is_lower_hex c \<longleftrightarrow> c \<in> set hex_digits"

lemma hex_encode_length [simp]: "length (hex_encode b) = 2 * length b"
  by (induction b) (simp_all add: hex_encode_def hex_byte_def)

lemma of_char_le: "(of_char c :: nat) \<le> 255"
proof -
  have "(of_char c :: nat) < 256" by simp
  then show ?thesis by linarith
qed

lemma nibble_bounds: "(of_char c :: nat) div 16 < 16" "(of_char c :: nat) mod 16 < 16"
proof -
  have "(of_char c :: nat) < 256" by simp
  then have "(of_char c :: nat) < 16 * 16" by simp
  then show "(of_char c :: nat) div 16 < 16" by (rule less_mult_imp_div_less)
qed simp

lemma hex_encode_lower: "list_all is_lower_hex (hex_encode b)"
proof -
  have "hex_digits ! i \<in> set hex_digits" if "i < 16" for i
    using that by (intro nth_mem) (simp add: hex_digits_def)
  then show ?thesis
    by (induction b)
      (simp_all add: hex_encode_def hex_byte_def is_lower_hex_def nibble_bounds)
qed

subsection \<open>Self-delimiting encodings\<close>

text \<open>
  The interface of an encoder whose output can be cut off a longer text in only one way. The
  canonical JSON strings and values and the gRPC message framing are instances.
\<close>

locale prefix_code =
  fixes ok :: "'a \<Rightarrow> bool"
    and enc :: "'a \<Rightarrow> 'b list"
  assumes enc_unique: "ok x \<Longrightarrow> ok y \<Longrightarrow> enc x @ r = enc y @ s \<Longrightarrow> x = y"
begin

lemma enc_inj: "ok x \<Longrightarrow> ok y \<Longrightarrow> enc x = enc y \<Longrightarrow> x = y"
  using enc_unique[of x y "[]" "[]"] by simp

lemma enc_cancel: "ok x \<Longrightarrow> ok y \<Longrightarrow> enc x @ r = enc y @ s \<Longrightarrow> x = y \<and> r = s"
proof -
  assume *: "ok x" "ok y" "enc x @ r = enc y @ s"
  then have "x = y" by (rule enc_unique)
  with * show ?thesis by simp
qed

lemma concat_unique:
  assumes "list_all ok xs" "list_all ok ys" "length xs = length ys"
    and "concat (map enc xs) @ r = concat (map enc ys) @ s"
  shows "xs = ys \<and> r = s"
  using assms(3,1,2,4)
proof (induction xs ys arbitrary: r s rule: list_induct2)
  case (Cons x xs y ys)
  have "enc x @ (concat (map enc xs) @ r) = enc y @ (concat (map enc ys) @ s)"
    using Cons.prems by simp
  then have "x = y \<and> concat (map enc xs) @ r = concat (map enc ys) @ s"
    using Cons.prems by (intro enc_cancel) auto
  then show ?case
    using Cons.IH[of r s] Cons.prems(1,2) by simp
qed simp

end

lemma hex_val_digit: "k < 16 \<Longrightarrow> hex_val (hex_digits ! k) = Some k"
proof -
  have "list_all (\<lambda>k. hex_val (hex_digits ! k) = Some k) [0..<16]" by code_simp
  then show "k < 16 \<Longrightarrow> hex_val (hex_digits ! k) = Some k" by (simp add: list_all_iff)
qed

lemma hex_digits_inj: "i < 16 \<Longrightarrow> j < 16 \<Longrightarrow> hex_digits ! i = hex_digits ! j \<longleftrightarrow> i = j"
  by (rule nth_eq_iff_index_eq) (simp_all add: hex_digits_def)

interpretation hex_octet: prefix_code "\<lambda>_. True" hex_byte
proof
  fix x y :: char and r s
  assume "hex_byte x @ r = hex_byte y @ s"
  then have "(of_char x :: nat) div 16 = of_char y div 16" "(of_char x :: nat) mod 16 = of_char y mod 16"
    by (simp_all add: hex_byte_def hex_digits_inj nibble_bounds)
  then have "(of_char x :: nat) = of_char y"
    by (metis div_mult_mod_eq)
  then show "x = y" by simp
qed

lemma hex_encode_inj: "hex_encode x = hex_encode y \<longleftrightarrow> x = y"
proof
  assume eq: "hex_encode x = hex_encode y"
  then have "length x = length y"
    using hex_encode_length by (metis mult_cancel1 zero_neq_numeral)
  then show "x = y"
    using hex_octet.concat_unique[of x y "[]" "[]"] eq by (simp add: hex_encode_def list_all_iff)
qed simp

subsection \<open>Codecs\<close>

text \<open>
  An encoder with a partial decoder that reads its output back. A canonical codec accepts
  nothing but that output, so equal decodings come from equal texts.
\<close>

locale codec =
  fixes ok :: "'a \<Rightarrow> bool"
    and enc :: "'a \<Rightarrow> 'b"
    and dec :: "'b \<Rightarrow> 'a option"
  assumes dec_enc: "ok x \<Longrightarrow> dec (enc x) = Some x"
begin

lemma enc_eq_iff: "ok x \<Longrightarrow> ok y \<Longrightarrow> enc x = enc y \<longleftrightarrow> x = y"
  by (metis dec_enc option.inject)

end

locale canonical_codec = codec +
  assumes enc_dec: "dec y = Some x \<Longrightarrow> ok x \<and> enc x = y"
begin

lemma dec_iff: "dec y = Some x \<longleftrightarrow> ok x \<and> y = enc x"
  using dec_enc enc_dec by blast

lemma dec_inj: "dec y = Some x \<Longrightarrow> dec z = Some x \<Longrightarrow> y = z"
  by (simp add: dec_iff)

end

end
