(* ===== verification/Go_Regexp.thy ===== *)
theory Go_Regexp
  imports Xrr_Prelude
begin

section \<open>Regular expressions\<close>

text \<open>
  The fragment of package \<^verbatim>\<open>regexp\<close> that the patterns of redact.go use:
  characters and classes, concatenation, alternation, counted repetition of a class, and the
  ASCII word boundary. Matching asks whether the pattern occurs anywhere
  (\<^verbatim>\<open>MatchString\<close>), so which occurrence is preferred does not matter.

  A class is a function from the text ahead to the number of octets of the code point it
  accepts there (0: none), since a case-folded class also accepts U+017F and U+212A. A position
  is the octet before it, if any, and the text ahead.
\<close>

type_synonym re_class = "string \<Rightarrow> nat"
type_synonym re_pos = "char option \<times> string"

datatype re =
    REps
  | RClass re_class
  | RMany re_class nat "nat option"
  | RSeq re re
  | RAlt re re
  | RWordB

definition on_char :: "(char \<Rightarrow> bool) \<Rightarrow> re_class" where
  "on_char p s = (case s of [] \<Rightarrow> 0 | c # _ \<Rightarrow> if p c then 1 else 0)"

text \<open>A class of ASCII characters under case folding.\<close>

definition on_folded :: "(char \<Rightarrow> bool) \<Rightarrow> re_class" where
  "on_folded p s =
     (case s of
        [] \<Rightarrow> 0
      | c # _ \<Rightarrow>
          if p c \<or> p (upper_char c) \<or> p (lower_char c) then 1
          else if prefix [CHR 0xC5, CHR 0xBF] s \<and> (p CHR ''s'' \<or> p CHR ''S'') then 2
          else if prefix [CHR 0xE2, CHR 0x84, CHR 0xAA] s \<and> (p CHR ''k'' \<or> p CHR ''K'') then 3
          else 0)"

definition is_upper_az :: "char \<Rightarrow> bool" where
  "is_upper_az = in_range CHR ''A'' CHR ''Z''"

definition is_alnum :: "char \<Rightarrow> bool" where
  "is_alnum c \<longleftrightarrow> in_range CHR ''A'' CHR ''Z'' c \<or> in_range CHR ''a'' CHR ''z'' c \<or> is_digit c"

definition is_word :: "char \<Rightarrow> bool" where
  "is_word c \<longleftrightarrow> is_alnum c \<or> c = CHR ''_''"

definition at_boundary :: "re_pos \<Rightarrow> bool" where
  "at_boundary = (\<lambda>(p, s).
     (case p of None \<Rightarrow> False | Some c \<Rightarrow> is_word c) \<noteq> (case s of [] \<Rightarrow> False | c # _ \<Rightarrow> is_word c))"

text \<open>All positions reached by repeating a class, the starting position first.\<close>

function spans :: "re_class \<Rightarrow> re_pos \<Rightarrow> re_pos list" where
  "spans u (p, s) =
     (p, s) # (if u s = 0 \<or> length s < u s then []
               else spans u (Some (s ! (u s - 1)), drop (u s) s))"
  by pat_completeness auto
termination
  by (relation "measure (\<lambda>(u, p, s). length s)") auto

declare spans.simps [simp del]

fun re_ends :: "re \<Rightarrow> re_pos \<Rightarrow> re_pos list" where
  "re_ends REps pos = [pos]"
| "re_ends (RClass u) pos = drop 1 (take 2 (spans u pos))"
| "re_ends (RMany u lo hi) pos =
     drop lo (case hi of None \<Rightarrow> spans u pos | Some h \<Rightarrow> take (Suc h) (spans u pos))"
| "re_ends (RSeq a b) pos = concat (map (re_ends b) (re_ends a pos))"
| "re_ends (RAlt a b) pos = re_ends a pos @ re_ends b pos"
| "re_ends RWordB pos = (if at_boundary pos then [pos] else [])"

fun re_search :: "re \<Rightarrow> char option \<Rightarrow> string \<Rightarrow> bool" where
  "re_search r p [] = (re_ends r (p, []) \<noteq> [])"
| "re_search r p (c # cs) = (re_ends r (p, c # cs) \<noteq> [] \<or> re_search r (Some c) cs)"

definition MatchString :: "re \<Rightarrow> string \<Rightarrow> bool" where
  "MatchString r s = re_search r None s"

fun re_seq :: "re list \<Rightarrow> re" where
  "re_seq [] = REps"
| "re_seq (r # rs) = RSeq r (re_seq rs)"

definition re_lit :: "string \<Rightarrow> re" where
  "re_lit s = re_seq (map (\<lambda>c. RClass (on_char (\<lambda>d. d = c))) s)"

definition re_fold_lit :: "string \<Rightarrow> re" where
  "re_fold_lit s = re_seq (map (\<lambda>c. RClass (on_folded (\<lambda>d. d = c))) s)"

fun re_alts :: "re list \<Rightarrow> re" where
  "re_alts [] = REps"
| "re_alts [r] = r"
| "re_alts (r # rs) = RAlt r (re_alts rs)"

subsection \<open>Facts about matching\<close>

text \<open>The position after reading \<open>w\<close> from \<open>(p, w @ s)\<close>.\<close>

definition after :: "char option \<Rightarrow> string \<Rightarrow> char option" where
  "after p w = (if w = [] then p else Some (last w))"

lemma after_simps [simp]: "after p [] = p" "after p (c # w) = after (Some c) w"
  by (auto simp: after_def)

lemma after_append [simp]: "after p (v @ w) = after (after p v) w"
  by (auto simp: after_def)

lemma re_ends_lit: "(after p w, s) \<in> set (re_ends (re_lit w) (p, w @ s))"
proof -
  have step: "re_ends (RClass (on_char (\<lambda>d. d = c))) (q, c # t) = [(Some c, t)]" for c q t
    by (simp add: spans.simps on_char_def)
  show ?thesis
    by (induction w arbitrary: p) (simp_all add: re_lit_def step del: re_ends.simps(2))
qed

lemma spans_run:
  assumes "list_all pr w"
  shows "spans (on_char pr) (p, w @ s) =
      map (\<lambda>k. (after p (take k w), drop k w @ s)) [0..<length w] @ spans (on_char pr) (after p w, s)"
  using assms
proof (induction w arbitrary: p)
  case (Cons c w)
  have "spans (on_char pr) (p, (c # w) @ s) = (p, (c # w) @ s) # spans (on_char pr) (Some c, w @ s)"
    using Cons.prems by (subst spans.simps) (simp add: on_char_def)
  moreover have "[0..<length (c # w)] = 0 # map Suc [0..<length w]"
    unfolding map_Suc_upt by (simp add: upt_rec)
  ultimately show ?case
    using Cons by (simp add: comp_def)
qed simp

lemma re_ends_many:
  assumes "list_all pr w" "lo \<le> length w"
  shows "(after p w, s) \<in> set (re_ends (RMany (on_char pr) lo None) (p, w @ s))"
proof -
  note eq = spans_run[OF assms(1), of p s]
  have "(after p w, s) \<in> set (spans (on_char pr) (after p w, s))"
    by (subst spans.simps) simp
  with eq assms(2) show ?thesis
    by (simp add: drop_append)
qed

lemma re_search_skip: "re_ends r (after p pre, s) \<noteq> [] \<Longrightarrow> re_search r p (pre @ s)"
proof (induction pre arbitrary: p)
  case Nil
  then show ?case by (cases s) auto
next
  case (Cons c pre)
  then have "re_ends r (after (Some c) pre, s) \<noteq> []" by simp
  with Cons.IH show ?case by simp
qed

lemma re_ends_seqI:
  "q \<in> set (re_ends a p) \<Longrightarrow> t \<in> set (re_ends b q) \<Longrightarrow> t \<in> set (re_ends (RSeq a b) p)"
  by auto

end
