(* ===== verification/Redact.thy ===== *)
theory Redact
  imports Go_Regexp
begin

section \<open>Secret redaction (redact.go)\<close>

text \<open>
  The field classifier (names and value shapes), its configuration from the environment, and
  the walk over an encoded YAML tree that replaces credential-bearing scalars before any byte
  is written. The results: what a walk leaves behind, that it keeps the shape of the tree, that
  it is idempotent, and that the values under secret names have no influence on its result.
\<close>

subsection \<open>YAML node trees\<close>

text \<open>
  \<^verbatim>\<open>yaml.Node\<close> as the sources use it: the kind, the resolved tag and the value
  of scalars, and the content. The content of a mapping node, which alternates keys and values,
  is a list of pairs. Style and position fields are left out: no decision depends on them.
\<close>

datatype ynode =
    YDocument "ynode list"
  | YMapping "(ynode \<times> ynode) list"
  | YSequence "ynode list"
  | YScalar string string
  | YAlias

text \<open>The field \<^verbatim>\<open>Value\<close> of a node: empty unless it is a scalar.\<close>

fun node_value :: "ynode \<Rightarrow> string" where
  "node_value (YScalar tag v) = v"
| "node_value _ = []"

subsection \<open>Tables\<close>

definition secretKeyWords :: "string list" where
  "secretKeyWords =
    [''TOKEN'', ''SECRET'', ''PASSWORD'', ''PASSWD'', ''PASSPHRASE'', ''CREDENTIAL'',
     ''CREDENTIALS'', ''APIKEY'', ''KEY'', ''AUTH'', ''AUTHORIZATION'', ''COOKIE'',
     ''SESSION'', ''SIGNATURE'', ''PRIVATE'', ''ACCESS'', ''BEARER'', ''OTP'']"

definition secretKeyExact :: "string list" where
  "secretKeyExact =
    [''AUTHORIZATION'', ''PROXY_AUTHORIZATION'', ''COOKIE'', ''SET_COOKIE'',
     ''AWS_ACCESS_KEY_ID'', ''AWS_SECRET_ACCESS_KEY'', ''AWS_SESSION_TOKEN'']"

definition secretKeyPrefixes :: "string list" where
  "secretKeyPrefixes = [''AWS_'']"

definition benignKeys :: "string list" where
  "benignKeys =
    [''XRR_MODE'', ''XRR_CASSETTE_DIR'', ''XRR_REDACT_ALLOW'', ''XRR_REDACT_DENY'',
     ''XRR_REDACT_DISABLE'', ''AWS_REGION'', ''AWS_DEFAULT_REGION'', ''AWS_PROFILE'',
     ''SSH_AUTH_SOCK'', ''KEYBOARD_LAYOUT'', ''ACCESS_LOG'', ''ACCESS_LOG_FORMAT'',
     ''PRIVATE_NETWORK'', ''SESSION_MANAGER'', ''GPG_TTY'', ''AUTHORIZED_KEYS_FILE'']"

definition is_b64url :: "char \<Rightarrow> bool" where
  "is_b64url c \<longleftrightarrow> is_alnum c \<or> c = CHR ''_'' \<or> c = CHR ''-''"

definition is_perl_space :: "char \<Rightarrow> bool" where
  "is_perl_space c \<longleftrightarrow> c \<in> {CHR 0x09, CHR 0x0A, CHR 0x0C, CHR 0x0D, CHR 0x20}"

definition githubToken :: re where
  "githubToken = re_seq
     [RWordB, re_lit ''gh'', RClass (on_char (\<lambda>c. c \<in> set ''pousr'')), re_lit ''_'',
      RMany (on_char is_alnum) 20 None, RWordB]"

definition secretValuePatterns :: "re list" where
  "secretValuePatterns =
    [githubToken,
     re_seq [RWordB, re_lit ''github_pat_'', RMany (on_char is_word) 20 None, RWordB],
     re_seq [RWordB, re_alts [re_lit ''AKIA'', re_lit ''ASIA'', re_lit ''ABIA'', re_lit ''ACCA''],
       RMany (on_char (\<lambda>c. is_upper_az c \<or> is_digit c)) 16 (Some 16), RWordB],
     re_seq [RWordB, re_lit ''sk-'', RMany (on_char is_b64url) 20 None, RWordB],
     re_seq [RWordB, re_lit ''xox'', RClass (on_char (\<lambda>c. c \<in> set ''abposr'')), re_lit ''-'',
       RMany (on_char (\<lambda>c. is_alnum c \<or> c = CHR ''-'')) 10 None, RWordB],
     re_seq [RWordB, re_lit ''AIza'', RMany (on_char is_b64url) 35 (Some 35), RWordB],
     re_seq [RWordB, re_alts [re_lit ''sk'', re_lit ''rk''], re_lit ''_'',
       re_alts [re_lit ''live'', re_lit ''test''], re_lit ''_'', RMany (on_char is_alnum) 16 None, RWordB],
     re_seq [re_lit ''-----BEGIN '',
       RAlt (RSeq (RMany (on_char (\<lambda>c. is_upper_az c \<or> c = CHR '' '')) 1 None) (re_lit '' '')) REps,
       re_lit ''PRIVATE KEY-----''],
     re_seq [RWordB, re_lit ''eyJhbGci'', RMany (on_char is_b64url) 0 None, re_lit ''.'',
       RMany (on_char is_b64url) 1 None, re_lit ''.'', RMany (on_char is_b64url) 1 None],
     re_seq [RWordB, re_alts [re_fold_lit ''bearer'', re_fold_lit ''basic''],
       RMany (on_char is_perl_space) 1 None,
       RMany (on_folded (\<lambda>c. is_alnum c \<or> c \<in> set ''+/._~-'')) 16 None,
       RMany (on_char (\<lambda>c. c = CHR ''='')) 0 (Some 2)]]"

subsection \<open>Configuration\<close>

record RedactConfig =
  Disabled :: bool
  Allow :: "string list"
  Deny :: "string list"

definition truthy :: "unicode \<Rightarrow> string \<Rightarrow> bool" where
  "truthy U s = (to_lower U (trim_space s) \<notin> {'''', ''0'', ''false'', ''no''})"

definition splitList :: "string \<Rightarrow> string list" where
  "splitList s =
     (if trim_space s = [] then []
      else filter (\<lambda>p. p \<noteq> []) (map trim_space (split_on CHR '','' s)))"

definition RedactConfigFromEnv :: "unicode \<Rightarrow> (string \<Rightarrow> string) \<Rightarrow> RedactConfig" where
  "RedactConfigFromEnv U getenv =
     \<lparr>Disabled = truthy U (getenv ''XRR_REDACT_DISABLE''),
      Allow = splitList (getenv ''XRR_REDACT_ALLOW''),
      Deny = splitList (getenv ''XRR_REDACT_DENY'')\<rparr>"

text \<open>
  The redactor's \<^verbatim>\<open>allow\<close> and \<^verbatim>\<open>deny\<close> maps hold only
  \<open>true\<close>: they are the lists of their keys. The tables of package
  \<^verbatim>\<open>unicode\<close> are a field of the model's redactor, so that its methods take the
  arguments the sources give them.
\<close>

record redactor =
  tables :: unicode
  disabled :: bool
  allow :: "string list"
  deny :: "string list"

definition normalizeKey :: "unicode \<Rightarrow> string \<Rightarrow> string" where
  "normalizeKey U k = to_upper U (replace_all ''-'' ''_'' (trim_space k))"

definition NewRedactor :: "unicode \<Rightarrow> RedactConfig \<Rightarrow> redactor" where
  "NewRedactor U cfg =
     \<lparr>tables = U, disabled = Disabled cfg,
      allow = map (normalizeKey U) (Allow cfg), deny = map (normalizeKey U) (Deny cfg)\<rparr>"

subsection \<open>Classification\<close>

definition IsSecretKey :: "redactor \<Rightarrow> string \<Rightarrow> bool" where
  "IsSecretKey r name =
     (if disabled r then False
      else let n = normalizeKey (tables r) name in
        if n \<in> set (allow r) then False
        else if n \<in> set (deny r) then True
        else if n \<in> set benignKeys then False
        else if n \<in> set secretKeyExact then True
        else if list_ex (\<lambda>p. prefix p n) secretKeyPrefixes then True
        else list_ex (\<lambda>word. list_ex (\<lambda>sw. word = sw) secretKeyWords) (split_on CHR ''_'' n))"

definition IsSecretValue :: "redactor \<Rightarrow> string \<Rightarrow> bool" where
  "IsSecretValue r v =
     (if disabled r \<or> v = [] then False else list_ex (\<lambda>re. MatchString re v) secretValuePatterns)"

definition normalizeDisplayKey :: "unicode \<Rightarrow> string \<Rightarrow> string" where
  "normalizeDisplayKey U k = to_upper U (trim_space k)"

definition Placeholder :: "redactor \<Rightarrow> string \<Rightarrow> string" where
  "Placeholder r name = ''<redacted:'' @ normalizeDisplayKey (tables r) name @ ''>''"

definition RedactField :: "redactor \<Rightarrow> string \<Rightarrow> string \<Rightarrow> string \<times> bool" where
  "RedactField r name v =
     (if disabled r \<or> v = [] then (v, False)
      else if normalizeKey (tables r) name \<in> set (allow r) then (v, False)
      else if IsSecretKey r name \<or> IsSecretValue r v then (Placeholder r name, True)
      else (v, False))"

subsection \<open>The walk\<close>

definition envelopeMetaKeys :: "string list" where
  "envelopeMetaKeys = [''xrr'', ''adapter'', ''fingerprint'', ''recorded_at'', ''error'']"

definition isEnvelopeMetaKey :: "string \<Rightarrow> string \<Rightarrow> bool" where
  "isEnvelopeMetaKey parentKey key \<longleftrightarrow> parentKey = [] \<and> key \<in> set envelopeMetaKeys"

text \<open>\<^verbatim>\<open>Node.SetString\<close> makes the node a string scalar.\<close>

definition redactScalar :: "redactor \<Rightarrow> string \<Rightarrow> string \<Rightarrow> string \<Rightarrow> ynode" where
  "redactScalar r key tag v =
     (if tag \<noteq> [] \<and> tag \<noteq> ''!!str'' then YScalar tag v
      else case RedactField r key v of
        (redacted, changed) \<Rightarrow> if \<not> changed then YScalar tag v else YScalar ''!!str'' redacted)"

fun redact_walk :: "redactor \<Rightarrow> string \<Rightarrow> ynode \<Rightarrow> ynode" where
  "redact_walk r key (YDocument cs) = YDocument (map (redact_walk r key) cs)"
| "redact_walk r key (YMapping kvs) =
     YMapping (map (\<lambda>(k, v).
       (k, if isEnvelopeMetaKey key (node_value k) then v else redact_walk r (node_value k) v)) kvs)"
| "redact_walk r key (YSequence cs) = YSequence (map (redact_walk r key) cs)"
| "redact_walk r key (YScalar tag v) = redactScalar r key tag v"
| "redact_walk r key YAlias = YAlias"

definition redactNode :: "ynode \<Rightarrow> redactor \<Rightarrow> string \<Rightarrow> ynode" where
  "redactNode n r key = (if disabled r then n else redact_walk r key n)"

subsection \<open>What a walk leaves behind\<close>

text \<open>The scalars the walk visits, each with the key it is classified under.\<close>

fun visited :: "string \<Rightarrow> ynode \<Rightarrow> (string \<times> string \<times> string) list" where
  "visited key (YDocument cs) = concat (map (visited key) cs)"
| "visited key (YMapping kvs) =
     concat (map (\<lambda>(k, v). if isEnvelopeMetaKey key (node_value k) then [] else visited (node_value k) v) kvs)"
| "visited key (YSequence cs) = concat (map (visited key) cs)"
| "visited key (YScalar tag v) = [(key, tag, v)]"
| "visited key YAlias = []"

text \<open>A tree with every scalar emptied: its keys, kinds and nesting.\<close>

fun skeleton :: "ynode \<Rightarrow> ynode" where
  "skeleton (YDocument cs) = YDocument (map skeleton cs)"
| "skeleton (YMapping kvs) = YMapping (map (\<lambda>(k, v). (k, skeleton v)) kvs)"
| "skeleton (YSequence cs) = YSequence (map skeleton cs)"
| "skeleton (YScalar tag v) = YScalar [] []"
| "skeleton YAlias = YAlias"

abbreviation string_tag :: "string \<Rightarrow> bool" where
  "string_tag tag \<equiv> tag = [] \<or> tag = ''!!str''"

definition leaf_redact :: "redactor \<Rightarrow> string \<times> string \<times> string \<Rightarrow> string \<times> string \<times> string" where
  "leaf_redact r = (\<lambda>(key, tag, v).
     case redactScalar r key tag v of YScalar t w \<Rightarrow> (key, t, w) | _ \<Rightarrow> (key, tag, v))"

lemma redactScalar_YScalar: "\<exists>t w. redactScalar r key tag v = YScalar t w"
  by (simp add: redactScalar_def split: prod.split)

lemma Placeholder_ne [simp]: "Placeholder r name \<noteq> []"
  by (simp add: Placeholder_def)

lemma RedactField_cases:
  obtains "RedactField r name v = (v, False)" | "RedactField r name v = (Placeholder r name, True)"
proof -
  have "RedactField r name v = (v, False) \<or> RedactField r name v = (Placeholder r name, True)"
    by (simp add: RedactField_def)
  with that show thesis by blast
qed

lemma RedactField_secret:
  assumes "\<not> disabled r" "v \<noteq> []" "IsSecretKey r name"
  shows "RedactField r name v = (Placeholder r name, True)"
proof -
  from assms(3) have "normalizeKey (tables r) name \<notin> set (allow r)"
    by (auto simp: IsSecretKey_def Let_def split: if_splits)
  with assms show ?thesis by (simp add: RedactField_def)
qed

lemma RedactField_unchanged:
  assumes "RedactField r name v = (v, False)" "\<not> disabled r" "v \<noteq> []"
    and "normalizeKey (tables r) name \<notin> set (allow r)"
  shows "\<not> IsSecretKey r name \<and> \<not> IsSecretValue r v"
  using assms by (auto simp: RedactField_def split: if_splits)

lemma visited_redact_walk: "visited key (redact_walk r key n) = map (leaf_redact r) (visited key n)"
proof (induction key n rule: visited.induct)
  case (2 key kvs)
  then show ?case
    by (simp add: map_concat comp_def, intro arg_cong[where f = concat] map_cong) (auto split: if_splits)
next
  case (4 key tag v)
  then show ?case
    using redactScalar_YScalar[of r key tag v] by (auto simp: leaf_redact_def)
qed (simp_all add: map_concat comp_def cong: map_cong)

lemma skeleton_redact_walk: "skeleton (redact_walk r key n) = skeleton n"
proof (induction r key n rule: redact_walk.induct)
  case (2 r key kvs)
  then show ?case by (auto split: if_splits)
next
  case (4 r key tag v)
  then show ?case using redactScalar_YScalar[of r key tag v] by auto
qed auto

lemma redactScalar_idem:
  assumes "redactScalar r key tag v = YScalar t w"
  shows "redactScalar r key t w = YScalar t w"
proof (cases rule: RedactField_cases[of r key v])
  case 1
  with assms show ?thesis
    by (auto simp: redactScalar_def split: if_splits)
next
  case 2
  have "fst (RedactField r key (Placeholder r key)) = Placeholder r key"
    by (cases rule: RedactField_cases[of r key "Placeholder r key"]) auto
  with 2 assms show ?thesis
    by (auto simp: redactScalar_def split: if_splits prod.splits)
qed

lemma redact_walk_idem: "redact_walk r key (redact_walk r key n) = redact_walk r key n"
proof (induction r key n rule: redact_walk.induct)
  case (2 r key kvs)
  then show ?case by (auto split: if_splits)
next
  case (4 r key tag v)
  obtain t w where "redactScalar r key tag v = YScalar t w"
    using redactScalar_YScalar by blast
  then show ?case using redactScalar_idem by simp
qed auto

text \<open>
  \<open>low_eq r key n m\<close>: \<open>n\<close> and \<open>m\<close> differ at most in non-empty strings
  under names the redactor calls secret.
\<close>

inductive low_eq :: "redactor \<Rightarrow> string \<Rightarrow> ynode \<Rightarrow> ynode \<Rightarrow> bool" for r where
  low_document: "list_all2 (low_eq r key) cs ds \<Longrightarrow> low_eq r key (YDocument cs) (YDocument ds)"
| low_sequence: "list_all2 (low_eq r key) cs ds \<Longrightarrow> low_eq r key (YSequence cs) (YSequence ds)"
| low_mapping: "list_all2 (\<lambda>x y. fst x = fst y \<and>
      (if isEnvelopeMetaKey key (node_value (fst x)) then snd x = snd y
       else low_eq r (node_value (fst x)) (snd x) (snd y))) kvs lws \<Longrightarrow>
    low_eq r key (YMapping kvs) (YMapping lws)"
| low_same: "low_eq r key (YScalar tag v) (YScalar tag v)"
| low_secret: "IsSecretKey r key \<Longrightarrow> string_tag tag \<Longrightarrow> v \<noteq> [] \<Longrightarrow> w \<noteq> [] \<Longrightarrow>
    low_eq r key (YScalar tag v) (YScalar tag w)"
| low_alias: "low_eq r key YAlias YAlias"

lemma redact_walk_low_eq:
  assumes "\<not> disabled r"
  shows "low_eq r key n m \<Longrightarrow> redact_walk r key n = redact_walk r key m"
proof (induction rule: low_eq.induct)
  case (low_document key cs ds)
  then show ?case by (auto simp: list_all2_conv_all_nth intro: nth_equalityI)
next
  case (low_sequence key cs ds)
  then show ?case by (auto simp: list_all2_conv_all_nth intro: nth_equalityI)
next
  case (low_mapping key kvs lws)
  then show ?case
    by (auto simp: list_all2_conv_all_nth case_prod_unfold split: if_splits intro!: nth_equalityI)
next
  case (low_secret key tag v w)
  then show ?case
    using assms by (auto simp: redactScalar_def RedactField_secret)
qed simp_all

subsection \<open>Names and value shapes\<close>

lemma strip_front_id: "(\<And>q. q \<in> set qs \<Longrightarrow> q \<noteq> [] \<Longrightarrow> \<not> prefix q s) \<Longrightarrow> strip_front qs s = s"
proof -
  assume no: "\<And>q. q \<in> set qs \<Longrightarrow> q \<noteq> [] \<Longrightarrow> \<not> prefix q s"
  then have "find (\<lambda>q. q \<noteq> [] \<and> prefix q s) qs = None"
    by (auto simp: find_None_iff)
  then show ?thesis
    by (subst strip_front.simps) simp
qed

text \<open>A name of printable ASCII characters has nothing to trim.\<close>

definition printable :: "string \<Rightarrow> bool" where
  "printable s = list_all (\<lambda>c. 0x21 \<le> (of_char c :: nat) \<and> (of_char c :: nat) \<le> 0x7E) s"

definition unprintable :: "char \<Rightarrow> bool" where
  "unprintable c \<longleftrightarrow> (of_char c :: nat) \<le> 0x20 \<or> 0x7F \<le> (of_char c :: nat)"

lemma space_seqs_octets: "q \<in> set space_seqs \<Longrightarrow> list_all unprintable q"
proof -
  have "list_all (list_all unprintable) space_seqs"
    by (simp add: space_seqs_def unprintable_def)
  moreover assume "q \<in> set space_seqs"
  ultimately show ?thesis by (simp add: list_all_iff)
qed

lemma strip_front_printable:
  assumes "printable s" "\<And>q. q \<in> set qs \<Longrightarrow> list_all unprintable q"
  shows "strip_front qs s = s"
proof (rule strip_front_id, rule notI)
  fix q
  assume q: "q \<in> set qs" "q \<noteq> []" "prefix q s"
  obtain c q' where c: "q = c # q'" using q(2) by (cases q) auto
  have "unprintable c" using assms(2)[OF q(1)] c by simp
  moreover have "c \<in> set s" using set_mono_prefix[OF q(3)] c by auto
  ultimately show False
    using assms(1) by (auto simp: printable_def unprintable_def list_all_iff)
qed

lemma trim_space_printable: "printable s \<Longrightarrow> trim_space s = s"
proof -
  assume p: "printable s"
  have "strip_front space_seqs s = s"
    using p space_seqs_octets by (rule strip_front_printable)
  moreover have "strip_front (map rev space_seqs) (rev s) = rev s"
    using p space_seqs_octets by (intro strip_front_printable) (auto simp: printable_def list_all_iff)
  ultimately show ?thesis by (simp add: trim_space_def)
qed

lemma githubToken_match:
  assumes pre: "pre = [] \<or> \<not> is_word (last pre)" and post: "post = [] \<or> \<not> is_word (hd post)"
    and k: "k \<in> set ''pousr''" and tok: "list_all is_alnum tok" "20 \<le> length tok"
  shows "MatchString githubToken (pre @ ''gh'' @ [k] @ ''_'' @ tok @ post)"
proof -
  let ?rest = "tok @ post"
  have b1: "(after None pre, ''gh'' @ k # ''_'' @ ?rest) \<in> set (re_ends RWordB (after None pre, ''gh'' @ k # ''_'' @ ?rest))"
    using pre by (auto simp: at_boundary_def after_def is_word_def is_alnum_def in_range_def)
  have b2: "(Some (CHR ''h''), k # ''_'' @ ?rest) \<in> set (re_ends (re_lit ''gh'') (after None pre, ''gh'' @ k # ''_'' @ ?rest))"
    using re_ends_lit[of _ "''gh''"] by simp
  have b3: "(Some k, ''_'' @ ?rest) \<in> set (re_ends (RClass (on_char (\<lambda>c. c \<in> set ''pousr''))) (Some (CHR ''h''), k # ''_'' @ ?rest))"
    using k by (simp add: spans.simps on_char_def)
  have b4: "(Some (CHR ''_''), ?rest) \<in> set (re_ends (re_lit ''_'') (Some k, ''_'' @ ?rest))"
    using re_ends_lit[of _ "''_''"] by simp
  have b5: "(after (Some (CHR ''_'')) tok, post) \<in> set (re_ends (RMany (on_char is_alnum) 20 None) (Some (CHR ''_''), ?rest))"
    using tok by (intro re_ends_many) auto
  have "is_word (last tok)" "tok \<noteq> []"
    using tok by (cases tok rule: rev_cases; auto simp: is_word_def)+
  then have b6: "(after (Some (CHR ''_'')) tok, post) \<in> set (re_ends RWordB (after (Some (CHR ''_'')) tok, post))"
    using post by (cases post) (auto simp: at_boundary_def after_def)
  have "(after (Some (CHR ''_'')) tok, post) \<in> set (re_ends githubToken (after None pre, ''gh'' @ k # ''_'' @ ?rest))"
    unfolding githubToken_def re_seq.simps
    by (rule re_ends_seqI[OF b1] re_ends_seqI[OF b2] re_ends_seqI[OF b3] re_ends_seqI[OF b4]
        re_ends_seqI[OF b5] re_ends_seqI[OF b6])+ simp
  then have "re_ends githubToken (after None pre, ''gh'' @ k # ''_'' @ ?rest) \<noteq> []"
    by force
  from re_search_skip[OF this] show ?thesis
    by (simp add: MatchString_def)
qed

lemma upper_char_dash: "upper_char c = CHR ''-'' \<longleftrightarrow> c = CHR ''-''"
proof (cases "in_range CHR ''a'' CHR ''z'' c")
  case True
  then have b: "97 \<le> (of_char c :: nat)" "(of_char c :: nat) \<le> 122"
    by (simp_all add: in_range_def)
  have up: "(of_char (upper_char c) :: nat) = of_char c - 32"
    using True b by (simp add: upper_char_def)
  have "(of_char c :: nat) - 32 \<noteq> 45"
    using b by linarith
  with up have "(of_char (upper_char c) :: nat) \<noteq> 45" by linarith
  then have "upper_char c \<noteq> CHR ''-''" by auto
  with b show ?thesis by auto
qed (simp add: upper_char_def)

lemma printable_upper: "printable s \<Longrightarrow> printable (map upper_char s)"
  by (auto simp: printable_def list_all_iff upper_char_def in_range_def)

lemma printable_ascii: "printable s \<Longrightarrow> is_ascii s"
  by (auto simp: printable_def is_ascii_def list_all_iff)

lemma printable_replace: "printable s \<Longrightarrow> printable (replace_char CHR ''-'' CHR ''_'' s)"
  by (auto simp: printable_def replace_char_def list_all_iff)

lemma normalizeKey_printable:
  "printable s \<Longrightarrow> normalizeKey U s = map upper_char (replace_char CHR ''-'' CHR ''_'' s)"
  by (simp add: normalizeKey_def trim_space_printable to_upper_def replace_all_singleton
      printable_ascii printable_replace)

lemma normalizeDisplayKey_printable: "printable s \<Longrightarrow> normalizeDisplayKey U s = map upper_char s"
  by (simp add: normalizeDisplayKey_def trim_space_printable to_upper_def printable_ascii)

text \<open>A redactor with the default configuration and no Unicode data, for closed examples.\<close>

definition ascii_tables :: unicode where
  "ascii_tables = \<lparr>u_upper = id, u_lower = id, u_fold = (=)\<rparr>"

definition default_redactor :: redactor where
  "default_redactor = NewRedactor ascii_tables \<lparr>Disabled = False, Allow = [], Deny = []\<rparr>"

subsection \<open>Properties\<close>



text \<open>Non-interference: two trees that differ only in non-empty strings under
  credential-bearing names are written as the same tree, so the bytes on disk are independent
  of the secrets.\<close>

theorem redact_noninterference:
  assumes "low_eq r key n m" "\<not> disabled r"
  shows "redactNode n r key = redactNode m r key"
  using assms redact_walk_low_eq by (simp add: redactNode_def)

theorem redact_noninterference_witness:
  "redactNode (YMapping [(YScalar ''!!str'' ''API-KEY'', YScalar ''!!str'' ''one'')]) default_redactor ''env''
   = redactNode (YMapping [(YScalar ''!!str'' ''API-KEY'', YScalar ''!!str'' ''two'')]) default_redactor ''env''"
proof (rule redact_noninterference)
  have "IsSecretKey default_redactor ''API-KEY''" by code_simp
  then show "low_eq default_redactor ''env'' (YMapping [(YScalar ''!!str'' ''API-KEY'', YScalar ''!!str'' ''one'')])
      (YMapping [(YScalar ''!!str'' ''API-KEY'', YScalar ''!!str'' ''two'')])"
    by (intro low_mapping) (simp add: isEnvelopeMetaKey_def low_secret)
qed (simp add: default_redactor_def NewRedactor_def)

text \<open>The walk only rewrites scalars: keys, kinds and nesting of the tree stay, and a
  second walk changes nothing, so re-recording a redacted payload is stable.\<close>

theorem redact_idempotent_shape:
  "redactNode (redactNode n r key) r key = redactNode n r key
   \<and> skeleton (redactNode n r key) = skeleton n"
  by (simp add: redactNode_def redact_walk_idem skeleton_redact_walk)

text \<open>Header and environment spellings of a name classify alike: upper-casing a
  printable ASCII name and turning its dashes into underscores changes neither verdict nor the
  effect of the allow and deny lists.\<close>

theorem secret_key_spelling:
  assumes "printable name"
  shows "IsSecretKey r (map upper_char (replace_char CHR ''-'' CHR ''_'' name)) = IsSecretKey r name"
proof -
  let ?n = "map upper_char (replace_char CHR ''-'' CHR ''_'' name)"
  have no_dash: "upper_char c = CHR ''-'' \<longleftrightarrow> c = CHR ''-''" for c
    using upper_char_dash .
  have "printable ?n"
    using assms by (simp add: printable_upper printable_replace)
  then have "normalizeKey U ?n = ?n" for U
    by (simp add: normalizeKey_printable) (auto simp: replace_char_def no_dash)
  moreover have "normalizeKey U name = ?n" for U
    using assms by (rule normalizeKey_printable)
  ultimately show ?thesis by (simp add: IsSecretKey_def)
qed

theorem secret_key_spelling_witness:
  "IsSecretKey default_redactor ''X_API_KEY'' = IsSecretKey default_redactor ''X-Api-Key''"
proof -
  have "map upper_char (replace_char CHR ''-'' CHR ''_'' ''X-Api-Key'') = ''X_API_KEY''" by code_simp
  moreover have "printable ''X-Api-Key''" by code_simp
  ultimately show ?thesis
    using secret_key_spelling[of "''X-Api-Key''" default_redactor] by simp
qed

text \<open>Every GitHub token, a word-bounded \<open>gh\<close>, one of \<open>pousr\<close>, an
  underscore and at least twenty alphanumerics, is recognised wherever it stands in a value.\<close>

theorem github_token_is_secret:
  assumes "pre = [] \<or> \<not> is_word (last pre)" "post = [] \<or> \<not> is_word (hd post)"
    and "k \<in> set ''pousr''" "list_all is_alnum tok" "20 \<le> length tok" "\<not> disabled r"
  shows "IsSecretValue r (pre @ ''gh'' @ [k] @ ''_'' @ tok @ post)"
  using githubToken_match[OF assms(1-5)] assms(6)
  by (simp add: IsSecretValue_def secretValuePatterns_def)

theorem github_token_is_secret_witness:
  "IsSecretValue default_redactor ''user:ghp_0123456789abcdefghij@host''"
proof -
  have "IsSecretValue default_redactor (''user:'' @ ''gh'' @ [CHR ''p''] @ ''_'' @ ''0123456789abcdefghij'' @ ''@host'')"
    by (rule github_token_is_secret)
      (simp_all add: default_redactor_def NewRedactor_def is_word_def is_alnum_def in_range_def is_digit_def)
  then show ?thesis by simp
qed

text \<open>The scope test of envelope metadata looks at the parent key only, so inside a
  payload mapping reached under the empty key the fields named like envelope metadata are left
  alone: a recognised credential there is written verbatim.\<close>

theorem empty_key_escapes_redaction:
  "\<exists>n. IsSecretValue default_redactor ''ghp_0123456789abcdefghij''
     \<and> n = YMapping [(YScalar ''!!str'' ''payload'', YMapping [(YScalar ''!!str'' '''',
           YMapping [(YScalar ''!!str'' ''error'', YScalar ''!!str'' ''ghp_0123456789abcdefghij'')])])]
     \<and> redactNode n default_redactor '''' = n"
proof -
  have "MatchString githubToken ([] @ ''gh'' @ [CHR ''p''] @ ''_'' @ ''0123456789abcdefghij'' @ [])"
    by (rule githubToken_match) (simp_all add: is_alnum_def in_range_def is_digit_def)
  then have "IsSecretValue default_redactor ''ghp_0123456789abcdefghij''"
    by (simp add: IsSecretValue_def secretValuePatterns_def default_redactor_def NewRedactor_def)
  then show ?thesis
    by (simp add: redactNode_def isEnvelopeMetaKey_def envelopeMetaKeys_def)
qed

end
