(* ===== verification/Go_Utf8.thy ===== *)
theory Go_Utf8
  imports Xrr_Prelude
begin

section \<open>UTF-8\<close>

text \<open>
  Package \<^verbatim>\<open>unicode/utf8\<close>. \<open>rune_size s\<close> is the number of octets of the
  encoding at the front of \<open>s\<close>, and 0 where \<^verbatim>\<open>utf8.DecodeRune\<close> reports
  \<^verbatim>\<open>RuneError\<close> of width 1: overlong forms, surrogates, values past U+10FFFF, stray
  or missing continuation octets.
\<close>

definition oct_in :: "nat \<Rightarrow> nat \<Rightarrow> char \<Rightarrow> bool" where
  "oct_in lo hi c \<longleftrightarrow> lo \<le> of_char c \<and> (of_char c :: nat) \<le> hi"

abbreviation cont_octet :: "char \<Rightarrow> bool" where
  "cont_octet \<equiv> oct_in 0x80 0xBF"

text \<open>The range Go's accept table allows for the second octet, by first octet.\<close>

definition second_ok :: "char \<Rightarrow> char \<Rightarrow> bool" where
  "second_ok a b =
     (if a = CHR 0xE0 then oct_in 0xA0 0xBF b
      else if a = CHR 0xED then oct_in 0x80 0x9F b
      else if a = CHR 0xF0 then oct_in 0x90 0xBF b
      else if a = CHR 0xF4 then oct_in 0x80 0x8F b
      else cont_octet b)"

fun rune_size :: "string \<Rightarrow> nat" where
  "rune_size [] = 0"
| "rune_size (a # r) =
     (if oct_in 0 0x7F a then 1
      else case r of
        [] \<Rightarrow> 0
      | b # r2 \<Rightarrow>
          if \<not> second_ok a b then 0
          else if oct_in 0xC2 0xDF a then 2
          else case r2 of
            [] \<Rightarrow> 0
          | c # r3 \<Rightarrow>
              if \<not> cont_octet c then 0
              else if oct_in 0xE0 0xEF a then 3
              else case r3 of
                [] \<Rightarrow> 0
              | d # r4 \<Rightarrow> if cont_octet d \<and> oct_in 0xF0 0xF4 a then 4 else 0)"

lemma rune_size_le: "rune_size s \<le> length s"
  by (cases s rule: rune_size.cases) (auto split: list.splits)

lemma rune_size_append: "rune_size s \<noteq> 0 \<Longrightarrow> rune_size (s @ t) = rune_size s"
proof (cases s)
  case (Cons a r)
  assume "rune_size s \<noteq> 0"
  with Cons show ?thesis by (auto split: list.split_asm if_split_asm)
qed simp

lemma rune_size_take: "rune_size s \<noteq> 0 \<Longrightarrow> rune_size (take (rune_size s) s) = rune_size s"
  by (cases s rule: rune_size.cases) (auto split: list.splits if_splits)

lemma rune_size_ascii [simp]: "oct_in 0 0x7F a \<Longrightarrow> rune_size (a # r) = 1"
  by simp

declare rune_size.simps(2) [simp del]

text \<open>
  \<open>utf8_runes s\<close> cuts \<open>s\<close> into the encodings that successive
  \<^verbatim>\<open>DecodeRune\<close> calls consume; an undecodable octet is a piece of its own.
  \<open>utf8_valid\<close> is \<^verbatim>\<open>utf8.Valid\<close>.
\<close>

function utf8_runes :: "string \<Rightarrow> string list" where
  "utf8_runes [] = []"
| "utf8_runes (a # r) =
     (let n = max 1 (rune_size (a # r)) in take n (a # r) # utf8_runes (drop n (a # r)))"
  by pat_completeness auto
termination
  by (relation "measure length") (auto simp: Let_def)

function utf8_valid :: "string \<Rightarrow> bool" where
  "utf8_valid [] = True"
| "utf8_valid (a # r) =
     (rune_size (a # r) \<noteq> 0 \<and> utf8_valid (drop (max 1 (rune_size (a # r))) (a # r)))"
  by pat_completeness auto
termination
  by (relation "measure length") auto

declare utf8_runes.simps(2) [simp del] utf8_valid.simps(2) [simp del]

definition is_rune :: "string \<Rightarrow> bool" where
  "is_rune p \<longleftrightarrow> p \<noteq> [] \<and> rune_size p = length p"

lemma concat_utf8_runes: "concat (utf8_runes s) = s"
  by (induction s rule: utf8_runes.induct) (auto simp: utf8_runes.simps(2) Let_def)

lemma utf8_valid_runes: "utf8_valid s \<Longrightarrow> list_all is_rune (utf8_runes s)"
proof (induction s rule: utf8_valid.induct)
  case (2 a r)
  let ?n = "rune_size (a # r)"
  have n: "?n \<noteq> 0" "max 1 ?n = ?n"
    using "2.prems" by (auto simp: utf8_valid.simps(2) max_def)
  have "is_rune (take ?n (a # r))"
    using n(1) rune_size_take[of "a # r"] rune_size_le[of "a # r"] by (simp add: is_rune_def)
  moreover have "list_all is_rune (utf8_runes (drop ?n (a # r)))"
    using "2.IH" "2.prems" n by (simp add: utf8_valid.simps(2))
  ultimately show ?case
    using n by (simp add: utf8_runes.simps(2) Let_def)
qed simp

lemma utf8_valid_Cons_rune:
  assumes "is_rune p"
  shows "utf8_valid (p @ s) = utf8_valid s" and "utf8_runes (p @ s) = p # utf8_runes s"
proof -
  obtain a r where p: "p = a # r" using assms by (cases p) (auto simp: is_rune_def)
  have n: "rune_size (a # r @ s) = length p"
    using assms rune_size_append[of p s] by (auto simp: is_rune_def p)
  show "utf8_valid (p @ s) = utf8_valid s"
    using n by (simp add: p utf8_valid.simps(2))
  show "utf8_runes (p @ s) = p # utf8_runes s"
    using n by (simp add: p utf8_runes.simps(2) Let_def)
qed

lemma utf8_runes_append: "list_all is_rune ps \<Longrightarrow> utf8_runes (concat ps @ s) = ps @ utf8_runes s"
  by (induction ps) (auto simp: utf8_valid_Cons_rune)

lemma utf8_valid_concat: "list_all is_rune ps \<Longrightarrow> utf8_valid (concat ps)"
  by (induction ps) (auto simp: utf8_valid_Cons_rune)

lemma is_ascii_utf8_valid: "is_ascii s \<Longrightarrow> utf8_valid s"
  by (induction s) (auto simp: is_ascii_def utf8_valid.simps(2) oct_in_def)

text \<open>An octet below 0x80 never occurs inside a longer encoding.\<close>

lemma is_rune_cases:
  assumes "is_rune p"
  obtains a where "p = [a]" "oct_in 0 0x7F a"
    | "2 \<le> length p" "list_all (oct_in 0x80 0xFF) p"
proof -
  obtain a r where p: "p = a # r" using assms by (cases p) (auto simp: is_rune_def)
  show ?thesis
  proof (cases "oct_in 0 0x7F a")
    case True
    with assms p have "r = []" by (simp add: is_rune_def)
    with p True show ?thesis by (intro that(1)) auto
  next
    case False
    then have "oct_in 0x80 0xFF a" by (auto simp: oct_in_def of_char_le)
    moreover have "2 \<le> length p \<and> list_all (oct_in 0x80 0xFF) r"
      using assms False unfolding p is_rune_def
      by (auto simp: rune_size.simps(2) second_ok_def oct_in_def split: list.splits if_splits)
    ultimately show ?thesis using p by (intro that(2)) auto
  qed
qed

end
