(* ===== verification/Sha256.thy ===== *)
theory Sha256
  imports Xrr_Prelude
begin

unbundle bit_operations_syntax

section \<open>SHA-256\<close>

text \<open>
  Package \<^verbatim>\<open>crypto/sha256\<close>, the hash behind every fingerprint: padding, message
  schedule and compression on 32-bit words, as FIPS 180-4 defines them (its constants are written
  in decimal here). The fingerprint of the
  sources is the first four digest octets in lowercase hexadecimal.
\<close>

type_synonym u32 = "32 word"

definition rotr :: "nat \<Rightarrow> u32 \<Rightarrow> u32" where
  "rotr n x = drop_bit n x OR push_bit (32 - n) x"

definition sha_ch :: "u32 \<Rightarrow> u32 \<Rightarrow> u32 \<Rightarrow> u32" where
  "sha_ch x y z = (x AND y) XOR (NOT x AND z)"

definition sha_maj :: "u32 \<Rightarrow> u32 \<Rightarrow> u32 \<Rightarrow> u32" where
  "sha_maj x y z = (x AND y) XOR (x AND z) XOR (y AND z)"

definition big_sigma0 :: "u32 \<Rightarrow> u32" where
  "big_sigma0 x = rotr 2 x XOR rotr 13 x XOR rotr 22 x"

definition big_sigma1 :: "u32 \<Rightarrow> u32" where
  "big_sigma1 x = rotr 6 x XOR rotr 11 x XOR rotr 25 x"

definition small_sigma0 :: "u32 \<Rightarrow> u32" where
  "small_sigma0 x = rotr 7 x XOR rotr 18 x XOR drop_bit 3 x"

definition small_sigma1 :: "u32 \<Rightarrow> u32" where
  "small_sigma1 x = rotr 17 x XOR rotr 19 x XOR drop_bit 10 x"

definition sha_k :: "u32 list" where
  "sha_k =
    [1116352408, 1899447441, 3049323471, 3921009573, 961987163, 1508970993, 2453635748, 2870763221,
     3624381080, 310598401, 607225278, 1426881987, 1925078388, 2162078206, 2614888103, 3248222580,
     3835390401, 4022224774, 264347078, 604807628, 770255983, 1249150122, 1555081692, 1996064986,
     2554220882, 2821834349, 2952996808, 3210313671, 3336571891, 3584528711, 113926993, 338241895,
     666307205, 773529912, 1294757372, 1396182291, 1695183700, 1986661051, 2177026350, 2456956037,
     2730485921, 2820302411, 3259730800, 3345764771, 3516065817, 3600352804, 4094571909, 275423344,
     430227734, 506948616, 659060556, 883997877, 958139571, 1322822218, 1537002063, 1747873779,
     1955562222, 2024104815, 2227730452, 2361852424, 2428436474, 2756734187, 3204031479, 3329325298]"

record sha_state =
  sha_a :: u32
  sha_b :: u32
  sha_c :: u32
  sha_d :: u32
  sha_e :: u32
  sha_f :: u32
  sha_g :: u32
  sha_h :: u32

definition sha_init :: sha_state where
  "sha_init = \<lparr>sha_a = 1779033703, sha_b = 3144134277, sha_c = 1013904242, sha_d = 2773480762,
     sha_e = 1359893119, sha_f = 2600822924, sha_g = 528734635, sha_h = 1541459225\<rparr>"

definition sha_round :: "u32 \<Rightarrow> u32 \<Rightarrow> sha_state \<Rightarrow> sha_state" where
  "sha_round k w s =
     (let t1 = sha_h s + big_sigma1 (sha_e s) + sha_ch (sha_e s) (sha_f s) (sha_g s) + k + w;
          t2 = big_sigma0 (sha_a s) + sha_maj (sha_a s) (sha_b s) (sha_c s)
      in \<lparr>sha_a = t1 + t2, sha_b = sha_a s, sha_c = sha_b s, sha_d = sha_c s,
          sha_e = sha_d s + t1, sha_f = sha_e s, sha_g = sha_f s, sha_h = sha_g s\<rparr>)"

text \<open>
  The rounds carry a window of the sixteen schedule words still needed: the first is used, and
  the one sixteen places later is computed and appended.
\<close>

fun sha_rounds :: "u32 list \<Rightarrow> u32 list \<Rightarrow> sha_state \<Rightarrow> sha_state" where
  "sha_rounds [] win s = s"
| "sha_rounds (k # ks) win s =
     (let w = win ! 0;
          nxt = small_sigma1 (win ! 14) + win ! 9 + small_sigma0 (win ! 1) + w
      in sha_rounds ks (drop 1 win @ [nxt]) (sha_round k w s))"

definition sha_add :: "sha_state \<Rightarrow> sha_state \<Rightarrow> sha_state" where
  "sha_add s t = \<lparr>sha_a = sha_a s + sha_a t, sha_b = sha_b s + sha_b t, sha_c = sha_c s + sha_c t,
     sha_d = sha_d s + sha_d t, sha_e = sha_e s + sha_e t, sha_f = sha_f s + sha_f t,
     sha_g = sha_g s + sha_g t, sha_h = sha_h s + sha_h t\<rparr>"

text \<open>Sixteen big-endian words of a 64-octet block.\<close>

fun be_words :: "bytes \<Rightarrow> u32 list" where
  "be_words (a # b # c # d # r) =
     (push_bit 24 (of_char a) OR push_bit 16 (of_char b) OR push_bit 8 (of_char c) OR of_char d)
       # be_words r"
| "be_words _ = []"

definition sha_block :: "bytes \<Rightarrow> sha_state \<Rightarrow> sha_state" where
  "sha_block blk s = sha_add s (sha_rounds sha_k (be_words blk) s)"

text \<open>The octets of \<open>n\<close>, big-endian, in \<open>k\<close> places (high octets beyond \<open>k\<close> places are dropped).\<close>

fun be_octets :: "nat \<Rightarrow> int \<Rightarrow> bytes" where
  "be_octets 0 n = []"
| "be_octets (Suc k) n = be_octets k (n div 256) @ [char_of (n mod 256)]"

definition sha_pad :: "bytes \<Rightarrow> bytes" where
  "sha_pad m =
     m @ CHR 0x80 # replicate ((119 - length m mod 64) mod 64) (CHR 0x00) @ be_octets 8 (8 * int (length m))"

function sha_blocks :: "bytes \<Rightarrow> sha_state \<Rightarrow> sha_state" where
  "sha_blocks m s = (if length m < 64 then s else sha_blocks (drop 64 m) (sha_block (take 64 m) s))"
  by pat_completeness auto
termination
  by (relation "measure (\<lambda>(m, s). length m)") auto

declare sha_blocks.simps [simp del]

definition sha_digest :: "sha_state \<Rightarrow> bytes" where
  "sha_digest s =
     concat (map (\<lambda>w. be_octets 4 (uint w))
       [sha_a s, sha_b s, sha_c s, sha_d s, sha_e s, sha_f s, sha_g s, sha_h s])"

definition sha256 :: "bytes \<Rightarrow> bytes" where
  "sha256 m = sha_digest (sha_blocks (sha_pad m) sha_init)"

lemma length_be_octets [simp]: "length (be_octets k n) = k"
  by (induction k arbitrary: n) auto

lemma length_sha256 [simp]: "length (sha256 m) = 32"
  by (simp add: sha256_def sha_digest_def)

text \<open>Padding fills whole blocks, so the block loop consumes every octet of the message.\<close>

lemma sha_pad_blocks: "length (sha_pad m) mod 64 = 0"
proof -
  define r where "r = length m mod 64"
  have r: "r < 64" by (simp add: r_def)
  have pad: "(119 - r) mod 64 = (if r \<le> 55 then 55 - r else 119 - r)"
    using r by (simp add: mod_if)
  have "(r + (9 + (119 - r) mod 64)) mod 64 = 0"
    using r by (cases "r \<le> 55") (auto simp: pad)
  then have "(length m + (9 + (119 - r) mod 64)) mod 64 = 0"
    unfolding r_def by (simp only: mod_add_left_eq)
  then show ?thesis
    by (simp add: sha_pad_def r_def add.assoc)
qed

text \<open>
  The truncation every fingerprint uses: \<^verbatim>\<open>hex.EncodeToString(sum[:4])\<close> and
  \<^verbatim>\<open>fmt.Sprintf("%x", sum[:4])\<close>.
\<close>

definition sum4 :: "bytes \<Rightarrow> string" where
  "sum4 m = hex_encode (take 4 (sha256 m))"

lemma sum4_shape: "length (sum4 m) = 8 \<and> list_all is_lower_hex (sum4 m)"
  by (simp add: sum4_def hex_encode_lower)

end
