(* ===== verification/Canonical.thy ===== *)
theory Canonical
  imports Go_Utf8 Sha256 "HOL-Library.Char_ord" "HOL-Library.List_Lexorder"
begin

section \<open>Canonical JSON and fingerprints (canonical.go)\<close>

text \<open>
  The values adapters hand to \<^verbatim>\<open>CanonicalJSON\<close>, the encoder of
  \<^verbatim>\<open>encoding/json\<close> as the sources configure it, the post-pass
  \<^verbatim>\<open>unescapeLineTerminators\<close>, and the fingerprint. The main results: the
  two-step Go pipeline computes exactly the RFC 8785 text, and that text determines the value
  up to the order of object keys.

  \<open>gval\<close> is a Go value of dynamic type nil, bool, integer, string, slice or
  string-keyed map; \<open>GOpaque\<close> is a value \<^verbatim>\<open>encoding/json\<close> cannot
  marshal (a channel, a function). Floating-point numbers are left out: the format does not
  pin their text.
\<close>

datatype gval =
    GNil
  | GBool bool
  | GInt int
  | GStr string
  | GList "gval list"
  | GMap "(string \<times> gval) list"
  | GOpaque string

fun json_ok :: "gval \<Rightarrow> bool" where
  "json_ok (GList vs) = list_all json_ok vs"
| "json_ok (GMap kvs) = list_all (\<lambda>(k, v). json_ok v) kvs"
| "json_ok (GOpaque t) = False"
| "json_ok _ = True"

subsection \<open>String literals\<close>

abbreviation bslash :: char where "bslash \<equiv> CHR 0x5C"
abbreviation dquote :: char where "dquote \<equiv> CHR 0x22"

text \<open>
  The escape of one ASCII octet with HTML escaping off: quote and backslash, the five short
  forms, the other control characters as lowercase \<open>\u00xx\<close>.
\<close>

definition json_esc :: "char \<Rightarrow> string" where
  "json_esc c =
     (if c = dquote \<or> c = bslash then [bslash, c]
      else if c = CHR 0x08 then bslash # ''b''
      else if c = CHR 0x0C then bslash # ''f''
      else if c = CHR 0x0A then bslash # ''n''
      else if c = CHR 0x0D then bslash # ''r''
      else if c = CHR 0x09 then bslash # ''t''
      else if oct_in 0 0x1F c then bslash # ''u00'' @ hex_byte c
      else [c])"

definition rawLineSeparator :: bytes where
  "rawLineSeparator = [CHR 0xE2, CHR 0x80, CHR 0xA8]"

definition rawParagraphSeparator :: bytes where
  "rawParagraphSeparator = [CHR 0xE2, CHR 0x80, CHR 0xA9]"

definition replacement_esc :: string where
  "replacement_esc = bslash # ''ufffd''"

text \<open>
  One decoded rune as \<^verbatim>\<open>encoding/json\<close> writes it, and as RFC 8785 writes it:
  Go escapes U+2028 and U+2029 whatever the options. An undecodable octet becomes the escape of
  U+FFFD in both.
\<close>

definition go_piece :: "string \<Rightarrow> string" where
  "go_piece p =
     (if \<not> is_rune p then replacement_esc
      else if p = rawLineSeparator then bslash # ''u2028''
      else if p = rawParagraphSeparator then bslash # ''u2029''
      else case p of [c] \<Rightarrow> json_esc c | _ \<Rightarrow> p)"

definition rfc_piece :: "string \<Rightarrow> string" where
  "rfc_piece p =
     (if \<not> is_rune p then replacement_esc else case p of [c] \<Rightarrow> json_esc c | _ \<Rightarrow> p)"

definition go_quote :: "string \<Rightarrow> string" where
  "go_quote s = dquote # concat (map go_piece (utf8_runes s)) @ [dquote]"

definition rfc_quote :: "string \<Rightarrow> string" where
  "rfc_quote s = dquote # concat (map rfc_piece (utf8_runes s)) @ [dquote]"

subsection \<open>Values\<close>

text \<open>
  The compact encoding, for a given string quoting: no white space, map entries in the order
  of their keys (compared octet by octet).
\<close>

fun json_with :: "(string \<Rightarrow> string) \<Rightarrow> gval \<Rightarrow> string" where
  "json_with q GNil = ''null''"
| "json_with q (GBool b) = (if b then ''true'' else ''false'')"
| "json_with q (GInt i) = show_int i"
| "json_with q (GStr s) = q s"
| "json_with q (GList vs) = ''['' @ join_with '','' (map (json_with q) vs) @ '']''"
| "json_with q (GMap kvs) =
     ''{'' @ join_with '',''
       (map (\<lambda>(k, t). q k @ '':'' @ t) (sort_key fst (map (\<lambda>(k, v). (k, json_with q v)) kvs))) @ ''}''"
| "json_with q (GOpaque t) = []"

definition json_Encode :: "gval \<Rightarrow> bytes res" where
  "json_Encode v =
     (if json_ok v then Inr (json_with go_quote v @ [CHR 0x0A]) else Inl (ErrNew ''json: unsupported type''))"

subsection \<open>The post-pass and the fingerprint\<close>

text \<open>
  The loop of \<^verbatim>\<open>unescapeLineTerminators\<close>. An escape is consumed as a unit of two
  octets, or of six when it is one of the two line terminators.
\<close>

fun unescape_loop :: "bytes \<Rightarrow> bytes" where
  "unescape_loop [] = []"
| "unescape_loop (c # r) =
     (if c \<noteq> bslash \<or> r = [] then c # unescape_loop r
      else if take 5 r = ''u2028'' then rawLineSeparator @ unescape_loop (drop 5 r)
      else if take 5 r = ''u2029'' then rawParagraphSeparator @ unescape_loop (drop 5 r)
      else c # hd r # unescape_loop (tl r))"

definition unescapeLineTerminators :: "bytes \<Rightarrow> bytes" where
  "unescapeLineTerminators b = (if bslash \<notin> set b then b else unescape_loop b)"

definition CanonicalJSON :: "gval \<Rightarrow> bytes res" where
  "CanonicalJSON v =
     (case json_Encode v of
        Inl e \<Rightarrow> Inl e
      | Inr buf \<Rightarrow> Inr (unescapeLineTerminators (trim_suffix [CHR 0x0A] buf)))"

definition CanonicalFingerprint :: "gval \<Rightarrow> string res" where
  "CanonicalFingerprint v =
     (case CanonicalJSON v of Inl e \<Rightarrow> Inl e | Inr canonical \<Rightarrow> Inr (sum4 canonical))"

subsection \<open>The pipeline computes RFC 8785 text\<close>

lemma unescape_loop_plain: "bslash \<notin> set b \<Longrightarrow> unescape_loop b = b"
  by (induction b rule: unescape_loop.induct) auto

lemma unescapeLineTerminators_loop: "unescapeLineTerminators b = unescape_loop b"
  by (simp add: unescapeLineTerminators_def unescape_loop_plain)

text \<open>\<open>unesc x y\<close>: at the front of any text, the post-pass turns \<open>x\<close> into \<open>y\<close>.\<close>

definition unesc :: "bytes \<Rightarrow> bytes \<Rightarrow> bool" where
  "unesc x y \<longleftrightarrow> (\<forall>t. unescape_loop (x @ t) = y @ unescape_loop t)"

lemma unesc_append: "unesc x y \<Longrightarrow> unesc x' y' \<Longrightarrow> unesc (x @ x') (y @ y')"
  by (simp add: unesc_def)

lemma unesc_Nil [simp]: "unesc [] []"
  by (simp add: unesc_def)

lemma unesc_plain: "bslash \<notin> set x \<Longrightarrow> unesc x x"
  unfolding unesc_def by (induction x) auto

lemma unesc_pair: "c \<noteq> CHR ''u'' \<Longrightarrow> unesc [bslash, c] [bslash, c]"
  by (simp add: unesc_def)

lemma unesc_hex4:
  assumes "bslash \<notin> set h" "a \<noteq> CHR ''2''" "a \<noteq> bslash"
  shows "unesc (bslash # CHR ''u'' # a # h) (bslash # CHR ''u'' # a # h)"
proof -
  have "unesc (a # h) (a # h)"
    using assms by (intro unesc_plain) auto
  then show ?thesis
    using assms(2,3) by (auto simp: unesc_def)
qed

lemma bslash_notin_hex: "bslash \<notin> set (hex_byte c)"
proof -
  have "list_all is_lower_hex (hex_byte c)"
    using hex_encode_lower[of "[c]"] by (simp add: hex_encode_def)
  then have "set (hex_byte c) \<subseteq> set hex_digits"
    unfolding list_all_iff is_lower_hex_def by blast
  moreover have "bslash \<notin> set hex_digits"
    by (simp add: hex_digits_def)
  ultimately show ?thesis by blast
qed

lemma unesc_json_esc: "unesc (json_esc c) (json_esc c)"
proof -
  have "unesc (bslash # ''u00'' @ hex_byte c) (bslash # ''u00'' @ hex_byte c)"
    using unesc_hex4[of "CHR ''0'' # hex_byte c" "CHR ''0''"] by (simp add: bslash_notin_hex)
  then show ?thesis
    by (auto simp: json_esc_def unesc_pair intro: unesc_plain)
qed

lemma unesc_piece: "unesc (go_piece p) (rfc_piece p)"
proof (cases "is_rune p")
  case False
  then show ?thesis
    using unesc_hex4[of "''ffd''" "CHR ''f''"] by (simp add: go_piece_def rfc_piece_def replacement_esc_def)
next
  case rune: True
  consider "p = rawLineSeparator" | "p = rawParagraphSeparator"
    | "p \<noteq> rawLineSeparator" "p \<noteq> rawParagraphSeparator" by blast
  then show ?thesis
  proof cases
    case 3
    with rune have eq: "go_piece p = rfc_piece p"
      by (simp add: go_piece_def rfc_piece_def)
    show ?thesis
    proof (cases rule: is_rune_cases[OF rune])
      case (1 a)
      then show ?thesis
        using eq rune by (simp add: rfc_piece_def unesc_json_esc)
    next
      case 2
      then have "bslash \<notin> set p"
        by (auto simp: list_all_iff oct_in_def)
      moreover have "rfc_piece p = p"
        using 2 rune by (auto simp: rfc_piece_def split: list.splits)
      ultimately show ?thesis
        using eq by (simp add: unesc_plain)
    qed
  qed (use rune in \<open>simp_all add: go_piece_def rfc_piece_def rawLineSeparator_def
      rawParagraphSeparator_def unesc_def\<close>)
qed

lemma unesc_concat: "list_all2 unesc xs ys \<Longrightarrow> unesc (concat xs) (concat ys)"
  by (induction rule: list_all2_induct) (auto intro: unesc_append)

lemma unesc_quote: "unesc (go_quote s) (rfc_quote s)"
proof -
  have "unesc (concat (map go_piece ps)) (concat (map rfc_piece ps))" for ps
    by (rule unesc_concat) (simp add: list_all2_conv_all_nth unesc_piece)
  moreover have "unesc [dquote] [dquote]"
    by (simp add: unesc_plain)
  ultimately have "unesc ([dquote] @ concat (map go_piece (utf8_runes s)) @ [dquote])
      ([dquote] @ concat (map rfc_piece (utf8_runes s)) @ [dquote])"
    by (intro unesc_append)
  then show ?thesis
    by (simp add: go_quote_def rfc_quote_def)
qed

lemma unesc_join:
  assumes "list_all2 unesc xs ys"
  shows "unesc (join_with '','' xs) (join_with '','' ys)"
  using assms
proof (induction rule: list_all2_induct)
  case (Cons x xs y ys)
  have comma: "unesc '','' '',''" by (simp add: unesc_plain)
  show ?case
  proof (cases xs)
    case Nil
    with Cons show ?thesis by simp
  next
    case (Cons z zs)
    with Cons.hyps obtain w ws where ys: "ys = w # ws"
      by (cases ys) auto
    have "unesc (x @ '','' @ join_with '','' xs) (y @ '','' @ join_with '','' ys)"
      using Cons.hyps(1) Cons.IH comma by (intro unesc_append)
    then show ?thesis
      using Cons ys by simp
  qed
qed simp

lemma sort_key_map_key:
  assumes "\<And>x. x \<in> set xs \<Longrightarrow> key' (g x) = key x"
  shows "sort_key key' (map g xs) = map g (sort_key key xs)"
proof -
  have ins: "insort_key key' (g x) (map g ys) = map g (insort_key key x ys)"
    if "key' (g x) = key x" "\<And>y. y \<in> set ys \<Longrightarrow> key' (g y) = key y" for x ys
    using that by (induction ys) auto
  show ?thesis
    using assms
  proof (induction xs)
    case (Cons x xs)
    then have "insort_key key' (g x) (map g (sort_key key xs)) = map g (insort_key key x (sort_key key xs))"
      by (intro ins) auto
    with Cons show ?case by simp
  qed simp
qed

lemma sort_entries:
  "sort_key fst (map (\<lambda>(k, v). (k, f k v)) kvs) = map (\<lambda>(k, v). (k, f k v)) (sort_key fst kvs)"
  by (rule sort_key_map_key) auto

text \<open>The members of an encoded object, in key order.\<close>

definition member_text :: "(string \<Rightarrow> string) \<Rightarrow> (string \<times> gval) \<Rightarrow> string" where
  "member_text q = (\<lambda>(k, v). q k @ '':'' @ json_with q v)"

lemma json_with_GMap:
  "json_with q (GMap kvs) = ''{'' @ join_with '','' (map (member_text q) (sort_key fst kvs)) @ ''}''"
  using sort_entries[of "\<lambda>_. json_with q" kvs]
  by (simp add: member_text_def case_prod_unfold comp_def)

lemma unesc_json: "unesc (json_with go_quote v) (json_with rfc_quote v)"
proof (induction v)
  case (GInt i)
  have "bslash \<notin> set (show_nat n)" for n
    using show_nat_digits[of n] by (auto simp: list_all_iff is_digit_def)
  then show ?case
    by (auto intro!: unesc_plain simp: show_int_def)
next
  case (GList vs)
  then have "list_all2 unesc (map (json_with go_quote) vs) (map (json_with rfc_quote) vs)"
    by (auto simp: list_all2_conv_all_nth)
  then have "unesc (''['' @ join_with '','' (map (json_with go_quote) vs) @ '']'')
      (''['' @ join_with '','' (map (json_with rfc_quote) vs) @ '']'')"
    by (intro unesc_append unesc_join) (simp_all add: unesc_plain)
  then show ?case by simp
next
  case (GMap kvs)
  have member: "unesc (member_text go_quote kv) (member_text rfc_quote kv)" if "kv \<in> set kvs" for kv
  proof -
    obtain k v where kv: "kv = (k, v)" by (cases kv)
    then have "unesc (json_with go_quote v) (json_with rfc_quote v)"
      using GMap that by auto
    then have "unesc (go_quote k @ '':'' @ json_with go_quote v) (rfc_quote k @ '':'' @ json_with rfc_quote v)"
      by (intro unesc_append unesc_quote) (simp_all add: unesc_plain)
    then show ?thesis by (simp add: member_text_def kv)
  qed
  have "list_all2 unesc (map (member_text go_quote) (sort_key fst kvs))
      (map (member_text rfc_quote) (sort_key fst kvs))"
    unfolding list_all2_map1 list_all2_map2 list_all2_same using member by simp
  then have "unesc (''{'' @ join_with '','' (map (member_text go_quote) (sort_key fst kvs)) @ ''}'')
      (''{'' @ join_with '','' (map (member_text rfc_quote) (sort_key fst kvs)) @ ''}'')"
    by (intro unesc_append unesc_join) (simp_all add: unesc_plain)
  then show ?case by (simp only: json_with_GMap)
qed (simp_all add: unesc_plain unesc_quote)

lemma CanonicalJSON_rfc:
  "CanonicalJSON v =
     (if json_ok v then Inr (json_with rfc_quote v) else Inl (ErrNew ''json: unsupported type''))"
proof -
  have "unescape_loop (json_with go_quote v) = json_with rfc_quote v"
    using unesc_json[of v] by (auto simp: unesc_def dest: spec[of _ "[]"])
  then show ?thesis
    by (simp add: CanonicalJSON_def json_Encode_def unescapeLineTerminators_loop trim_suffix_def)
qed

subsection \<open>Canonical text determines the value\<close>

lemma hex_byte_inj: "hex_byte c = hex_byte d \<Longrightarrow> c = d"
proof -
  assume eq: "hex_byte c = hex_byte d"
  have nth: "i = j" if "hex_digits ! i = hex_digits ! j" "i < 16" "j < 16" for i j
    using that nth_eq_iff_index_eq[of hex_digits i j] by (simp add: hex_digits_def)
  from eq have "(of_char c :: nat) div 16 = of_char d div 16" "(of_char c :: nat) mod 16 = of_char d mod 16"
    by (auto simp: hex_byte_def intro!: nth nibble_bounds)
  then have "(of_char c :: nat) = of_char d"
    by (metis mult_div_mod_eq)
  then show ?thesis by simp
qed

text \<open>The second octet of an escape, and what it stands for.\<close>

lemma json_esc_unique: "json_esc a @ r = json_esc b @ s \<Longrightarrow> a = b"
  by (auto simp: json_esc_def hex_byte_inj split: if_splits)
    (auto simp: hex_byte_def dest!: hex_byte_inj[unfolded hex_byte_def, simplified, OF conjI])

interpretation rune_code: prefix_code is_rune rfc_piece
proof unfold_locales
  fix p q r s
  assume p: "is_rune p" and q: "is_rune q" and eq: "rfc_piece p @ r = rfc_piece q @ s"
  have multi: "rfc_piece x = x \<and> oct_in 0x80 0xFF (hd x)" if "is_rune x" "2 \<le> length x" "list_all (oct_in 0x80 0xFF) x" for x
    using that by (auto simp: rfc_piece_def split: list.splits)
  have esc_hd: "\<exists>c cs. json_esc a = c # cs \<and> oct_in 0 0x7F c" if "oct_in 0 0x7F a" for a
    using that by (auto simp: json_esc_def oct_in_def)
  show "p = q"
  proof (cases rule: is_rune_cases[OF p])
    case (1 a)
    show ?thesis
    proof (cases rule: is_rune_cases[OF q])
      case (1 b)
      with \<open>p = [a]\<close> eq p q show ?thesis
        by (simp add: rfc_piece_def json_esc_unique)
    next
      case 2
      with multi[OF q] esc_hd[of a] 1 eq p show ?thesis
        by (cases q) (auto simp: rfc_piece_def oct_in_def)
    qed
  next
    case mp: 2
    show ?thesis
    proof (cases rule: is_rune_cases[OF q])
      case (1 b)
      with multi[OF p] esc_hd[of b] mp eq q show ?thesis
        by (cases p) (auto simp: rfc_piece_def oct_in_def)
    next
      case 2
      with multi[OF q] multi[OF p] mp eq have "p @ r = q @ s" by simp
      moreover from this have "length p = length q"
        using rune_size_append[of p r] rune_size_append[of q s] p q by (simp add: is_rune_def)
      ultimately show ?thesis by simp
    qed
  qed
qed

lemma rfc_piece_no_quote:
  assumes p: "is_rune p"
  shows "\<exists>c cs. rfc_piece p = c # cs \<and> c \<noteq> dquote"
proof (cases rule: is_rune_cases[OF p])
  case (1 a)
  with p show ?thesis by (auto simp: rfc_piece_def json_esc_def)
next
  case 2
  with p show ?thesis by (cases p) (auto simp: rfc_piece_def oct_in_def split: list.splits)
qed

lemma rfc_body_unique:
  assumes "list_all is_rune ps" "list_all is_rune qs"
    and "concat (map rfc_piece ps) @ dquote # r = concat (map rfc_piece qs) @ dquote # s"
  shows "ps = qs \<and> r = s"
  using assms
proof (induction ps arbitrary: qs)
  case Nil
  then show ?case
    using rfc_piece_no_quote by (cases qs) fastforce+
next
  case (Cons p ps)
  show ?case
  proof (cases qs)
    case Nil
    then show ?thesis
      using Cons.prems rfc_piece_no_quote[of p] by auto
  next
    case (Cons q qs')
    then have "rfc_piece p @ (concat (map rfc_piece ps) @ dquote # r) =
        rfc_piece q @ (concat (map rfc_piece qs') @ dquote # s)"
      using Cons.prems by simp
    then have "p = q \<and> concat (map rfc_piece ps) @ dquote # r = concat (map rfc_piece qs') @ dquote # s"
      using Cons.prems Cons by (intro rune_code.enc_cancel) auto
    then show ?thesis
      using Cons.IH[of qs'] Cons.prems Cons by simp
  qed
qed

interpretation string_code: prefix_code utf8_valid rfc_quote
proof unfold_locales
  fix x y r s
  assume v: "utf8_valid x" "utf8_valid y" and eq: "rfc_quote x @ r = rfc_quote y @ s"
  then have "utf8_runes x = utf8_runes y"
    using rfc_body_unique[OF utf8_valid_runes utf8_valid_runes, of x y r s]
    by (simp add: rfc_quote_def)
  then show "x = y"
    by (metis concat_utf8_runes)
qed

text \<open>
  \<open>key_norm\<close> sorts the entries of every map by key: two values with the same normal form
  are the same Go value, since maps have no order. \<open>canon_ok\<close> asks for UTF-8 strings
  and marshallable values.
\<close>

fun key_norm :: "gval \<Rightarrow> gval" where
  "key_norm (GList vs) = GList (map key_norm vs)"
| "key_norm (GMap kvs) = GMap (sort_key fst (map (\<lambda>(k, v). (k, key_norm v)) kvs))"
| "key_norm v = v"

fun canon_ok :: "gval \<Rightarrow> bool" where
  "canon_ok (GStr s) = utf8_valid s"
| "canon_ok (GList vs) = list_all canon_ok vs"
| "canon_ok (GMap kvs) = list_all (\<lambda>(k, v). utf8_valid k \<and> canon_ok v) kvs"
| "canon_ok (GOpaque t) = False"
| "canon_ok _ = True"

lemma canon_ok_json_ok: "canon_ok v \<Longrightarrow> json_ok v"
  by (induction v) (auto simp: list_all_iff)

lemma join_with_Cons: "join_with sep (x # xs) = x @ concat (map (\<lambda>y. sep @ y) xs)"
  by (induction xs arbitrary: x) auto

text \<open>The first octet of a canonical text tells which kind of value it is.\<close>

definition text_kind :: "char \<Rightarrow> nat" where
  "text_kind c = (if c = CHR ''n'' then 0 else if c = CHR ''t'' then 1 else if c = CHR ''f'' then 2
     else if c = dquote then 4 else if c = CHR ''['' then 5 else if c = CHR ''{'' then 6
     else if is_digit c \<or> c = CHR ''-'' then 3 else 7)"

fun val_kind :: "gval \<Rightarrow> nat" where
  "val_kind GNil = 0"
| "val_kind (GBool b) = (if b then 1 else 2)"
| "val_kind (GInt i) = 3"
| "val_kind (GStr s) = 4"
| "val_kind (GList vs) = 5"
| "val_kind (GMap kvs) = 6"
| "val_kind (GOpaque t) = 8"

lemma json_kind: "canon_ok v \<Longrightarrow> \<exists>c cs. json_with rfc_quote v = c # cs \<and> text_kind c = val_kind v"
proof (cases v)
  case (GInt i)
  obtain c cs where c: "show_int i = c # cs" "is_digit c \<or> c = CHR ''-''"
    using show_int_head by blast
  then have "text_kind c = 3"
    by (auto simp: text_kind_def is_digit_def)
  with c GInt show ?thesis by simp
qed (simp_all add: text_kind_def rfc_quote_def)

lemma json_kind_eq:
  assumes "canon_ok v" "canon_ok w" "json_with rfc_quote v @ r = json_with rfc_quote w @ s"
  shows "val_kind v = val_kind w"
  using json_kind[OF assms(1)] json_kind[OF assms(2)] assms(3) by auto

lemma val_kind_le: "canon_ok v \<Longrightarrow> val_kind v \<le> 6"
  by (cases v) auto

lemma json_head:
  assumes "canon_ok v"
  shows "\<exists>c cs. json_with rfc_quote v = c # cs \<and> c \<notin> {CHR '']'', CHR ''}'', CHR '',''}"
proof -
  have "text_kind c = 7" if "c \<in> {CHR '']'', CHR ''}'', CHR '',''}" for c
    using that by (auto simp: text_kind_def is_digit_def)
  then show ?thesis
    using json_kind[OF assms] val_kind_le[OF assms] by fastforce
qed

lemma items_unique_tail:
  assumes U: "\<And>x y r s. x \<in> set xs \<Longrightarrow> y \<in> set ys \<Longrightarrow> e x @ r = e y @ s \<Longrightarrow>
      ends_number r \<Longrightarrow> ends_number s \<Longrightarrow> f x = f y \<and> r = s"
    and z: "z \<noteq> CHR '',''" "\<not> is_digit z"
    and eq: "concat (map (\<lambda>y. '','' @ e y) xs) @ z # r = concat (map (\<lambda>y. '','' @ e y) ys) @ z # s"
  shows "map f xs = map f ys \<and> r = s"
  using U eq
proof (induction xs arbitrary: ys)
  case Nil
  with z show ?case by (cases ys) auto
next
  case (Cons x xs)
  have ends: "ends_number (concat (map (\<lambda>y. '','' @ e y) us) @ z # t)" for us t
    using z by (cases us) (auto simp: is_digit_def)
  show ?case
  proof (cases ys)
    case Nil
    with Cons.prems z show ?thesis by auto
  next
    case (Cons y ys')
    let ?r = "concat (map (\<lambda>y. '','' @ e y) xs) @ z # r"
    let ?s = "concat (map (\<lambda>y. '','' @ e y) ys') @ z # s"
    have "e x @ ?r = e y @ ?s"
      using Cons.prems(2) Cons by simp
    then have xy: "f x = f y \<and> ?r = ?s"
      using Cons.prems(1)[of x y ?r ?s] Cons ends by simp
    have "map f xs = map f ys' \<and> r = s"
      by (rule Cons.IH) (use Cons.prems(1) Cons xy in auto)
    with xy Cons show ?thesis by simp
  qed
qed

lemma items_unique:
  assumes U: "\<And>x y r s. x \<in> set xs \<Longrightarrow> y \<in> set ys \<Longrightarrow> e x @ r = e y @ s \<Longrightarrow>
      ends_number r \<Longrightarrow> ends_number s \<Longrightarrow> f x = f y \<and> r = s"
    and hd: "\<And>x. x \<in> set xs \<union> set ys \<Longrightarrow> \<exists>c cs. e x = c # cs \<and> c \<noteq> z"
    and z: "z \<noteq> CHR '',''" "\<not> is_digit z"
    and eq: "join_with '','' (map e xs) @ z # r = join_with '','' (map e ys) @ z # s"
  shows "map f xs = map f ys \<and> r = s"
proof (cases xs)
  case Nil
  show ?thesis
  proof (cases ys)
    case (Cons y ys')
    then show ?thesis
      using Nil eq hd[of y] by (auto simp: join_with_Cons)
  qed (use Nil eq in auto)
next
  case xs: (Cons x xs')
  show ?thesis
  proof (cases ys)
    case Nil
    then show ?thesis
      using xs eq hd[of x] by (auto simp: join_with_Cons)
  next
    case ys: (Cons y ys')
    have "concat (map (\<lambda>y. '','' @ e y) xs) @ z # r = concat (map (\<lambda>y. '','' @ e y) ys) @ z # s"
      using eq by (simp add: xs ys join_with_Cons comp_def)
    from items_unique_tail[OF U z this] show ?thesis by simp
  qed
qed

text \<open>One step of the induction: lists of values whose texts are unique, and maps of them.\<close>

definition text_unique :: "gval \<Rightarrow> bool" where
  "text_unique v \<longleftrightarrow> (\<forall>w r s. canon_ok v \<longrightarrow> canon_ok w \<longrightarrow> json_with rfc_quote v @ r = json_with rfc_quote w @ s \<longrightarrow>
     ends_number r \<longrightarrow> ends_number s \<longrightarrow> key_norm v = key_norm w \<and> r = s)"

lemma text_uniqueD:
  "text_unique v \<Longrightarrow> canon_ok v \<Longrightarrow> canon_ok w \<Longrightarrow> json_with rfc_quote v @ r = json_with rfc_quote w @ s \<Longrightarrow>
   ends_number r \<Longrightarrow> ends_number s \<Longrightarrow> key_norm v = key_norm w \<and> r = s"
  unfolding text_unique_def by blast

lemma text_unique_items:
  assumes "\<And>v. v \<in> set vs \<Longrightarrow> text_unique v" "list_all canon_ok vs" "list_all canon_ok ws"
    and "join_with '','' (map (json_with rfc_quote) vs) @ CHR '']'' # r = join_with '','' (map (json_with rfc_quote) ws) @ CHR '']'' # s"
  shows "map key_norm vs = map key_norm ws \<and> r = s"
proof (rule items_unique[OF _ _ _ _ assms(4)])
  show "key_norm x = key_norm y \<and> r = s"
    if "x \<in> set vs" "y \<in> set ws" "json_with rfc_quote x @ r = json_with rfc_quote y @ s"
      "ends_number r" "ends_number s" for x y r s
    using text_uniqueD[OF assms(1)[OF that(1)] _ _ that(3-5)] assms(2,3) that(1,2) by (simp add: list_all_iff)
  show "\<exists>c cs. json_with rfc_quote x = c # cs \<and> c \<noteq> CHR '']''" if "x \<in> set vs \<union> set ws" for x
    using json_head[of x] assms(2,3) that by (auto simp: list_all_iff)
qed (simp_all add: is_digit_def)

lemma text_unique_members:
  assumes U: "\<And>k v. (k, v) \<in> set kvs \<Longrightarrow> text_unique v"
    and ok: "list_all (\<lambda>(k, v). utf8_valid k \<and> canon_ok v) kvs" "list_all (\<lambda>(k, v). utf8_valid k \<and> canon_ok v) lws"
    and eq: "join_with '','' (map (member_text rfc_quote) kvs) @ CHR ''}'' # r
      = join_with '','' (map (member_text rfc_quote) lws) @ CHR ''}'' # s"
  shows "map (\<lambda>(k, v). (k, key_norm v)) kvs = map (\<lambda>(k, v). (k, key_norm v)) lws \<and> r = s"
proof (rule items_unique[OF _ _ _ _ eq])
  fix x y r s
  assume xy: "x \<in> set kvs" "y \<in> set lws"
    and e: "member_text rfc_quote x @ r = member_text rfc_quote y @ s" "ends_number r" "ends_number s"
  obtain k v l u where kl: "x = (k, v)" "y = (l, u)" by (cases x; cases y)
  have k: "utf8_valid k" "utf8_valid l" "canon_ok v" "canon_ok u"
    using xy ok kl by (auto simp: list_all_iff)
  have "rfc_quote k @ ('':'' @ json_with rfc_quote v @ r) = rfc_quote l @ ('':'' @ json_with rfc_quote u @ s)"
    using e(1) by (simp add: member_text_def kl)
  then have "k = l \<and> '':'' @ json_with rfc_quote v @ r = '':'' @ json_with rfc_quote u @ s"
    by (intro string_code.enc_cancel k)
  then show "(case x of (k, v) \<Rightarrow> (k, key_norm v)) = (case y of (k, v) \<Rightarrow> (k, key_norm v)) \<and> r = s"
    using text_uniqueD[OF U k(3,4) _ e(2,3)] xy(1) by (simp add: kl)
next
  fix x
  assume "x \<in> set kvs \<union> set lws"
  show "\<exists>c cs. member_text rfc_quote x = c # cs \<and> c \<noteq> CHR ''}''"
    by (cases x) (simp add: member_text_def rfc_quote_def)
qed (simp_all add: is_digit_def)

lemma canonical_unique:
  "canon_ok v \<Longrightarrow> canon_ok w \<Longrightarrow> json_with rfc_quote v @ r = json_with rfc_quote w @ s \<Longrightarrow>
   ends_number r \<Longrightarrow> ends_number s \<Longrightarrow> key_norm v = key_norm w \<and> r = s"
proof (induction v arbitrary: w r s)
  case GNil
  with json_kind_eq[OF GNil.prems(1-3)] show ?case by (cases w) (auto split: if_splits)
next
  case (GBool b)
  with json_kind_eq[OF GBool.prems(1-3)] show ?case by (cases w) (auto split: if_splits)
next
  case (GInt i)
  from json_kind_eq[OF GInt.prems(1-3)] obtain j where "w = GInt j"
    by (cases w) (auto split: if_splits)
  with GInt.prems show_int_unique[of i r j s] show ?case by simp
next
  case (GStr x)
  from json_kind_eq[OF GStr.prems(1-3)] obtain y where "w = GStr y"
    by (cases w) (auto split: if_splits)
  with GStr.prems string_code.enc_cancel[of x y r s] show ?case by simp
next
  case (GList vs)
  have U: "text_unique v" if "v \<in> set vs" for v
    unfolding text_unique_def using GList.IH[OF that] by blast
  show ?case
  proof (cases w)
    case (GList ws)
    then show ?thesis
      using text_unique_items[of vs ws r s, OF U] GList.prems(1-3) by simp
  qed (use json_kind_eq[OF GList.prems(1-3)] in \<open>simp_all split: if_splits\<close>)
next
  case (GMap kvs)
  have U: "text_unique v" if "(k, v) \<in> set (sort_key fst kvs)" for k v
  proof -
    have "(k, v) \<in> set kvs" "v \<in> Basic_BNFs.snds (k, v)" using that by auto
    then show ?thesis unfolding text_unique_def using GMap.IH by blast
  qed
  show ?case
  proof (cases w)
    case (GMap lws)
    have norm: "key_norm (GMap xs) = GMap (map (\<lambda>(k, v). (k, key_norm v)) (sort_key fst xs))" for xs
      using sort_entries[of "\<lambda>_. key_norm"] by simp
    have ok: "list_all (\<lambda>(k, v). utf8_valid k \<and> canon_ok v) (sort_key fst xs)" if "canon_ok (GMap xs)" for xs
      using that by (simp add: list_all_iff)
    have eq: "join_with '','' (map (member_text rfc_quote) (sort_key fst kvs)) @ CHR ''}'' # r =
        join_with '','' (map (member_text rfc_quote) (sort_key fst lws)) @ CHR ''}'' # s"
      using GMap.prems(3) GMap by (simp add: json_with_GMap del: json_with.simps)
    have "map (\<lambda>(k, v). (k, key_norm v)) (sort_key fst kvs) = map (\<lambda>(k, v). (k, key_norm v)) (sort_key fst lws) \<and> r = s"
      by (rule text_unique_members[OF U ok[OF GMap.prems(1)] ok[OF GMap.prems(2)[unfolded GMap]] eq])
    with GMap norm show ?thesis by (simp del: key_norm.simps)
  qed (use json_kind_eq[OF GMap.prems(1-3)] in \<open>simp_all split: if_splits\<close>)
next
  case (GOpaque t)
  then show ?case by simp
qed

lemma json_with_key_norm: "json_with q (key_norm v) = json_with q v"
proof (induction v)
  case (GMap kvs)
  have v: "json_with q (key_norm (snd kv)) = json_with q (snd kv)" if "kv \<in> set kvs" for kv
    using GMap[of kv "snd kv"] that by (cases kv) auto
  have "map (\<lambda>(k, v). (k, json_with q v)) (sort_key fst (map (\<lambda>(k, v). (k, key_norm v)) kvs))
      = map (\<lambda>(k, v). (k, json_with q v)) (sort_key fst kvs)"
    using v by (auto simp: sort_entries[of "\<lambda>_. key_norm"])
  moreover have "sort_key fst (sort_key fst (map (\<lambda>(k, v). (k, json_with q v)) kvs))
      = sort_key fst (map (\<lambda>(k, v). (k, json_with q v)) kvs)"
    by (rule sort_key_id_if_sorted) simp
  ultimately show ?case
    by (simp add: sort_entries[of "\<lambda>_. json_with q"] del: json_with.simps)
      (simp add: sort_entries[of "\<lambda>_. json_with q"])
qed (simp_all add: comp_def cong: map_cong)

lemma CanonicalJSON_eq_iff:
  assumes "canon_ok v" "canon_ok w"
  shows "CanonicalJSON v = CanonicalJSON w \<longleftrightarrow> key_norm v = key_norm w"
proof
  assume "CanonicalJSON v = CanonicalJSON w"
  then have "json_with rfc_quote v @ [] = json_with rfc_quote w @ []"
    using assms canon_ok_json_ok by (simp add: CanonicalJSON_rfc)
  from canonical_unique[OF assms this] show "key_norm v = key_norm w" by simp
next
  assume "key_norm v = key_norm w"
  then have "json_with rfc_quote v = json_with rfc_quote w"
    using json_with_key_norm by metis
  then show "CanonicalJSON v = CanonicalJSON w"
    using assms canon_ok_json_ok by (simp add: CanonicalJSON_rfc)
qed

lemma CanonicalFingerprint_total:
  assumes "canon_ok v"
  obtains fp where "CanonicalFingerprint v = Inr fp" "length fp = 8" "list_all is_lower_hex fp"
  using assms canon_ok_json_ok[of v] sum4_shape that
  by (simp add: CanonicalFingerprint_def CanonicalJSON_rfc)

subsection \<open>Properties\<close>


text \<open>C10: Two values with UTF-8 strings have the same canonical text exactly when they are
  the same Go value, that is, equal up to the order of map entries: the text that is hashed
  never confuses two requests, and never tells one from itself.\<close>

theorem canonical_json_injective:
  assumes "canon_ok v" "canon_ok w"
  shows "CanonicalJSON v = CanonicalJSON w \<longleftrightarrow> key_norm v = key_norm w"
  using assms by (rule CanonicalJSON_eq_iff)

theorem canonical_json_injective_witness:
  "CanonicalJSON (GMap [(''b'', GInt 1), (''a'', GStr ''x'')])
     = CanonicalJSON (GMap [(''a'', GStr ''x''), (''b'', GInt 1)])
   \<and> CanonicalJSON (GList [GStr ''a'', GStr ''b'']) \<noteq> CanonicalJSON (GList [GStr ''a,b''])"
proof
  have ok: "canon_ok (GMap [(''b'', GInt 1), (''a'', GStr ''x'')])"
    "canon_ok (GMap [(''a'', GStr ''x''), (''b'', GInt 1)])"
    "canon_ok (GList [GStr ''a'', GStr ''b''])" "canon_ok (GList [GStr ''a,b''])"
    by code_simp+
  have "key_norm (GMap [(''b'', GInt 1), (''a'', GStr ''x'')]) = key_norm (GMap [(''a'', GStr ''x''), (''b'', GInt 1)])"
    by code_simp
  with canonical_json_injective[OF ok(1,2)]
  show "CanonicalJSON (GMap [(''b'', GInt 1), (''a'', GStr ''x'')])
     = CanonicalJSON (GMap [(''a'', GStr ''x''), (''b'', GInt 1)])" by simp
  show "CanonicalJSON (GList [GStr ''a'', GStr ''b'']) \<noteq> CanonicalJSON (GList [GStr ''a,b''])"
    using canonical_json_injective[OF ok(3,4)] by simp
qed

text \<open>A fingerprint is always eight lowercase hexadecimal digits, so it can be a part of
  a file name.\<close>

theorem fingerprint_shape:
  assumes "CanonicalFingerprint v = Inr fp"
  shows "length fp = 8 \<and> list_all is_lower_hex fp"
  using assms sum4_shape by (auto simp: CanonicalFingerprint_def split: sum.splits)

theorem fingerprint_shape_witness:
  "\<exists>fp. CanonicalFingerprint GNil = Inr fp \<and> length fp = 8 \<and> list_all is_lower_hex fp"
proof -
  have "CanonicalFingerprint GNil = Inr (sum4 ''null'')"
    by (simp add: CanonicalFingerprint_def CanonicalJSON_rfc)
  with fingerprint_shape[OF this] show ?thesis by blast
qed

end
