(* ===== verification/Yaml_Lib.thy ===== *)
theory Yaml_Lib
  imports Redact Canonical
begin

section \<open>The YAML library as a parameter (gopkg.in/yaml.v3)\<close>

text \<open>
  The sources read and write cassettes through a third-party YAML library. The model takes it as
  an argument, the record \<open>yaml\<close> of the entry points the sources call, and what they
  rely on is the predicate \<open>yaml_ok\<close>. The contents of a file are of a type of their own
  (\<open>'d\<close>), since only the library looks into them.

  A Go value is presented to the encoder as a \<^typ>\<open>gval\<close>: a struct is the list of its
  present fields under their \<^verbatim>\<open>yaml\<close> tags, so \<^verbatim>\<open>omitempty\<close> is
  applied by the definitions that build the value. The last section gives an instance, a
  library whose files are node trees, that satisfies the laws.
\<close>

subsection \<open>Structures decoded by tag (stream\_cassette.go)\<close>

text \<open>
  The structs \<^verbatim>\<open>wireStream\<close>, \<^verbatim>\<open>wireFrame\<close> and
  \<^verbatim>\<open>wireEvent\<close>. A pointer field is an option; a \<^verbatim>\<open>yaml.Node\<close> field
  is absent when its \<^verbatim>\<open>Kind\<close> is zero.
\<close>

record wireFrame =
  wf_Seq :: "int option"
  wf_MessageB64 :: "ynode option"
  wf_MessageText :: "ynode option"
  wf_AtMs :: "int option"

record wireEvent =
  we_Seq :: "int option"
  we_AtMs :: "int option"

record wireStream =
  ws_Type :: "string option"
  ws_Frames :: "wireFrame list"
  ws_HalfClose :: "wireEvent option"
  ws_End :: "wireEvent option"

fun g_int :: "gval \<Rightarrow> int option" where
  "g_int (GInt i) = Some i"
| "g_int _ = None"

fun g_str :: "gval \<Rightarrow> string option" where
  "g_str (GStr s) = Some s"
| "g_str _ = None"

fun g_items :: "gval \<Rightarrow> gval list" where
  "g_items (GList vs) = vs"
| "g_items _ = []"

fun g_field :: "gval \<Rightarrow> string \<Rightarrow> gval option" where
  "g_field (GMap kvs) k = map_of kvs k"
| "g_field _ k = None"

text \<open>What decoding by tag makes of an encoded struct.\<close>

definition str_node :: "gval \<Rightarrow> ynode option" where
  "str_node v = map_option (YScalar ''!!str'') (g_str v)"

definition view_event :: "gval \<Rightarrow> wireEvent" where
  "view_event g = \<lparr>we_Seq = Option.bind (g_field g ''seq'') g_int, we_AtMs = Option.bind (g_field g ''at_ms'') g_int\<rparr>"

definition view_frame :: "gval \<Rightarrow> wireFrame" where
  "view_frame g =
     \<lparr>wf_Seq = Option.bind (g_field g ''seq'') g_int,
      wf_MessageB64 = Option.bind (g_field g ''message_b64'') str_node,
      wf_MessageText = Option.bind (g_field g ''message_text'') str_node,
      wf_AtMs = Option.bind (g_field g ''at_ms'') g_int\<rparr>"

definition view_stream :: "gval \<Rightarrow> wireStream" where
  "view_stream g =
     \<lparr>ws_Type = Option.bind (g_field g ''type'') g_str,
      ws_Frames = map view_frame (case g_field g ''frames'' of None \<Rightarrow> [] | Some v \<Rightarrow> g_items v),
      ws_HalfClose = map_option view_event (g_field g ''half_close''),
      ws_End = map_option view_event (g_field g ''end'')\<rparr>"

text \<open>Values whose fields have the types the structs give them; integers fit 64 bits.\<close>

definition in_int64 :: "int \<Rightarrow> bool" where
  "in_int64 i \<longleftrightarrow> - (2 ^ 63) \<le> i \<and> i < 2 ^ 63"

definition is_int64 :: "gval \<Rightarrow> bool" where
  "is_int64 v = (case g_int v of None \<Rightarrow> False | Some i \<Rightarrow> in_int64 i)"

definition is_str :: "gval \<Rightarrow> bool" where
  "is_str v \<longleftrightarrow> g_str v \<noteq> None"

fun fields_typed :: "(string \<times> (gval \<Rightarrow> bool)) list \<Rightarrow> gval \<Rightarrow> bool" where
  "fields_typed ts (GMap kvs) =
     list_all (\<lambda>(k, v). case map_of ts k of None \<Rightarrow> False | Some t \<Rightarrow> t v) kvs"
| "fields_typed ts _ = False"

definition event_typed :: "gval \<Rightarrow> bool" where
  "event_typed = fields_typed [(''seq'', is_int64), (''at_ms'', is_int64)]"

definition frame_typed :: "gval \<Rightarrow> bool" where
  "frame_typed = fields_typed
     [(''seq'', is_int64), (''message_b64'', is_str), (''message_text'', is_str), (''at_ms'', is_int64)]"

definition stream_typed :: "gval \<Rightarrow> bool" where
  "stream_typed = fields_typed
     [(''type'', is_str), (''frames'', \<lambda>v. case v of GList vs \<Rightarrow> list_all frame_typed vs | _ \<Rightarrow> False),
      (''half_close'', event_typed), (''end'', event_typed)]"

subsection \<open>Entry points\<close>

text \<open>
  \<open>y_encode\<close> is \<^verbatim>\<open>Node.Encode\<close>; \<open>y_marshal\<close> is
  \<^verbatim>\<open>yaml.Marshal\<close> of a node (marshalling a value is encoding it and marshalling
  the tree); \<open>y_unmarshal\<close> is \<^verbatim>\<open>yaml.Unmarshal\<close> into a
  \<^verbatim>\<open>map[string]yaml.Node\<close>; \<open>y_map\<close>, \<open>y_str\<close> and
  \<open>y_wire\<close> are \<^verbatim>\<open>Node.Decode\<close> into a
  \<^verbatim>\<open>map[string]any\<close> (\<^const>\<open>None\<close> for a nil map), a string and a
  \<^verbatim>\<open>wireStream\<close>.
\<close>

record 'd yaml =
  y_encode :: "gval \<Rightarrow> ynode res"
  y_marshal :: "ynode \<Rightarrow> 'd res"
  y_unmarshal :: "'d \<Rightarrow> (string \<Rightarrow> ynode option) res"
  y_map :: "ynode \<Rightarrow> (string \<times> gval) list option res"
  y_str :: "ynode \<Rightarrow> string res"
  y_wire :: "ynode \<Rightarrow> wireStream res"

fun is_mapping :: "ynode \<Rightarrow> bool" where
  "is_mapping (YMapping ps) = True"
| "is_mapping _ = False"

fun node_lookup :: "ynode \<Rightarrow> string \<Rightarrow> ynode option" where
  "node_lookup (YMapping ps) k = map_of (map (\<lambda>(x, v). (node_value x, v)) ps) k"
| "node_lookup _ k = None"

text \<open>
  Trees the library produces from values: resolved tags, string keys, no key twice, no aliases.
  Values it can write: UTF-8 strings, distinct keys, nothing opaque.
\<close>

fun is_str_scalar :: "ynode \<Rightarrow> bool" where
  "is_str_scalar (YScalar tag v) \<longleftrightarrow> tag = ''!!str''"
| "is_str_scalar _ = False"

fun settled :: "ynode \<Rightarrow> bool" where
  "settled (YMapping ps) \<longleftrightarrow> distinct (map (\<lambda>(k, v). node_value k) ps)
     \<and> list_all (\<lambda>(k, v). is_str_scalar k \<and> settled v) ps"
| "settled (YSequence cs) = list_all settled cs"
| "settled (YScalar tag v) \<longleftrightarrow> tag \<noteq> []"
| "settled _ = False"

fun plain :: "gval \<Rightarrow> bool" where
  "plain (GStr s) = utf8_valid s"
| "plain (GList vs) = list_all plain vs"
| "plain (GMap kvs) \<longleftrightarrow> distinct (map fst kvs) \<and> list_all (\<lambda>(k, v). utf8_valid k \<and> plain v) kvs"
| "plain (GOpaque t) = False"
| "plain _ = True"

subsection \<open>Laws\<close>

text \<open>Encoding: it succeeds on plain values, a string is a string scalar, and a mapping has
  the encodings of the fields under their names.\<close>

definition yaml_encode_ok :: "'d yaml \<Rightarrow> bool" where
  "yaml_encode_ok Y \<longleftrightarrow>
     (\<forall>g. plain g \<longrightarrow> (\<exists>n. y_encode Y g = Inr n \<and> settled n))
   \<and> (\<forall>s. utf8_valid s \<longrightarrow> y_encode Y (GStr s) = Inr (YScalar ''!!str'' s))
   \<and> (\<forall>kvs n. plain (GMap kvs) \<longrightarrow> y_encode Y (GMap kvs) = Inr n \<longrightarrow>
        is_mapping n \<and> (\<forall>k. rel_option (\<lambda>v m. y_encode Y v = Inr m) (map_of kvs k) (node_lookup n k)))"

text \<open>Text: an encoded tree can be written, and a mapping that was written reads back.\<close>

definition yaml_text_ok :: "'d yaml \<Rightarrow> bool" where
  "yaml_text_ok Y \<longleftrightarrow>
     (\<forall>g n. plain g \<longrightarrow> y_encode Y g = Inr n \<longrightarrow> (\<exists>d. y_marshal Y n = Inr d))
   \<and> (\<forall>n d. settled n \<longrightarrow> is_mapping n \<longrightarrow> y_marshal Y n = Inr d \<longrightarrow> y_unmarshal Y d = Inr (node_lookup n))"

text \<open>Decoding: strings, string-keyed maps (a Go map has no order) and tagged structs.\<close>

definition yaml_decode_ok :: "'d yaml \<Rightarrow> bool" where
  "yaml_decode_ok Y \<longleftrightarrow>
     (\<forall>s. y_str Y (YScalar ''!!str'' s) = Inr s)
   \<and> (\<forall>kvs n. plain (GMap kvs) \<longrightarrow> y_encode Y (GMap kvs) = Inr n \<longrightarrow>
        (\<exists>lvs. y_map Y n = Inr (Some lvs) \<and> key_norm (GMap lvs) = key_norm (GMap kvs)))
   \<and> (\<forall>g n. plain g \<longrightarrow> stream_typed g \<longrightarrow> y_encode Y g = Inr n \<longrightarrow> y_wire Y n = Inr (view_stream g))"

definition yaml_ok :: "'d yaml \<Rightarrow> bool" where
  "yaml_ok Y \<longleftrightarrow> yaml_encode_ok Y \<and> yaml_text_ok Y \<and> yaml_decode_ok Y"

lemma encode_plain:
  assumes "yaml_ok Y" "plain g"
  obtains n where "y_encode Y g = Inr n" "settled n"
  using assms unfolding yaml_ok_def yaml_encode_ok_def by blast

lemma encode_settled: "yaml_ok Y \<Longrightarrow> plain g \<Longrightarrow> y_encode Y g = Inr n \<Longrightarrow> settled n"
  by (metis encode_plain sum.inject(2))

lemma encode_str: "yaml_ok Y \<Longrightarrow> utf8_valid s \<Longrightarrow> y_encode Y (GStr s) = Inr (YScalar ''!!str'' s)"
  unfolding yaml_ok_def yaml_encode_ok_def by blast

lemma encode_map:
  assumes "yaml_ok Y" "plain (GMap kvs)" "y_encode Y (GMap kvs) = Inr n"
  shows "is_mapping n" "rel_option (\<lambda>v m. y_encode Y v = Inr m) (map_of kvs k) (node_lookup n k)"
  using assms unfolding yaml_ok_def yaml_encode_ok_def by blast+

lemma marshal_encoded:
  assumes "yaml_ok Y" "plain g" "y_encode Y g = Inr n"
  obtains d where "y_marshal Y n = Inr d"
  using assms unfolding yaml_ok_def yaml_text_ok_def by blast

lemma unmarshal_marshal:
  "yaml_ok Y \<Longrightarrow> settled n \<Longrightarrow> is_mapping n \<Longrightarrow> y_marshal Y n = Inr d \<Longrightarrow> y_unmarshal Y d = Inr (node_lookup n)"
  unfolding yaml_ok_def yaml_text_ok_def by blast

lemma decode_str: "yaml_ok Y \<Longrightarrow> y_str Y (YScalar ''!!str'' s) = Inr s"
  unfolding yaml_ok_def yaml_decode_ok_def by blast

lemma decode_map:
  assumes "yaml_ok Y" "plain (GMap kvs)" "y_encode Y (GMap kvs) = Inr n"
  obtains lvs where "y_map Y n = Inr (Some lvs)" "key_norm (GMap lvs) = key_norm (GMap kvs)"
  using assms unfolding yaml_ok_def yaml_decode_ok_def by blast

lemma decode_wire:
  "yaml_ok Y \<Longrightarrow> plain g \<Longrightarrow> stream_typed g \<Longrightarrow> y_encode Y g = Inr n \<Longrightarrow> y_wire Y n = Inr (view_stream g)"
  unfolding yaml_ok_def yaml_decode_ok_def by blast

subsection \<open>Redaction and the laws\<close>

lemma settled_redact_walk: "settled n \<Longrightarrow> settled (redact_walk r key n)"
proof (induction r key n rule: redact_walk.induct)
  case (2 r key kvs)
  have "map (\<lambda>(k, v). node_value k) (map (\<lambda>(k, v). (k, if isEnvelopeMetaKey key (node_value k) then v
      else redact_walk r (node_value k) v)) kvs) = map (\<lambda>(k, v). node_value k) kvs"
    by auto
  moreover have "list_all (\<lambda>(k, v). is_str_scalar k \<and> settled v) (map (\<lambda>(k, v). (k,
      if isEnvelopeMetaKey key (node_value k) then v else redact_walk r (node_value k) v)) kvs)"
    using 2 by (auto simp: list_all_iff)
  ultimately show ?case
    using 2(2) by (simp only: redact_walk.simps settled.simps)
next
  case (4 r key tag v)
  then show ?case by (auto simp: redactScalar_def split: prod.split)
qed (auto simp: list_all_iff)

lemma settled_redactNode: "settled n \<Longrightarrow> settled (redactNode n r key)"
  by (simp add: redactNode_def settled_redact_walk)

lemma is_mapping_redactNode: "is_mapping n \<Longrightarrow> is_mapping (redactNode n r key)"
  by (cases n) (simp_all add: redactNode_def)

lemma node_lookup_redactNode:
  assumes "is_mapping n"
  shows "node_lookup (redactNode n r []) k =
    (if k \<in> set envelopeMetaKeys then node_lookup n k else map_option (\<lambda>m. redactNode m r k) (node_lookup n k))"
proof -
  obtain ps where n: "n = YMapping ps" using assms by (cases n) auto
  show ?thesis
    unfolding n by (induction ps) (auto simp: redactNode_def isEnvelopeMetaKey_def)
qed

subsection \<open>A library that satisfies the laws\<close>

fun tree_encode :: "gval \<Rightarrow> ynode" where
  "tree_encode GNil = YScalar ''!!null'' ''null''"
| "tree_encode (GBool b) = YScalar ''!!bool'' (if b then ''true'' else ''false'')"
| "tree_encode (GInt i) = YScalar ''!!int'' (show_int i)"
| "tree_encode (GStr s) = YScalar ''!!str'' s"
| "tree_encode (GList vs) = YSequence (map tree_encode vs)"
| "tree_encode (GMap kvs) = YMapping (map (\<lambda>(k, v). (YScalar ''!!str'' k, tree_encode v)) kvs)"
| "tree_encode (GOpaque t) = YAlias"

definition read_int :: "string \<Rightarrow> int" where
  "read_int s = (case s of c # r \<Rightarrow> if c = CHR ''-'' then - int (read_nat r) else int (read_nat s) | [] \<Rightarrow> 0)"

fun tree_decode :: "ynode \<Rightarrow> gval" where
  "tree_decode (YScalar tag v) =
     (if tag = ''!!null'' then GNil
      else if tag = ''!!bool'' then GBool (v = ''true'')
      else if tag = ''!!int'' then GInt (read_int v)
      else GStr v)"
| "tree_decode (YSequence cs) = GList (map tree_decode cs)"
| "tree_decode (YMapping ps) = GMap (map (\<lambda>(k, v). (node_value k, tree_decode v)) ps)"
| "tree_decode _ = GNil"

definition tree_yaml :: "ynode yaml" where
  "tree_yaml =
     \<lparr>y_encode = \<lambda>g. if json_ok g then Inr (tree_encode g) else Inl (ErrNew ''yaml: cannot marshal type''),
      y_marshal = Inr,
      y_unmarshal = \<lambda>d. Inr (node_lookup d),
      y_map = \<lambda>n. (case tree_decode n of GMap kvs \<Rightarrow> Inr (Some kvs) | GNil \<Rightarrow> Inr None
                 | _ \<Rightarrow> Inl (ErrNew ''yaml: unmarshal errors'')),
      y_str = \<lambda>n. Inr (node_value n),
      y_wire = \<lambda>n. Inr (view_stream (tree_decode n))\<rparr>"

lemma read_show_int: "read_int (show_int i) = i"
proof (cases i rule: show_int_cases)
  case (nonneg n)
  then obtain c r where c: "show_nat n = c # r" by (cases "show_nat n") auto
  then have "c \<noteq> CHR ''-''"
    using show_nat_digits[of n] by (auto simp: is_digit_def)
  moreover have "read_nat (c # r) = n" using c read_show_nat[of n] by simp
  ultimately show ?thesis using nonneg c by (simp add: read_int_def)
qed (simp add: read_int_def)

lemma plain_json_ok: "plain g \<Longrightarrow> json_ok g"
  by (induction g) (auto simp: list_all_iff)

lemma tree_decode_encode: "plain g \<Longrightarrow> tree_decode (tree_encode g) = g"
proof (induction g)
  case (GMap kvs)
  then have "\<And>kv. kv \<in> set kvs \<Longrightarrow> tree_decode (tree_encode (snd kv)) = snd kv"
    by (auto simp: list_all_iff)
  then show ?case by (auto simp: case_prod_unfold comp_def map_idI)
qed (auto simp: read_show_int list_all_iff comp_def map_idI)

lemma settled_tree_encode: "plain g \<Longrightarrow> settled (tree_encode g)"
proof (induction g)
  case (GMap kvs)
  then show ?case by (auto simp: list_all_iff case_prod_unfold comp_def)
qed (auto simp: list_all_iff)

lemma tree_lookup: "node_lookup (tree_encode (GMap kvs)) k = map_option tree_encode (map_of kvs k)"
  by (induction kvs) auto

lemma tree_yaml_ok: "yaml_ok tree_yaml"
proof -
  have sub: "json_ok v" if "plain (GMap kvs)" "map_of kvs k = Some v" for kvs k v
    using that by (auto simp: list_all_iff dest!: map_of_SomeD intro: plain_json_ok)
  have "yaml_encode_ok tree_yaml"
    unfolding yaml_encode_ok_def
  proof (intro conjI allI impI)
    show "rel_option (\<lambda>v m. y_encode tree_yaml v = Inr m) (map_of kvs k) (node_lookup n k)"
      if "plain (GMap kvs)" "y_encode tree_yaml (GMap kvs) = Inr n" for kvs n k
    proof -
      have "n = tree_encode (GMap kvs)"
        using that(2) by (simp add: tree_yaml_def split: if_splits)
      then show ?thesis
        using sub[OF that(1), of k] tree_lookup[of kvs k]
        by (cases "map_of kvs k") (simp_all add: tree_yaml_def)
    qed
  qed (auto simp: tree_yaml_def plain_json_ok settled_tree_encode split: if_splits)
  moreover have "yaml_text_ok tree_yaml"
    by (simp add: yaml_text_ok_def tree_yaml_def)
  moreover have "yaml_decode_ok tree_yaml"
    unfolding yaml_decode_ok_def
    by (auto simp: tree_yaml_def tree_decode_encode split: if_splits
        simp del: tree_encode.simps tree_decode.simps plain.simps key_norm.simps)
  ultimately show ?thesis by (simp add: yaml_ok_def)
qed

end
