(* ===== verification/Go_Path.thy ===== *)
theory Go_Path
  imports Xrr_Prelude
begin

section \<open>File paths (package path/filepath on Unix)\<close>

text \<open>
  \<^verbatim>\<open>filepath.Clean\<close> and \<^verbatim>\<open>filepath.Join\<close>, which every cassette
  path goes through, and the fact the cassette store needs: joining a directory with two
  different plain file names gives two different paths.
\<close>

abbreviation slash :: char where "slash \<equiv> CHR ''/''"

text \<open>One component of a path against the components kept so far, innermost first.\<close>

definition clean_step :: "bool \<Rightarrow> string list \<Rightarrow> string \<Rightarrow> string list" where
  "clean_step rooted st c =
     (if c = [] \<or> c = ''.'' then st
      else if c = ''..'' then
        (case st of
           [] \<Rightarrow> if rooted then [] else [''..'']
         | t # r \<Rightarrow> if t = ''..'' then ''..'' # st else r)
      else c # st)"

definition path_Clean :: "string \<Rightarrow> string" where
  "path_Clean p =
     (if p = [] then ''.''
      else let rooted = (hd p = slash);
               st = rev (foldl (clean_step rooted) [] (split_on slash p))
           in if rooted then ''/'' @ join_with ''/'' st
              else if st = [] then ''.'' else join_with ''/'' st)"

definition path_Join :: "string \<Rightarrow> string \<Rightarrow> string" where
  "path_Join dir name =
     (if dir \<noteq> [] then path_Clean (dir @ ''/'' @ name)
      else if name \<noteq> [] then path_Clean name else [])"

text \<open>A name that stays the last component of any path it is joined to.\<close>

definition plain_name :: "string \<Rightarrow> bool" where
  "plain_name n \<longleftrightarrow> slash \<notin> set n \<and> n \<noteq> [] \<and> n \<noteq> ''.'' \<and> n \<noteq> ''..''"

lemma split_on_plain: "c \<notin> set s \<Longrightarrow> split_on c s = [s]"
  by (induction s) auto

lemma split_on_append: "split_on c (a @ c # b) = split_on c a @ split_on c b"
proof (induction a)
  case (Cons x a)
  show ?case
  proof (cases "x = c")
    case False
    obtain w ws where "split_on c a = w # ws" by (cases "split_on c a") auto
    with Cons False show ?thesis by simp
  qed (use Cons in simp)
qed simp

lemma join_with_snoc: "join_with sep (xs @ [n]) = (if xs = [] then n else join_with sep xs @ sep @ n)"
proof (induction xs)
  case (Cons x xs)
  then show ?case by (cases xs) auto
qed simp

lemma foldl_clean_snoc:
  "plain_name n \<Longrightarrow> foldl (clean_step r) [] (split_on slash (a @ slash # n)) = n # foldl (clean_step r) [] (split_on slash a)"
  by (simp add: split_on_append split_on_plain plain_name_def clean_step_def)

lemma path_Join_plain: "\<exists>base. \<forall>n. plain_name n \<longrightarrow> path_Join dir n = base @ n"
proof (cases "dir = []")
  case True
  have "path_Join dir n = n" if "plain_name n" for n
  proof -
    have "hd n \<noteq> slash" using that by (cases n) (auto simp: plain_name_def)
    with that True show ?thesis
      by (simp add: path_Join_def path_Clean_def plain_name_def split_on_plain clean_step_def)
  qed
  then show ?thesis by (intro exI[of _ "[]"]) simp
next
  case False
  define st where "st = rev (foldl (clean_step (hd dir = slash)) [] (split_on slash dir))"
  define base where "base = (if hd dir = slash then ''/'' else []) @ (if st = [] then [] else join_with ''/'' st @ ''/'')"
  have "path_Join dir n = base @ n" if n: "plain_name n" for n
  proof -
    show ?thesis
      using False foldl_clean_snoc[OF n]
      by (cases "hd dir = slash")
        (simp_all add: path_Join_def path_Clean_def Let_def hd_append base_def st_def join_with_snoc)
  qed
  then show ?thesis by blast
qed

lemma path_Join_inj:
  "plain_name m \<Longrightarrow> plain_name n \<Longrightarrow> path_Join dir m = path_Join dir n \<longleftrightarrow> m = n"
  using path_Join_plain[of dir] by auto

end
