(* ===== verification/Cassette.thy ===== *)
theory Cassette
  imports Yaml_Lib Go_Path
begin

section \<open>The file cassette (cassette.go)\<close>

text \<open>
  The state outside the program that a cassette reads and writes, the operations of
  \<^verbatim>\<open>FileCassette\<close> on unary interactions, and the interface locale of a keyed
  store that the session relies on, interpreted on them.
\<close>

subsection \<open>The outside world\<close>

text \<open>
  The library and tables the process is linked with, its environment and clock, and the files
  it sees. \<open>w_read_fault\<close> and \<open>w_write_fault\<close> are the paths on which the
  operating system fails; a failed write reports an error and leaves whatever contents it
  names.
\<close>

record 'd world =
  w_yaml :: "'d yaml"
  w_unicode :: unicode
  w_getenv :: "string \<Rightarrow> string"
  w_now :: string
  w_files :: "string \<Rightarrow> 'd option"
  w_read_fault :: "string \<Rightarrow> goerr option"
  w_write_fault :: "string \<Rightarrow> (goerr \<times> 'd option) option"

definition os_ReadFile :: "string \<Rightarrow> 'd world \<Rightarrow> 'd res" where
  "os_ReadFile path w =
     (case w_read_fault w path of
        Some e \<Rightarrow> Inl e
      | None \<Rightarrow> (case w_files w path of
            None \<Rightarrow> Inl (ErrNotExist (''open '' @ path @ '': no such file or directory''))
          | Some d \<Rightarrow> Inr d))"

definition os_WriteFile :: "string \<Rightarrow> 'd \<Rightarrow> 'd world \<Rightarrow> goerr option \<times> 'd world" where
  "os_WriteFile path d w =
     (case w_write_fault w path of
        Some (e, left) \<Rightarrow> (Some e, w\<lparr>w_files := (w_files w)(path := left)\<rparr>)
      | None \<Rightarrow> (None, w\<lparr>w_files := (w_files w)(path \<mapsto> d)\<rparr>))"

text \<open>\<^verbatim>\<open>os.IsNotExist\<close>.\<close>

fun os_IsNotExist :: "goerr \<Rightarrow> bool" where
  "os_IsNotExist (ErrNotExist s) = True"
| "os_IsNotExist _ = False"

subsection \<open>FileCassette\<close>

record envelope =
  XRR :: string
  Adapter :: string
  Fingerprint :: string
  RecordedAt :: string
  Error :: string
  Payload :: gval

text \<open>The fields of an envelope under their tags; \<^verbatim>\<open>error\<close> is \<^verbatim>\<open>omitempty\<close>.\<close>

definition envelope_fields :: "envelope \<Rightarrow> gval" where
  "envelope_fields env = GMap
     ([(''xrr'', GStr (XRR env)), (''adapter'', GStr (Adapter env)),
       (''fingerprint'', GStr (Fingerprint env)), (''recorded_at'', GStr (RecordedAt env))]
      @ (if Error env = [] then [] else [(''error'', GStr (Error env))])
      @ [(''payload'', Payload env)])"

record FileCassette =
  fc_dir :: string
  fc_redactor :: "redactor option"

definition NewFileCassette :: "string \<Rightarrow> FileCassette" where
  "NewFileCassette dir = \<lparr>fc_dir = dir, fc_redactor = None\<rparr>"

definition NewFileCassetteWithRedactor :: "string \<Rightarrow> redactor option \<Rightarrow> FileCassette" where
  "NewFileCassetteWithRedactor dir r = \<lparr>fc_dir = dir, fc_redactor = r\<rparr>"

definition activeRedactor :: "FileCassette \<Rightarrow> 'd world \<Rightarrow> redactor" where
  "activeRedactor c w =
     (case fc_redactor c of
        Some r \<Rightarrow> r
      | None \<Rightarrow> NewRedactor (w_unicode w) (RedactConfigFromEnv (w_unicode w) (w_getenv w)))"

text \<open>A nil payload is \<^const>\<open>None\<close>.\<close>

definition normalizePayload :: "gval option \<Rightarrow> gval" where
  "normalizePayload v = (case v of None \<Rightarrow> GMap [] | Some g \<Rightarrow> g)"

definition cassette_path :: "FileCassette \<Rightarrow> string \<Rightarrow> string \<Rightarrow> string \<Rightarrow> string" where
  "cassette_path c adapterID fingerprint kind =
     path_Join (fc_dir c) (adapterID @ ''-'' @ fingerprint @ ''.'' @ kind @ ''.yaml'')"

definition fc_write ::
  "FileCassette \<Rightarrow> string \<Rightarrow> string \<Rightarrow> string \<Rightarrow> string \<Rightarrow> string \<Rightarrow> gval \<Rightarrow> 'd world \<Rightarrow> goerr option \<times> 'd world" where
  "fc_write c adapterID fingerprint kind recordedAt recordedErr payload w =
     (let env = \<lparr>XRR = ''1'', Adapter = adapterID, Fingerprint = fingerprint,
                 RecordedAt = recordedAt, Error = recordedErr, Payload = payload\<rparr>
      in case y_encode (w_yaml w) (envelope_fields env) of
        Inl e \<Rightarrow> (Some (ErrWrap (''xrr: encode '' @ kind) e), w)
      | Inr node \<Rightarrow>
          (case y_marshal (w_yaml w) (redactNode node (activeRedactor c w) []) of
             Inl e \<Rightarrow> (Some (ErrWrap (''xrr: marshal '' @ kind) e), w)
           | Inr data \<Rightarrow> os_WriteFile (cassette_path c adapterID fingerprint kind) data w))"

definition Save ::
  "FileCassette \<Rightarrow> string \<Rightarrow> string \<Rightarrow> gval option \<Rightarrow> gval option \<Rightarrow> goerr option \<Rightarrow> 'd world \<Rightarrow> goerr option \<times> 'd world" where
  "Save c adapterID fingerprint req resp recordedErr w =
     (let now = w_now w in
      case fc_write c adapterID fingerprint ''req'' now [] (normalizePayload req) w of
        (Some e, w1) \<Rightarrow> (Some e, w1)
      | (None, w1) \<Rightarrow>
          let respErr = (case recordedErr of None \<Rightarrow> [] | Some e \<Rightarrow> err_text e)
          in fc_write c adapterID fingerprint ''resp'' now respErr (normalizePayload resp) w1)"

text \<open>The target of a read determines how the payload node is decoded (\<open>dec\<close>); the result
  is the decoded payload and the recorded error text.\<close>

definition fc_read_as ::
  "(ynode \<Rightarrow> 'a res) \<Rightarrow> FileCassette \<Rightarrow> string \<Rightarrow> string \<Rightarrow> string \<Rightarrow> 'd world \<Rightarrow> ('a \<times> string) res" where
  "fc_read_as dec c adapterID fingerprint kind w =
     (case os_ReadFile (cassette_path c adapterID fingerprint kind) w of
        Inl e \<Rightarrow> Inl (if os_IsNotExist e then ErrCassetteMiss else ErrWrap (''xrr: read '' @ kind) e)
      | Inr data \<Rightarrow>
          (case y_unmarshal (w_yaml w) data of
             Inl e \<Rightarrow> Inl (ErrWrap (''xrr: unmarshal envelope '' @ kind) e)
           | Inr raw \<Rightarrow>
               if raw ''stream'' \<noteq> None
               then Inl (ErrWrap (''xrr: streamed cassette in unary code path ('' @ kind @ '')'') ErrShapeMismatch)
               else (case raw ''payload'' of
                   None \<Rightarrow> Inl (ErrNew (''xrr: missing payload in '' @ kind))
                 | Some payloadNode \<Rightarrow>
                     (case dec payloadNode of
                        Inl e \<Rightarrow> Inl (ErrWrap (''xrr: decode payload '' @ kind) e)
                      | Inr target \<Rightarrow>
                          Inr (target,
                            case raw ''error'' of
                              None \<Rightarrow> []
                            | Some errNode \<Rightarrow> (case y_str (w_yaml w) errNode of Inl _ \<Rightarrow> [] | Inr s \<Rightarrow> s))))))"

text \<open>The result: the request payload, the response payload and the recorded error text.\<close>

definition Load_as ::
  "(ynode \<Rightarrow> 'a res) \<Rightarrow> (ynode \<Rightarrow> 'b res) \<Rightarrow> FileCassette \<Rightarrow> string \<Rightarrow> string \<Rightarrow> 'd world \<Rightarrow> ('a \<times> 'b \<times> string) res" where
  "Load_as decq decp c adapterID fingerprint w =
     (case fc_read_as decq c adapterID fingerprint ''req'' w of
        Inl e \<Rightarrow> Inl e
      | Inr (reqTarget, _) \<Rightarrow>
          (case fc_read_as decp c adapterID fingerprint ''resp'' w of
             Inl e \<Rightarrow> Inl e
           | Inr (respTarget, recordedErr) \<Rightarrow> Inr (reqTarget, respTarget, recordedErr)))"

text \<open>Sessions read into targets of type \<^verbatim>\<open>map[string]any\<close>.\<close>

definition fc_read ::
  "FileCassette \<Rightarrow> string \<Rightarrow> string \<Rightarrow> string \<Rightarrow> 'd world \<Rightarrow> ((string \<times> gval) list option \<times> string) res" where
  "fc_read c adapterID fingerprint kind w = fc_read_as (y_map (w_yaml w)) c adapterID fingerprint kind w"

definition Load ::
  "FileCassette \<Rightarrow> string \<Rightarrow> string \<Rightarrow> 'd world
   \<Rightarrow> ((string \<times> gval) list option \<times> (string \<times> gval) list option \<times> string) res" where
  "Load c adapterID fingerprint w = Load_as (y_map (w_yaml w)) (y_map (w_yaml w)) c adapterID fingerprint w"

subsection \<open>Keys and paths\<close>

text \<open>Adapter ids are single path components; a fingerprint is eight hexadecimal digits.\<close>

definition key_ok :: "string \<times> string \<Rightarrow> bool" where
  "key_ok = (\<lambda>(a, fp). slash \<notin> set a \<and> utf8_valid a \<and> length fp = 8 \<and> list_all is_lower_hex fp)"

lemma hex_ascii: "list_all is_lower_hex fp \<Longrightarrow> is_ascii fp \<and> slash \<notin> set fp"
proof -
  have "\<forall>c \<in> set hex_digits. (of_char c :: nat) < 128 \<and> c \<noteq> slash"
    by (simp add: hex_digits_def)
  moreover assume "list_all is_lower_hex fp"
  ultimately show ?thesis
    unfolding list_all_iff is_lower_hex_def is_ascii_def by blast
qed

lemma key_ok_utf8: "key_ok (a, fp) \<Longrightarrow> utf8_valid a \<and> utf8_valid fp"
  by (auto simp: key_ok_def hex_ascii is_ascii_utf8_valid)

abbreviation kinds :: "string set" where "kinds \<equiv> {''req'', ''resp''}"

lemma cassette_name_plain:
  "key_ok (a, fp) \<Longrightarrow> kind \<in> kinds \<Longrightarrow> plain_name (a @ ''-'' @ fp @ ''.'' @ kind @ ''.yaml'')"
proof -
  assume a: "key_ok (a, fp)" and k: "kind \<in> kinds"
  have "slash \<notin> set kind" using k by auto
  moreover have "slash \<notin> set a" "slash \<notin> set fp"
    using a hex_ascii[of fp] by (simp_all add: key_ok_def)
  moreover have "8 \<le> length (a @ ''-'' @ fp @ ''.'' @ kind @ ''.yaml'')"
    using a by (simp add: key_ok_def)
  ultimately show ?thesis by (auto simp: plain_name_def simp del: append_assoc)
qed

lemma cassette_name_inj:
  assumes "length fp = 8" "length fq = 8" "kind \<in> kinds" "kind' \<in> kinds"
    and eq: "a @ ''-'' @ fp @ ''.'' @ kind @ ''.yaml'' = b @ ''-'' @ fq @ ''.'' @ kind' @ ''.yaml''"
  shows "a = b \<and> fp = fq \<and> kind = kind'"
proof -
  have k: "kind = kind'"
  proof (rule ccontr)
    assume "kind \<noteq> kind'"
    then have "\<exists>x y. x @ ''.req.yaml'' = (y :: string) @ ''resp.yaml''"
      using eq assms(3,4) by (auto intro: sym)
    then show False by (auto simp: append_eq_append_conv)
  qed
  have "(a @ ''-'') @ fp = (b @ ''-'') @ fq" using eq k by simp
  then show ?thesis using k assms(1,2) by simp
qed

lemma cassette_path_inj:
  assumes "key_ok (a, fp)" "key_ok (b, fq)" "kind \<in> kinds" "kind' \<in> kinds"
  shows "cassette_path c a fp kind = cassette_path c b fq kind' \<longleftrightarrow> a = b \<and> fp = fq \<and> kind = kind'"
  using assms cassette_name_inj[of fp fq kind kind' a b] path_Join_inj cassette_name_plain
  unfolding cassette_path_def by (auto simp: key_ok_def)

subsection \<open>Reading what was written\<close>

text \<open>The outside world behaves: the library keeps its laws and the clock prints UTF-8.\<close>

definition world_ok :: "'d world \<Rightarrow> bool" where
  "world_ok w \<longleftrightarrow> yaml_ok (w_yaml w) \<and> utf8_valid (w_now w)"

text \<open>Two worlds that differ at most in their files.\<close>

definition same_but_files :: "'d world \<Rightarrow> 'd world \<Rightarrow> bool" where
  "same_but_files w w' \<longleftrightarrow> w' = w\<lparr>w_files := w_files w'\<rparr>"

lemma same_but_files_refl [simp]: "same_but_files w w"
  by (simp add: same_but_files_def)

lemma same_but_files_trans: "same_but_files w w1 \<Longrightarrow> same_but_files w1 w2 \<Longrightarrow> same_but_files w w2"
  unfolding same_but_files_def by (metis world.fold_congs(5) world.surjective world.update_convs(5))

lemma same_but_files_fields:
  assumes "same_but_files w w'"
  shows "w_yaml w' = w_yaml w" "w_now w' = w_now w" "w_unicode w' = w_unicode w" "w_getenv w' = w_getenv w"
    "w_read_fault w' = w_read_fault w" "w_write_fault w' = w_write_fault w"
    "activeRedactor c w' = activeRedactor c w" "world_ok w' = world_ok w"
proof -
  obtain X where "w' = w\<lparr>w_files := X\<rparr>" using assms by (auto simp: same_but_files_def)
  then show "w_yaml w' = w_yaml w" "w_now w' = w_now w" "w_unicode w' = w_unicode w" "w_getenv w' = w_getenv w"
    "w_read_fault w' = w_read_fault w" "w_write_fault w' = w_write_fault w"
    "activeRedactor c w' = activeRedactor c w" "world_ok w' = world_ok w"
    by (simp_all add: activeRedactor_def world_ok_def split: option.split)
qed

lemma os_WriteFile_other:
  assumes "os_WriteFile path d w = (e, w')"
  shows "same_but_files w w'" "p \<noteq> path \<Longrightarrow> w_files w' p = w_files w p"
  using assms by (auto simp: os_WriteFile_def same_but_files_def split: option.splits)

lemma os_WriteFile_ok: "os_WriteFile path d w = (None, w') \<Longrightarrow> w_files w' path = Some d"
  by (auto simp: os_WriteFile_def split: option.splits)

lemma fc_write_other:
  assumes "fc_write c a fp kind t re g w = (e, w')"
  shows "same_but_files w w'" "p \<noteq> cassette_path c a fp kind \<Longrightarrow> w_files w' p = w_files w p"
proof -
  have "w' = w \<or> (\<exists>d. os_WriteFile (cassette_path c a fp kind) d w = (e, w'))"
    using assms by (auto simp: fc_write_def Let_def split: sum.splits)
  then show "same_but_files w w'" "p \<noteq> cassette_path c a fp kind \<Longrightarrow> w_files w' p = w_files w p"
    by (auto dest: os_WriteFile_other)
qed

text \<open>A read depends on nothing but the file and the library.\<close>

lemma fc_read_cong:
  assumes "same_but_files w w'" "w_files w' (cassette_path c a fp kind) = w_files w (cassette_path c a fp kind)"
  shows "fc_read_as dec c a fp kind w' = fc_read_as dec c a fp kind w"
  unfolding fc_read_as_def os_ReadFile_def assms(2) same_but_files_fields(1,5)[OF assms(1)] by (rule refl)

text \<open>What a write leaves to be decoded: the redacted encoding of the payload.\<close>

definition stored_as :: "(ynode \<Rightarrow> 'a res) \<Rightarrow> 'd world \<Rightarrow> redactor \<Rightarrow> gval \<Rightarrow> 'a res" where
  "stored_as dec w r g =
     (case y_encode (w_yaml w) g of
        Inl e \<Rightarrow> Inl e
      | Inr n \<Rightarrow> dec (redactNode n r ''payload''))"

definition stored_map :: "'d world \<Rightarrow> redactor \<Rightarrow> gval \<Rightarrow> (string \<times> gval) list option res" where
  "stored_map w r g =
     (case y_encode (w_yaml w) g of
        Inl e \<Rightarrow> Inl e
      | Inr n \<Rightarrow> y_map (w_yaml w) (redactNode n r ''payload''))"

lemma fc_read_write:
  assumes w: "world_ok w" and key: "key_ok (a, fp)" and kind: "kind \<in> kinds"
    and utf8: "utf8_valid t" "utf8_valid re" "plain g"
    and wr: "fc_write c a fp kind t re g w = (None, w')"
    and rd: "w_read_fault w (cassette_path c a fp kind) = None"
  shows "fc_read_as dec c a fp kind w' =
    (case stored_as dec w (activeRedactor c w) g of
       Inl e \<Rightarrow> Inl (ErrWrap (''xrr: decode payload '' @ kind) e)
     | Inr m \<Rightarrow> Inr (m, re))"
proof -
  let ?Y = "w_yaml w" and ?r = "activeRedactor c w"
  define env where "env = \<lparr>XRR = ''1'', Adapter = a, Fingerprint = fp, RecordedAt = t, Error = re, Payload = g\<rparr>"
  have Y: "yaml_ok ?Y" using w by (simp add: world_ok_def)
  obtain kvs where kvs: "envelope_fields env = GMap kvs" "kvs = [(''xrr'', GStr ''1''), (''adapter'', GStr a),
      (''fingerprint'', GStr fp), (''recorded_at'', GStr t)] @ (if re = [] then [] else [(''error'', GStr re)])
      @ [(''payload'', g)]"
    by (simp add: envelope_fields_def env_def)
  have names: "utf8_valid s" if "list_all (\<lambda>c. (of_char c :: nat) < 128) s" for s
    using is_ascii_utf8_valid that by (simp add: is_ascii_def)
  have plain: "plain (GMap kvs)"
    using key_ok_utf8[OF key] utf8 by (auto simp: kvs(2) names)
  obtain n d where n: "y_encode ?Y (GMap kvs) = Inr n"
    and d: "y_marshal ?Y (redactNode n ?r []) = Inr d"
    and f: "os_WriteFile (cassette_path c a fp kind) d w = (None, w')"
    using wr by (auto simp: fc_write_def Let_def kvs(1) env_def[symmetric] split: sum.splits)
  have "settled n" "is_mapping n"
    using encode_settled[OF Y plain n] encode_map(1)[OF Y plain n] by simp_all
  then have raw: "y_unmarshal ?Y d = Inr (node_lookup (redactNode n ?r []))"
    using unmarshal_marshal[OF Y _ _ d] settled_redactNode is_mapping_redactNode by blast
  have look: "rel_option (\<lambda>v m. y_encode ?Y v = Inr m) (map_of kvs k) (node_lookup n k)" for k
    by (rule encode_map(2)[OF Y plain n])
  have stream: "node_lookup n ''stream'' = None"
    using look[of "''stream''"] by (simp add: kvs(2) split: if_splits)
  obtain pn where pn: "node_lookup n ''payload'' = Some pn" "y_encode ?Y g = Inr pn"
    using look[of "''payload''"] by (auto simp: kvs(2) option_rel_Some1 split: if_splits)
  have err: "(case node_lookup n ''error'' of None \<Rightarrow> [] | Some m \<Rightarrow> (case y_str ?Y m of Inl _ \<Rightarrow> [] | Inr s \<Rightarrow> s)) = re"
    using look[of "''error''"] encode_str[OF Y utf8(2)] decode_str[OF Y, of re]
    by (auto simp: kvs(2) option_rel_Some1 split: if_splits)
  have "os_ReadFile (cassette_path c a fp kind) w' = Inr d"
    using os_WriteFile_ok[OF f] same_but_files_fields(5)[OF os_WriteFile_other(1)[OF f]] rd
    by (simp add: os_ReadFile_def)
  then show ?thesis
    unfolding fc_read_as_def same_but_files_fields(1)[OF os_WriteFile_other(1)[OF f]]
    using raw \<open>is_mapping n\<close> stream pn err
    by (simp add: node_lookup_redactNode envelopeMetaKeys_def stored_as_def split: sum.splits)
qed

subsection \<open>The store as the session sees it\<close>

text \<open>
  The contract of a keyed store: what a successful save leaves to be loaded under its key, and
  that it leaves every other key alone. \<open>image\<close> is what a value looks like when it
  comes back.
\<close>

locale keyed_store =
  fixes ok :: "'k \<Rightarrow> bool"
    and vok :: "'v \<Rightarrow> bool"
    and good :: "'w \<Rightarrow> bool"
    and save :: "'k \<Rightarrow> 'v \<Rightarrow> 'w \<Rightarrow> goerr option \<times> 'w"
    and load :: "'k \<Rightarrow> 'w \<Rightarrow> 'r"
    and image :: "'k \<Rightarrow> 'v \<Rightarrow> 'w \<Rightarrow> 'r"
  assumes save_good: "good w \<Longrightarrow> good (snd (save k v w))"
    and load_save: "good w \<Longrightarrow> ok k \<Longrightarrow> vok v \<Longrightarrow> save k v w = (None, w') \<Longrightarrow> load k w' = image k v w"
    and load_save_other: "good w \<Longrightarrow> ok k \<Longrightarrow> ok l \<Longrightarrow> k \<noteq> l \<Longrightarrow> load l (snd (save k v w)) = load l w"
    and image_save: "image l u (snd (save k v w)) = image l u w"
begin

abbreviation saves :: "('k \<times> 'v) list \<Rightarrow> 'w \<Rightarrow> 'w" where
  "saves ops w \<equiv> fold (\<lambda>(k, v) w. snd (save k v w)) ops w"

lemma saves_good: "good w \<Longrightarrow> good (saves ops w)"
  by (induction ops arbitrary: w) (auto simp: save_good)

lemma saves_image: "image l u (saves ops w) = image l u w"
  by (induction ops arbitrary: w) (auto simp: image_save)

lemma load_saves_other:
  "good w \<Longrightarrow> ok l \<Longrightarrow> list_all (\<lambda>(k, v). ok k \<and> k \<noteq> l) ops \<Longrightarrow> load l (saves ops w) = load l w"
  by (induction ops arbitrary: w) (auto simp: save_good load_save_other)

text \<open>After any sequence of saves, a key holds its last save.\<close>

lemma load_last_save:
  assumes "good w" "ok k" "vok v" "fst (save k v (saves pre w)) = None"
    and "list_all (\<lambda>(l, u). ok l \<and> l \<noteq> k) post"
  shows "load k (saves (pre @ (k, v) # post) w) = image k v w"
proof -
  let ?w1 = "saves pre w"
  have g: "good ?w1" using assms(1) by (rule saves_good)
  obtain w2 where w2: "save k v ?w1 = (None, w2)"
    using assms(4) by (cases "save k v ?w1") auto
  have "load k (saves post w2) = load k w2"
    using load_saves_other[OF _ assms(2,5), of w2] save_good[OF g, of k v] w2 by simp
  also have "\<dots> = image k v ?w1"
    by (rule load_save[OF g assms(2,3) w2])
  finally show ?thesis
    using w2 by (simp add: saves_image)
qed

end

text \<open>A saved interaction and what a load gives back for it.\<close>

type_synonym interaction = "gval option \<times> gval option \<times> goerr option"

abbreviation errstr :: "goerr option \<Rightarrow> string" where
  "errstr e \<equiv> (case e of None \<Rightarrow> [] | Some x \<Rightarrow> err_text x)"

definition interaction_ok :: "interaction \<Rightarrow> bool" where
  "interaction_ok = (\<lambda>(req, resp, e). plain (normalizePayload req) \<and> plain (normalizePayload resp) \<and> utf8_valid (errstr e))"

definition loaded ::
  "FileCassette \<Rightarrow> string \<times> string \<Rightarrow> interaction \<Rightarrow> 'd world
   \<Rightarrow> ((string \<times> gval) list option \<times> (string \<times> gval) list option \<times> string) res" where
  "loaded c k = (\<lambda>(req, resp, e) w.
     (case stored_map w (activeRedactor c w) (normalizePayload req) of
        Inl er \<Rightarrow> Inl (ErrWrap ''xrr: decode payload req'' er)
      | Inr q \<Rightarrow>
          (case stored_map w (activeRedactor c w) (normalizePayload resp) of
             Inl er \<Rightarrow> Inl (ErrWrap ''xrr: decode payload resp'' er)
           | Inr p \<Rightarrow> Inr (q, p, errstr e))))"

text \<open>The store answers every read of a cassette directory that is not faulty.\<close>

definition store_ok :: "FileCassette \<Rightarrow> 'd world \<Rightarrow> bool" where
  "store_ok c w \<longleftrightarrow> world_ok w
     \<and> (\<forall>a fp kind. w_read_fault w (cassette_path c a fp kind) = None)"

definition save_key :: "FileCassette \<Rightarrow> string \<times> string \<Rightarrow> interaction \<Rightarrow> 'd world \<Rightarrow> goerr option \<times> 'd world" where
  "save_key c = (\<lambda>(a, fp) (req, resp, e). Save c a fp req resp e)"

definition load_key where
  "load_key c = (\<lambda>(a, fp). Load c a fp)"

lemma Save_other:
  assumes "Save c a fp req resp e w = (r, w')"
  shows "same_but_files w w'"
    "p \<notin> {cassette_path c a fp ''req'', cassette_path c a fp ''resp''} \<Longrightarrow> w_files w' p = w_files w p"
proof -
  obtain e1 w1 where w1: "fc_write c a fp ''req'' (w_now w) [] (normalizePayload req) w = (e1, w1)"
    by fastforce
  have "w' = w1 \<or> (\<exists>x y z. fc_write c a fp ''resp'' x y z w1 = (r, w'))"
    using assms w1 by (auto simp: Save_def Let_def split: option.splits)
  with fc_write_other[OF w1] show "same_but_files w w'"
    "p \<notin> {cassette_path c a fp ''req'', cassette_path c a fp ''resp''} \<Longrightarrow> w_files w' p = w_files w p"
    by (auto dest: fc_write_other intro: same_but_files_trans)
qed

lemma store_ok_cong: "same_but_files w w' \<Longrightarrow> store_ok c w' = store_ok c w"
  unfolding store_ok_def using same_but_files_fields(5,8)[of w w'] by simp

lemma stored_map_cong: "same_but_files w w' \<Longrightarrow> stored_map w' r g = stored_map w r g"
  unfolding stored_map_def using same_but_files_fields(1)[of w w'] by (simp cong: sum.case_cong)

lemma stored_as_cong: "same_but_files w w' \<Longrightarrow> stored_as dec w' r g = stored_as dec w r g"
  by (simp add: stored_as_def same_but_files_fields cong: sum.case_cong)

lemma Load_cong:
  assumes "same_but_files w w'"
    and "\<And>kind. kind \<in> kinds \<Longrightarrow> w_files w' (cassette_path c a fp kind) = w_files w (cassette_path c a fp kind)"
  shows "Load_as decq decp c a fp w' = Load_as decq decp c a fp w"
proof -
  have "fc_read_as decq c a fp ''req'' w' = fc_read_as decq c a fp ''req'' w"
    "fc_read_as decp c a fp ''resp'' w' = fc_read_as decp c a fp ''resp'' w"
    by (rule fc_read_cong[OF assms(1)], rule assms(2), simp)+
  then show ?thesis unfolding Load_as_def by (simp cong: sum.case_cong)
qed

lemma Load_as_Save:
  assumes w: "store_ok c w" and key: "key_ok (a, fp)" and v: "interaction_ok (req, resp, e)"
    and sv: "Save c a fp req resp e w = (None, w')"
  shows "Load_as decq decp c a fp w' =
    (case stored_as decq w (activeRedactor c w) (normalizePayload req) of
       Inl er \<Rightarrow> Inl (ErrWrap ''xrr: decode payload req'' er)
     | Inr q \<Rightarrow>
         (case stored_as decp w (activeRedactor c w) (normalizePayload resp) of
            Inl er \<Rightarrow> Inl (ErrWrap ''xrr: decode payload resp'' er)
          | Inr p \<Rightarrow> Inr (q, p, errstr e)))"
proof -
  obtain w1 where w1: "fc_write c a fp ''req'' (w_now w) [] (normalizePayload req) w = (None, w1)"
    and w2: "fc_write c a fp ''resp'' (w_now w) (errstr e) (normalizePayload resp) w1 = (None, w')"
    using sv by (auto simp: Save_def Let_def split: option.splits prod.splits)
  note s1 = fc_write_other(1)[OF w1] and s2 = fc_write_other(1)[OF w2]
  have ok: "world_ok w" "world_ok w1" "utf8_valid (w_now w)"
    using w same_but_files_fields(8)[OF s1] by (auto simp: store_ok_def world_ok_def)
  have rd: "w_read_fault w p = None" "w_read_fault w1 p = None" if "p = cassette_path c a fp kind" for p kind
    using w that same_but_files_fields(5)[OF s1] by (simp_all add: store_ok_def)
  have vs: "plain (normalizePayload req)" "plain (normalizePayload resp)" "utf8_valid (errstr e)"
    using v by (simp_all add: interaction_ok_def)
  have "cassette_path c a fp ''req'' \<noteq> cassette_path c a fp ''resp''"
    using cassette_path_inj[OF key key, of "''req''" "''resp''" c] by simp
  then have "fc_read_as decq c a fp ''req'' w' = fc_read_as decq c a fp ''req'' w1"
    by (intro fc_read_cong[OF s2] fc_write_other(2)[OF w2])
  then have "fc_read_as decq c a fp ''req'' w' = (case stored_as decq w (activeRedactor c w) (normalizePayload req) of
      Inl er \<Rightarrow> Inl (ErrWrap ''xrr: decode payload req'' er) | Inr m \<Rightarrow> Inr (m, []))"
    using fc_read_write[OF ok(1) key _ ok(3) _ vs(1) w1, where dec = decq] rd(1)[OF refl] by (simp split: sum.splits)
  moreover have "fc_read_as decp c a fp ''resp'' w' = (case stored_as decp w (activeRedactor c w) (normalizePayload resp) of
      Inl er \<Rightarrow> Inl (ErrWrap ''xrr: decode payload resp'' er) | Inr m \<Rightarrow> Inr (m, errstr e))"
    using fc_read_write[OF ok(2) key _ ok(3) vs(3,2) w2, where dec = decp] rd(2)[OF refl]
      same_but_files_fields(7)[OF s1] stored_as_cong[OF s1, of decp] by (simp split: sum.splits)
  ultimately show ?thesis
    by (simp add: Load_as_def split: sum.splits)
qed

lemma Load_Save:
  assumes "store_ok c w" "key_ok (a, fp)" "interaction_ok (req, resp, e)" "Save c a fp req resp e w = (None, w')"
  shows "Load c a fp w' = loaded c (a, fp) (req, resp, e) w"
  using Load_as_Save[OF assms, of "y_map (w_yaml w)" "y_map (w_yaml w)"] same_but_files_fields(1)[OF Save_other(1)[OF assms(4)]]
  by (simp add: Load_def loaded_def stored_map_def stored_as_def split: sum.splits)

interpretation fc: keyed_store key_ok interaction_ok "store_ok c" "save_key c" "load_key c" "loaded c"
  for c :: FileCassette
proof unfold_locales
  fix w w' :: "'d world" and k l :: "string \<times> string" and v u :: interaction
  obtain a fp b fq where k: "k = (a, fp)" and l: "l = (b, fq)" by (cases k; cases l)
  obtain req resp e where v: "v = (req, resp, e)" by (cases v)
  obtain r w1 where w1: "Save c a fp req resp e w = (r, w1)" by fastforce
  then have sk: "save_key c k v w = (r, w1)" by (simp add: save_key_def k v)
  note o = Save_other[OF w1]
  show "store_ok c w \<Longrightarrow> store_ok c (snd (save_key c k v w))"
    using store_ok_cong[OF o(1)] by (simp add: sk)
  show "store_ok c w \<Longrightarrow> key_ok k \<Longrightarrow> interaction_ok v \<Longrightarrow> save_key c k v w = (None, w') \<Longrightarrow>
      load_key c k w' = loaded c k v w"
    using Load_Save[of c w a fp req resp e w'] by (simp add: save_key_def load_key_def k v)
  show "loaded c l u (snd (save_key c k v w)) = loaded c l u w"
    using stored_map_cong[OF o(1)] same_but_files_fields(7)[OF o(1)]
    by (cases u) (simp add: loaded_def sk cong: sum.case_cong)
  show "load_key c l (snd (save_key c k v w)) = load_key c l w"
    if "store_ok c w" "key_ok k" "key_ok l" "k \<noteq> l"
  proof -
    have "w_files w1 (cassette_path c b fq kind) = w_files w (cassette_path c b fq kind)" if "kind \<in> kinds" for kind
      using o(2) that \<open>key_ok k\<close> \<open>key_ok l\<close> \<open>k \<noteq> l\<close> k l
      by (auto simp: cassette_path_inj)
    from Load_cong[OF o(1) this] same_but_files_fields(1)[OF o(1)] show ?thesis
      by (simp add: load_key_def Load_def l sk)
  qed
qed

text \<open>An empty directory under the instance library, for closed examples.\<close>

definition tree_world :: "ynode world" where
  "tree_world =
     \<lparr>w_yaml = tree_yaml, w_unicode = ascii_tables, w_getenv = (\<lambda>_. []), w_now = ''2026-01-01T00:00:00Z'',
      w_files = (\<lambda>_. None), w_read_fault = (\<lambda>_. None), w_write_fault = (\<lambda>_. None)\<rparr>"

lemma tree_world_ok: "store_ok c tree_world"
proof -
  have "utf8_valid (w_now tree_world)"
    by (simp add: tree_world_def is_ascii_utf8_valid is_ascii_def)
  then show ?thesis
    by (simp add: store_ok_def world_ok_def tree_world_def tree_yaml_ok)
qed

lemma tree_write:
  assumes "w_yaml w = tree_yaml" "\<forall>p. w_write_fault w p = None" "json_ok g"
  shows "fst (fc_write c a fp kind t re g w) = None"
  using assms by (simp add: fc_write_def Let_def tree_yaml_def envelope_fields_def os_WriteFile_def)

lemma tree_saves:
  assumes "same_but_files tree_world w" "json_ok (normalizePayload req)" "json_ok (normalizePayload resp)"
  shows "fst (Save c a fp req resp e w) = None"
proof -
  have t: "w_yaml w = tree_yaml" "\<forall>p. w_write_fault w p = None"
    using same_but_files_fields(1,6)[OF assms(1)] by (simp_all add: tree_world_def)
  obtain w1 where w1: "fc_write c a fp ''req'' (w_now w) [] (normalizePayload req) w = (None, w1)"
    using tree_write[OF t assms(2)] by (metis prod.collapse)
  have "fst (fc_write c a fp ''resp'' t re (normalizePayload resp) w1) = None" for t re
    using same_but_files_fields(1,6)[OF fc_write_other(1)[OF w1]] t assms(3) by (intro tree_write) simp_all
  then show ?thesis
    by (simp add: Save_def Let_def w1)
qed

lemmas tree_save = tree_saves[OF same_but_files_refl]

lemma tree_redactor: "activeRedactor (NewFileCassette d) tree_world = default_redactor"
proof -
  have "trim_space [] = []" by code_simp
  then show ?thesis
    by (simp add: activeRedactor_def NewFileCassette_def tree_world_def default_redactor_def
        RedactConfigFromEnv_def truthy_def to_lower_def is_ascii_def splitList_def)
qed

subsection \<open>Properties\<close>



text \<open>Cassette files never collide: two files of a directory have the same path only when
  adapter id, fingerprint and kind all agree.\<close>

theorem cassette_files_distinct:
  assumes "key_ok (a, fp)" "key_ok (b, fq)" "kind \<in> kinds" "kind' \<in> kinds"
  shows "cassette_path c a fp kind = cassette_path c b fq kind' \<longleftrightarrow> a = b \<and> fp = fq \<and> kind = kind'"
  using assms by (rule cassette_path_inj)

theorem cassette_files_distinct_witness:
  "cassette_path (NewFileCassette ''d'') ''a'' ''0123abcd'' ''req''
     \<noteq> cassette_path (NewFileCassette ''d'') ''a-0'' ''123abcd0'' ''req''"
  using cassette_files_distinct[of "''a''" "''0123abcd''" "''a-0''" "''123abcd0''" "''req''" "''req''"]
  by (simp add: key_ok_def is_lower_hex_def hex_digits_def is_ascii_utf8_valid is_ascii_def)



end
