(* ===== verification/Session.thy ===== *)
theory Session
  imports Cassette
begin

section \<open>Sessions (xrr.go, session.go, env.go)\<close>

text \<open>
  The session dispatches one interaction by its mode: record calls the live operation and saves
  what it returned, replay serves the cassette, passthrough calls and nothing else. A call that
  would dereference a nil cassette panics; the operations of a session return
  \<^const>\<open>None\<close> then.
\<close>

subsection \<open>Interfaces (xrr.go)\<close>

definition ModeRecord :: string where "ModeRecord = ''record''"
definition ModeReplay :: string where "ModeReplay = ''replay''"
definition ModePassthrough :: string where "ModePassthrough = ''passthrough''"

text \<open>
  An adapter, as a session uses it: its id, its fingerprint, and the fields of its request
  struct under their \<^verbatim>\<open>yaml\<close> tags, which is how the encoder sees a request.
\<close>

record 'q adapter =
  a_ID :: string
  a_Fingerprint :: "'q \<Rightarrow> string res"
  a_fields :: "'q \<Rightarrow> gval"

text \<open>A response is the struct an adapter's caller made, or what a replay made.\<close>

datatype Response =
    AdapterResp gval
  | RawResponse string "(string \<times> gval) list option"

text \<open>How the encoder sees a response: \<^verbatim>\<open>RawResponse\<close> exports one field.\<close>

fun resp_fields :: "Response \<Rightarrow> gval" where
  "resp_fields (AdapterResp g) = g"
| "resp_fields (RawResponse a m) = GMap [(''payload'', GMap (case m of None \<Rightarrow> [] | Some kvs \<Rightarrow> kvs))]"

text \<open>The frame scrub hook (stream\_scrub.go).\<close>

definition StreamSend :: string where "StreamSend = ''send''"
definition StreamRecv :: string where "StreamRecv = ''recv''"

record StreamScrubInfo =
  info_AdapterID :: string
  info_Type :: string

type_synonym StreamScrubFunc = "string \<Rightarrow> StreamScrubInfo \<Rightarrow> bytes \<Rightarrow> bytes"

subsection \<open>FileSession (session.go)\<close>

record FileSession =
  s_mode :: string
  s_cassette :: "FileCassette option"
  s_streamN :: "string \<Rightarrow> int option"
  s_streamScrub :: "StreamScrubFunc option"

definition NewSession :: "string \<Rightarrow> FileCassette option \<Rightarrow> FileSession" where
  "NewSession mode cassette =
     \<lparr>s_mode = mode, s_cassette = cassette, s_streamN = (\<lambda>_. None), s_streamScrub = None\<rparr>"

definition NewSessionWithStreamScrub ::
  "string \<Rightarrow> FileCassette option \<Rightarrow> StreamScrubFunc option \<Rightarrow> FileSession" where
  "NewSessionWithStreamScrub mode cassette scrub =
     \<lparr>s_mode = mode, s_cassette = cassette, s_streamN = (\<lambda>_. None), s_streamScrub = scrub\<rparr>"

type_synonym 'd do_fun = "'d world \<Rightarrow> (Response option \<times> goerr option) \<times> 'd world"

definition session_record ::
  "FileSession \<Rightarrow> 'q adapter \<Rightarrow> 'q \<Rightarrow> 'd do_fun \<Rightarrow> 'd world \<Rightarrow> ((Response option \<times> goerr option) \<times> 'd world) option" where
  "session_record s ad req do w =
     (case do w of ((resp, doErr), w1) \<Rightarrow>
        (case a_Fingerprint ad req of
           Inl fpErr \<Rightarrow> Some ((None, Some (ErrWrap ''xrr: fingerprint'' fpErr)), w1)
         | Inr fp \<Rightarrow>
             (case s_cassette s of
                None \<Rightarrow> None
              | Some c \<Rightarrow>
                  (case Save c (a_ID ad) fp (Some (a_fields ad req)) (map_option resp_fields resp) doErr w1 of
                     (Some saveErr, w2) \<Rightarrow> Some ((None, Some (ErrWrap ''xrr: save'' saveErr)), w2)
                   | (None, w2) \<Rightarrow> Some ((resp, doErr), w2)))))"

definition session_replay ::
  "FileSession \<Rightarrow> 'q adapter \<Rightarrow> 'q \<Rightarrow> 'd world \<Rightarrow> (Response option \<times> goerr option) option" where
  "session_replay s ad req w =
     (case a_Fingerprint ad req of
        Inl e \<Rightarrow> Some (None, Some (ErrWrap ''xrr: fingerprint'' e))
      | Inr fp \<Rightarrow>
          (case s_cassette s of
             None \<Rightarrow> None
           | Some c \<Rightarrow>
               (case Load c (a_ID ad) fp w of
                  Inl e \<Rightarrow> Some (None, Some e)
                | Inr (reqPayload, respPayload, recordedErr) \<Rightarrow>
                    let raw = RawResponse (a_ID ad) respPayload
                    in if recordedErr \<noteq> [] then Some (Some raw, Some (ErrNew recordedErr))
                       else Some (Some raw, None))))"

definition Record ::
  "FileSession \<Rightarrow> 'q adapter \<Rightarrow> 'q \<Rightarrow> 'd do_fun \<Rightarrow> 'd world \<Rightarrow> ((Response option \<times> goerr option) \<times> 'd world) option" where
  "Record s ad req do w =
     (if s_mode s = ModeRecord then session_record s ad req do w
      else if s_mode s = ModeReplay then map_option (\<lambda>r. (r, w)) (session_replay s ad req w)
      else if s_mode s = ModePassthrough then Some (do w)
      else Some ((None, Some (ErrNew (''xrr: unknown mode '' @ s_mode s))), w))"

subsection \<open>Sessions from the environment (env.go)\<close>

text \<open>
  \<open>stat\<close> answers whether an existing path is a directory; \<open>mkdirAll\<close> is the
  outcome of creating one. The result carries the directories that were to be created.
\<close>

definition SessionFromEnv ::
  "(string \<Rightarrow> string) \<Rightarrow> (string \<Rightarrow> bool res) \<Rightarrow> (string \<Rightarrow> goerr option) \<Rightarrow> FileSession option res \<times> string list" where
  "SessionFromEnv getenv stat mkdirAll =
     (let modeStr = getenv ''XRR_MODE''; dir = getenv ''XRR_CASSETTE_DIR'' in
      if modeStr = [] then (Inr None, [])
      else if modeStr \<notin> {ModeRecord, ModeReplay, ModePassthrough}
      then (Inl (ErrNew (''xrr: XRR_MODE='' @ modeStr @ '' is not a valid mode (want record|replay|passthrough)'')), [])
      else if modeStr = ModePassthrough then (Inr (Some (NewSession modeStr None)), [])
      else if dir = []
      then (Inl (ErrNew (''xrr: XRR_MODE='' @ modeStr @ '' requires XRR_CASSETTE_DIR to be set'')), [])
      else (case stat dir of
          Inr isDir \<Rightarrow>
            if \<not> isDir then (Inl (ErrNew (''xrr: XRR_CASSETTE_DIR='' @ dir @ '' is not a directory'')), [])
            else (Inr (Some (NewSession modeStr (Some (NewFileCassette dir)))), [])
        | Inl e \<Rightarrow>
            if os_IsNotExist e then
              (if modeStr = ModeRecord then
                 (case mkdirAll dir of
                    Some e' \<Rightarrow> (Inl (ErrWrap (''xrr: failed to create XRR_CASSETTE_DIR='' @ dir) e'), [dir])
                  | None \<Rightarrow> (Inr (Some (NewSession modeStr (Some (NewFileCassette dir)))), [dir]))
               else (Inl (ErrNew (''xrr: XRR_CASSETTE_DIR='' @ dir
                      @ '' does not exist (replay mode requires an existing cassette directory)'')), []))
            else (Inl (ErrWrap (''xrr: failed to stat XRR_CASSETTE_DIR='' @ dir) e), [])))"

subsection \<open>Properties\<close>

lemmas mode_defs = ModeRecord_def ModeReplay_def ModePassthrough_def

lemma Load_loaded:
  assumes "store_ok c w1" "key_ok (a, fp)" "interaction_ok v" "Save c a fp (fst v) (fst (snd v)) (snd (snd v)) w1 = (None, w2)"
  shows "Load c a fp w2 = loaded c (a, fp) v w1"
  using Load_Save[of c w1 a fp "fst v" "fst (snd v)" "snd (snd v)" w2] assms by simp

text \<open>A payload the redactor has no reason to touch.\<close>

definition untouched :: "FileCassette \<Rightarrow> 'd world \<Rightarrow> gval \<Rightarrow> bool" where
  "untouched c w g \<longleftrightarrow> (\<forall>n. y_encode (w_yaml w) g = Inr n \<longrightarrow> redactNode n (activeRedactor c w) ''payload'' = n)"

lemma stored_map_untouched:
  assumes "store_ok c w" "plain (GMap kvs)" "untouched c w (GMap kvs)"
  obtains lvs where "stored_map w (activeRedactor c w) (GMap kvs) = Inr (Some lvs)"
    "key_norm (GMap lvs) = key_norm (GMap kvs)"
proof -
  have Y: "yaml_ok (w_yaml w)" using assms(1) by (simp add: store_ok_def world_ok_def)
  obtain n where n: "y_encode (w_yaml w) (GMap kvs) = Inr n"
    using encode_plain[OF Y assms(2)] by blast
  obtain lvs where "y_map (w_yaml w) n = Inr (Some lvs)" "key_norm (GMap lvs) = key_norm (GMap kvs)"
    using decode_map[OF Y assms(2) n] .
  with n assms(3) that show thesis
    by (simp add: stored_map_def untouched_def)
qed

text \<open>A small adapter and a payload without secrets, for closed examples.\<close>

definition sample_adapter :: "string adapter" where
  "sample_adapter = \<lparr>a_ID = ''exec'', a_Fingerprint = (\<lambda>q. Inr ''0123abcd''), a_fields = (\<lambda>q. GMap [])\<rparr>"

lemma untouched_samples:
  "untouched (NewFileCassette d) tree_world (GMap [])"
  "untouched (NewFileCassette d) tree_world (GMap [(''stdout'', GStr ''x'')])"
proof -
  have "RedactField default_redactor ''stdout'' ''x'' = (''x'', False)" by code_simp
  then show "untouched (NewFileCassette d) tree_world (GMap [])"
    "untouched (NewFileCassette d) tree_world (GMap [(''stdout'', GStr ''x'')])"
    by (simp_all add: untouched_def tree_redactor)
      (simp_all add: tree_world_def tree_yaml_def redactNode_def redactScalar_def isEnvelopeMetaKey_def)
qed

text \<open>Replay never runs the live operation and never writes: whatever operation it is
  handed, the outcome is the same and the world is left as it was.\<close>

theorem replay_is_pure:
  assumes "s_mode s = ModeReplay"
  shows "Record s ad req do1 w = Record s ad req do2 w
    \<and> (\<forall>r w'. Record s ad req do1 w = Some (r, w') \<longrightarrow> w' = w)"
  using assms by (auto simp: Record_def mode_defs)

theorem replay_is_pure_witness:
  "Record (NewSession ModeReplay (Some (NewFileCassette ''d''))) sample_adapter ''q'' (\<lambda>w. ((None, None), w)) tree_world
   = Record (NewSession ModeReplay (Some (NewFileCassette ''d''))) sample_adapter ''q''
       (\<lambda>w. ((None, Some ErrEOF), w\<lparr>w_now := ''t''\<rparr>)) tree_world"
proof -
  have "s_mode (NewSession ModeReplay (Some (NewFileCassette ''d''))) = ModeReplay"
    by (simp add: NewSession_def)
  then show ?thesis by (rule replay_is_pure[THEN conjunct1])
qed

text \<open>What a saved call leaves to be loaded, and what a replay makes of it.\<close>

lemma Record_saved:
  assumes s: "s_mode s = ModeRecord" "s_cassette s = Some c"
    and live: "do w = ((Some (AdapterResp (GMap kvs)), doErr), w1)"
    and fp: "a_Fingerprint ad req = Inr fp" "key_ok (a_ID ad, fp)"
    and req: "a_fields ad req = GMap qvs"
    and vals: "plain (GMap qvs)" "plain (GMap kvs)" "utf8_valid (errstr doErr)"
    and world: "store_ok c w1" "untouched c w1 (GMap qvs)" "untouched c w1 (GMap kvs)"
    and rec: "Record s ad req do w = Some ((Some resp, e), w2)"
  obtains q lvs where "e = doErr" "resp = AdapterResp (GMap kvs)" "key_norm (GMap lvs) = key_norm (GMap kvs)"
    "Load c (a_ID ad) fp w2 = Inr (Some q, Some lvs, errstr doErr)"
    "Save c (a_ID ad) fp (Some (GMap qvs)) (Some (GMap kvs)) doErr w1 = (None, w2)"
proof -
  let ?v = "(Some (GMap qvs), Some (GMap kvs), doErr)"
  obtain se w3 where sv: "Save c (a_ID ad) fp (Some (GMap qvs)) (Some (GMap kvs)) doErr w1 = (se, w3)"
    by fastforce
  have saved: "se = None" "w3 = w2" "e = doErr" "resp = AdapterResp (GMap kvs)"
    using rec sv s live fp(1) req by (auto simp: Record_def session_record_def split: option.splits)
  obtain q where q: "stored_map w1 (activeRedactor c w1) (GMap qvs) = Inr (Some q)"
    using stored_map_untouched[OF world(1) vals(1) world(2)] by blast
  obtain lvs where lvs: "stored_map w1 (activeRedactor c w1) (GMap kvs) = Inr (Some lvs)"
    "key_norm (GMap lvs) = key_norm (GMap kvs)"
    using stored_map_untouched[OF world(1) vals(2) world(3)] by blast
  have "interaction_ok ?v"
    using vals by (simp add: interaction_ok_def normalizePayload_def)
  then have "Load c (a_ID ad) fp w2 = loaded c (a_ID ad, fp) ?v w1"
    using Load_loaded[OF world(1) fp(2)] sv saved by simp
  then have "Load c (a_ID ad) fp w2 = Inr (Some q, Some lvs, errstr doErr)"
    using q lvs(1) by (simp add: loaded_def normalizePayload_def)
  with lvs(2) saved sv that show thesis by blast
qed

lemma Record_loaded:
  assumes "s_mode t = ModeReplay" "s_cassette t = Some c" "a_Fingerprint ad req = Inr fp"
    and "Load c (a_ID ad) fp w = Inr (q, p, txt)"
  shows "Record t ad req do w =
     Some ((Some (RawResponse (a_ID ad) p), if txt = [] then None else Some (ErrNew txt)), w)"
  using assms by (simp add: Record_def session_replay_def mode_defs Let_def)

text \<open>C2: Record, then replay: when a recorded call was saved, any later replay of the same
  request from the same directory returns the recorded response payload, up to the order of
  object keys, together with an error of the same text exactly when the live call failed with a
  non-empty text, and does not run the live operation. The payloads are ones the redactor leaves
  alone.\<close>

theorem record_then_replay:
  assumes s: "s_mode s = ModeRecord" "s_cassette s = Some c"
    and t: "s_mode t = ModeReplay" "s_cassette t = Some c"
    and live: "do w = ((Some (AdapterResp (GMap kvs)), doErr), w1)"
    and fp: "a_Fingerprint ad req = Inr fp" "key_ok (a_ID ad, fp)"
    and req: "a_fields ad req = GMap qvs"
    and vals: "plain (GMap qvs)" "plain (GMap kvs)" "utf8_valid (errstr doErr)"
    and world: "store_ok c w1" "untouched c w1 (GMap qvs)" "untouched c w1 (GMap kvs)"
    and rec: "Record s ad req do w = Some ((Some resp, e), w2)"
  shows "e = doErr \<and> (\<exists>lvs. key_norm (GMap lvs) = key_norm (GMap kvs)
     \<and> Record t ad req do' w2 =
        Some ((Some (RawResponse (a_ID ad) (Some lvs)),
               if errstr doErr = [] then None else Some (ErrNew (errstr doErr))), w2))"
proof -
  obtain q lvs where "e = doErr" "key_norm (GMap lvs) = key_norm (GMap kvs)"
    "Load c (a_ID ad) fp w2 = Inr (Some q, Some lvs, errstr doErr)"
    by (rule Record_saved[OF s live fp req vals world rec])
  with Record_loaded[OF t fp(1), of w2 "Some q" "Some lvs" "errstr doErr" do'] show ?thesis
    by blast
qed

theorem record_then_replay_witness:
  "let c = Some (NewFileCassette ''d''); live = (\<lambda>w. ((Some (AdapterResp (GMap [(''stdout'', GStr ''x'')])), Some ErrEOF), w))
   in \<exists>w2 lvs. Record (NewSession ModeRecord c) sample_adapter ''q'' live tree_world
          = Some ((Some (AdapterResp (GMap [(''stdout'', GStr ''x'')])), Some ErrEOF), w2)
      \<and> key_norm (GMap lvs) = key_norm (GMap [(''stdout'', GStr ''x'')])
      \<and> Record (NewSession ModeReplay c) sample_adapter ''q'' live w2
          = Some ((Some (RawResponse ''exec'' (Some lvs)), Some (ErrNew ''EOF'')), w2)"
proof -
  let ?c = "NewFileCassette ''d''" and ?kvs = "[(''stdout'', GStr ''x'')]"
  let ?live = "\<lambda>w. ((Some (AdapterResp (GMap ?kvs)), Some ErrEOF), w)"
  let ?s = "NewSession ModeRecord (Some ?c)" and ?t = "NewSession ModeReplay (Some ?c)"
  have k: "key_ok (''exec'', ''0123abcd'')" "plain (GMap [])" "plain (GMap ?kvs)" "utf8_valid (errstr (Some ErrEOF))"
    by code_simp+
  obtain w2 where "Save ?c ''exec'' ''0123abcd'' (Some (GMap [])) (Some (GMap ?kvs)) (Some ErrEOF) tree_world = (None, w2)"
    using tree_save[of "Some (GMap [])" "Some (GMap ?kvs)" ?c "''exec''" "''0123abcd''" "Some ErrEOF"]
    by (simp add: normalizePayload_def) (metis prod.collapse)
  then have r: "Record ?s sample_adapter ''q'' ?live tree_world = Some ((Some (AdapterResp (GMap ?kvs)), Some ErrEOF), w2)"
    by (simp add: Record_def session_record_def NewSession_def sample_adapter_def)
  have "Some ErrEOF = Some ErrEOF \<and> (\<exists>lvs. key_norm (GMap lvs) = key_norm (GMap ?kvs)
     \<and> Record ?t sample_adapter ''q'' ?live w2 =
        Some ((Some (RawResponse (a_ID sample_adapter) (Some lvs)),
               if errstr (Some ErrEOF) = [] then None else Some (ErrNew (errstr (Some ErrEOF)))), w2))"
    by (rule record_then_replay[OF _ _ _ _ _ _ _ _ k(2,3,4) tree_world_ok untouched_samples r])
      (use k(1) in \<open>simp_all add: NewSession_def sample_adapter_def\<close>)
  then show ?thesis
    using r by (simp add: sample_adapter_def)
qed

text \<open>A session built from the environment is usable: its mode is one of the three modes and
  the one the variable names, a recording or replaying session has a cassette in the directory
  the other variable names, a replaying one only in an existing directory and without creating
  anything, and passthrough never touches the file system.\<close>

theorem session_from_env_usable:
  assumes "SessionFromEnv getenv stat mkdirAll = (Inr (Some s), made)"
  shows "s_mode s = getenv ''XRR_MODE'' \<and> s_mode s \<in> {ModeRecord, ModeReplay, ModePassthrough}
    \<and> (s_mode s \<noteq> ModePassthrough \<longrightarrow> getenv ''XRR_CASSETTE_DIR'' \<noteq> []
         \<and> s_cassette s = Some (NewFileCassette (getenv ''XRR_CASSETTE_DIR''))
         \<and> (stat (getenv ''XRR_CASSETTE_DIR'') = Inr True \<or> made = [getenv ''XRR_CASSETTE_DIR'']
             \<and> mkdirAll (getenv ''XRR_CASSETTE_DIR'') = None))
    \<and> (s_mode s \<noteq> ModeRecord \<longrightarrow> made = [])"
  using assms
  by (auto simp: SessionFromEnv_def Let_def NewSession_def mode_defs split: if_splits sum.splits option.splits)

theorem session_from_env_usable_witness:
  "let env = (\<lambda>k. if k = ''XRR_MODE'' then ''record'' else ''d'');
       r = SessionFromEnv env (\<lambda>p. Inl (ErrNotExist p)) (\<lambda>_. None)
   in \<exists>s. r = (Inr (Some s), [''d'']) \<and> s_mode s = ''record'' \<and> s_cassette s = Some (NewFileCassette ''d'')"
proof -
  let ?env = "\<lambda>k. if k = ''XRR_MODE'' then ''record'' else ''d''"
  let ?s = "NewSession ''record'' (Some (NewFileCassette ''d''))"
  have r: "SessionFromEnv ?env (\<lambda>p. Inl (ErrNotExist p)) (\<lambda>_. None) = (Inr (Some ?s), [''d''])"
    by (simp add: SessionFromEnv_def mode_defs Let_def)
  from session_from_env_usable[OF this] r show ?thesis
    by (simp add: mode_defs)
qed

end
