(* ===== verification/Adapters.thy ===== *)
theory Adapters
  imports Session
begin

section \<open>Unary adapters (adapters/exec, redis, sql, http, grpc, fs)\<close>

text \<open>
  The request and response structs of the six adapters and their fingerprints. The interface
  locale \<open>fingerprinting\<close> says what an adapter's canonical inputs are for: they are
  hashed as a text that is the same for two requests exactly when the requests agree on the
  fields the adapter identifies them by. It is interpreted on every adapter.

  A nil slice or map and an empty one differ only where the sources can tell: a nil slice is
  \<^verbatim>\<open>null\<close> in JSON.
\<close>

subsection \<open>Field lists\<close>

abbreviation opt_str :: "string \<Rightarrow> string \<Rightarrow> (string \<times> gval) list" where
  "opt_str k s \<equiv> (if s = [] then [] else [(k, GStr s)])"

abbreviation opt_int :: "string \<Rightarrow> int option \<Rightarrow> (string \<times> gval) list" where
  "opt_int k x \<equiv> (case x of None \<Rightarrow> [] | Some i \<Rightarrow> [(k, GInt i)])"

definition str_map :: "(string \<times> string) list \<Rightarrow> gval" where
  "str_map kvs = GMap (map (\<lambda>(k, v). (k, GStr v)) kvs)"

definition json_strs :: "string list option \<Rightarrow> gval" where
  "json_strs xs = (case xs of None \<Rightarrow> GNil | Some ys \<Rightarrow> GList (map GStr ys))"

definition yaml_strs :: "string list option \<Rightarrow> gval" where
  "yaml_strs xs = (case xs of None \<Rightarrow> GList [] | Some ys \<Rightarrow> GList (map GStr ys))"

definition yaml_bytes :: "bytes \<Rightarrow> gval" where
  "yaml_bytes b = GList (map (\<lambda>c. GInt (of_char c)) b)"

text \<open>The shared last step of every fingerprint.\<close>

definition marshal_fingerprint :: "string \<Rightarrow> gval \<Rightarrow> string res" where
  "marshal_fingerprint who inputs =
     (case CanonicalFingerprint inputs of
        Inl e \<Rightarrow> Inl (ErrWrap (who @ '': fingerprint marshal'') e)
      | Inr fp \<Rightarrow> Inr fp)"

subsection \<open>Structs\<close>

record exec_Request =
  er_Argv :: "string list option"
  er_Stdin :: string
  er_Cwd :: string
  er_Env :: "(string \<times> string) list"

record exec_Response =
  ep_Stdout :: string
  ep_Stderr :: string
  ep_ExitCode :: int
  ep_DurationMs :: int

record redis_Request =
  rr_Command :: string
  rr_Args :: "string list"

record redis_Response =
  rd_Result :: gval

record sql_Request =
  sr_Query :: string
  sr_Args :: "gval list option"

record sql_Response =
  sp_Rows :: "(string \<times> gval) list list"
  sp_Affected :: int

record http_Request =
  hr_Method :: string
  hr_URL :: string
  hr_Headers :: "(string \<times> string) list"
  hr_Body :: string

record http_Response =
  hp_Status :: int
  hp_Headers :: "(string \<times> string) list"
  hp_Body :: string

record grpc_Request =
  gr_Service :: string
  gr_Method :: string
  gr_Message :: bytes

record grpc_Response =
  gp_StatusCode :: int
  gp_Message :: bytes

record fs_Request =
  fr_Op :: string
  fr_Path :: string
  fr_Data :: string
  fr_Mode :: "32 word option"
  fr_UID :: "int option"
  fr_GID :: "int option"
  fr_Dest :: string
  fr_Size :: "int option"
  fr_Flags :: "32 word"
  fr_Recursive :: bool

text \<open>The interface type \<^verbatim>\<open>xrr.Request\<close>: an adapter asserts its own struct.\<close>

datatype Request =
    ExecRequest exec_Request
  | RedisRequest redis_Request
  | SqlRequest sql_Request
  | HttpRequest http_Request
  | GrpcRequest grpc_Request
  | FsRequest fs_Request

text \<open>The structs under their \<^verbatim>\<open>yaml\<close> tags.\<close>

fun request_fields :: "Request \<Rightarrow> gval" where
  "request_fields (ExecRequest r) = GMap
     ([(''argv'', yaml_strs (er_Argv r))] @ opt_str ''stdin'' (er_Stdin r) @ opt_str ''cwd'' (er_Cwd r)
      @ (if er_Env r = [] then [] else [(''env'', str_map (er_Env r))]))"
| "request_fields (RedisRequest r) = GMap
     ([(''command'', GStr (rr_Command r))]
      @ (if rr_Args r = [] then [] else [(''args'', GList (map GStr (rr_Args r)))]))"
| "request_fields (SqlRequest r) = GMap
     ([(''query'', GStr (sr_Query r))]
      @ (case sr_Args r of None \<Rightarrow> [] | Some as \<Rightarrow> if as = [] then [] else [(''args'', GList as)]))"
| "request_fields (HttpRequest r) = GMap
     ([(''method'', GStr (hr_Method r)), (''url'', GStr (hr_URL r))]
      @ (if hr_Headers r = [] then [] else [(''headers'', str_map (hr_Headers r))])
      @ opt_str ''body'' (hr_Body r))"
| "request_fields (GrpcRequest r) = GMap
     ([(''service'', GStr (gr_Service r)), (''method'', GStr (gr_Method r))]
      @ (if gr_Message r = [] then [] else [(''message'', yaml_bytes (gr_Message r))]))"
| "request_fields (FsRequest r) = GMap
     ([(''op'', GStr (fr_Op r)), (''path'', GStr (fr_Path r))] @ opt_str ''data'' (fr_Data r)
      @ opt_int ''mode'' (map_option uint (fr_Mode r)) @ opt_int ''uid'' (fr_UID r)
      @ opt_int ''gid'' (fr_GID r) @ opt_str ''dest'' (fr_Dest r) @ opt_int ''size'' (fr_Size r)
      @ (if fr_Flags r = 0 then [] else [(''flags'', GInt (uint (fr_Flags r)))])
      @ (if fr_Recursive r then [(''recursive'', GBool True)] else []))"

definition exec_response_fields :: "exec_Response \<Rightarrow> gval" where
  "exec_response_fields p = GMap
     ([(''stdout'', GStr (ep_Stdout p))] @ opt_str ''stderr'' (ep_Stderr p)
      @ [(''exit_code'', GInt (ep_ExitCode p))]
      @ (if ep_DurationMs p = 0 then [] else [(''duration_ms'', GInt (ep_DurationMs p))]))"

definition redis_response_fields :: "redis_Response \<Rightarrow> gval" where
  "redis_response_fields p = GMap [(''result'', rd_Result p)]"

definition sql_response_fields :: "sql_Response \<Rightarrow> gval" where
  "sql_response_fields p = GMap
     ((if sp_Rows p = [] then [] else [(''rows'', GList (map GMap (sp_Rows p)))])
      @ (if sp_Affected p = 0 then [] else [(''affected'', GInt (sp_Affected p))]))"

definition http_response_fields :: "http_Response \<Rightarrow> gval" where
  "http_response_fields p = GMap
     ([(''status'', GInt (hp_Status p))]
      @ (if hp_Headers p = [] then [] else [(''headers'', str_map (hp_Headers p))])
      @ opt_str ''body'' (hp_Body p))"

definition grpc_response_fields :: "grpc_Response \<Rightarrow> gval" where
  "grpc_response_fields p = GMap
     ([(''status_code'', GInt (gp_StatusCode p))]
      @ (if gp_Message p = [] then [] else [(''message'', yaml_bytes (gp_Message p))]))"

subsection \<open>exec\<close>

definition exec_inputs :: "exec_Request \<Rightarrow> gval" where
  "exec_inputs r = GMap
     ([(''argv'', json_strs (er_Argv r)), (''stdin'', GStr (er_Stdin r))] @ opt_str ''cwd'' (er_Cwd r))"

definition exec_Fingerprint :: "Request \<Rightarrow> string res" where
  "exec_Fingerprint req =
     (case req of
        ExecRequest r \<Rightarrow> marshal_fingerprint ''exec'' (exec_inputs r)
      | _ \<Rightarrow> Inl (ErrNew ''exec: unexpected request type''))"

text \<open>\<^verbatim>\<open>errors.As\<close> with a \<^verbatim>\<open>*exec.ExitError\<close> target.\<close>

fun as_exit_error :: "goerr \<Rightarrow> int option" where
  "as_exit_error (ExitError c t) = Some c"
| "as_exit_error (ErrWrap pre e) = as_exit_error e"
| "as_exit_error _ = None"

definition ExitCodeFromError :: "goerr option \<Rightarrow> int" where
  "ExitCodeFromError err =
     (case err of
        None \<Rightarrow> 0
      | Some e \<Rightarrow> (case as_exit_error e of Some c \<Rightarrow> c | None \<Rightarrow> -1))"

subsection \<open>redis\<close>

definition redis_inputs :: "unicode \<Rightarrow> redis_Request \<Rightarrow> gval" where
  "redis_inputs U r = GStr (join_with '' '' (to_upper U (rr_Command r) # rr_Args r))"

definition redis_Fingerprint :: "unicode \<Rightarrow> Request \<Rightarrow> string res" where
  "redis_Fingerprint U req =
     (case req of
        RedisRequest r \<Rightarrow> marshal_fingerprint ''redis'' (redis_inputs U r)
      | _ \<Rightarrow> Inl (ErrNew ''redis: unexpected request type''))"

subsection \<open>sql\<close>

text \<open>\<^verbatim>\<open>wsRe.ReplaceAllString(q, " ")\<close> for \<^verbatim>\<open>\s+\<close>: every
  maximal run of white space becomes one blank.\<close>

fun collapse_ws :: "string \<Rightarrow> string" where
  "collapse_ws [] = []"
| "collapse_ws (c # s) =
     (if is_perl_space c
      then (case s of
              [] \<Rightarrow> '' ''
            | d # _ \<Rightarrow> if is_perl_space d then collapse_ws s else CHR '' '' # collapse_ws s)
      else c # collapse_ws s)"

definition normalizeQuery :: "unicode \<Rightarrow> string \<Rightarrow> string" where
  "normalizeQuery U q = trim_space (collapse_ws (to_lower U q))"

definition sql_inputs :: "unicode \<Rightarrow> sql_Request \<Rightarrow> gval" where
  "sql_inputs U r = GMap
     [(''query'', GStr (normalizeQuery U (sr_Query r))),
      (''args'', case sr_Args r of None \<Rightarrow> GNil | Some as \<Rightarrow> GList as)]"

definition sql_Fingerprint :: "unicode \<Rightarrow> Request \<Rightarrow> string res" where
  "sql_Fingerprint U req =
     (case req of
        SqlRequest r \<Rightarrow> marshal_fingerprint ''sql'' (sql_inputs U r)
      | _ \<Rightarrow> Inl (ErrNew ''sql: unexpected request type''))"

subsection \<open>grpc\<close>

definition grpc_inputs :: "grpc_Request \<Rightarrow> gval" where
  "grpc_inputs r = GMap
     [(''service'', GStr (gr_Service r)), (''method'', GStr (gr_Method r)),
      (''msg_hash'', GStr (sum4 (gr_Message r)))]"

definition grpc_Fingerprint :: "Request \<Rightarrow> string res" where
  "grpc_Fingerprint req =
     (case req of
        GrpcRequest r \<Rightarrow> marshal_fingerprint ''grpc'' (grpc_inputs r)
      | _ \<Rightarrow> Inl (ErrNew ''grpc: unexpected request type''))"

subsection \<open>fs\<close>

record fs_Adapter =
  fs_normalizer :: "string \<Rightarrow> string"

definition OpWrite :: string where "OpWrite = ''write''"
definition OpMkdir :: string where "OpMkdir = ''mkdir''"
definition OpRemove :: string where "OpRemove = ''remove''"
definition OpRename :: string where "OpRename = ''rename''"
definition OpChmod :: string where "OpChmod = ''chmod''"
definition OpChown :: string where "OpChown = ''chown''"
definition OpSymlink :: string where "OpSymlink = ''symlink''"
definition OpHardlink :: string where "OpHardlink = ''hardlink''"
definition OpTruncate :: string where "OpTruncate = ''truncate''"

lemmas op_defs = OpWrite_def OpMkdir_def OpRemove_def OpRename_def OpChmod_def OpChown_def
  OpSymlink_def OpHardlink_def OpTruncate_def

record fs_Response =
  fp_DurationMs :: int
  fp_BytesWritten :: int

definition fs_response_fields :: "fs_Response \<Rightarrow> gval" where
  "fs_response_fields p = GMap
     ((if fp_DurationMs p = 0 then [] else [(''duration_ms'', GInt (fp_DurationMs p))])
      @ (if fp_BytesWritten p = 0 then [] else [(''bytes_written'', GInt (fp_BytesWritten p))]))"

definition fs_NewAdapter :: fs_Adapter where
  "fs_NewAdapter = \<lparr>fs_normalizer = (\<lambda>p. p)\<rparr>"

definition WithNormalizer :: "fs_Adapter \<Rightarrow> (string \<Rightarrow> string) \<Rightarrow> fs_Adapter" where
  "WithNormalizer a n = a\<lparr>fs_normalizer := n\<rparr>"

definition Chain :: "(string \<Rightarrow> string) list \<Rightarrow> string \<Rightarrow> string" where
  "Chain norms p = foldl (\<lambda>p n. n p) p norms"

definition Normalize :: "fs_Adapter \<Rightarrow> string \<Rightarrow> string" where
  "Normalize a p = (if p = [] then [] else fs_normalizer a p)"

definition fs_inputs :: "fs_Adapter \<Rightarrow> fs_Request \<Rightarrow> gval" where
  "fs_inputs a r = GMap
     ([(''op'', GStr (fr_Op r)), (''path'', GStr (Normalize a (fr_Path r)))]
      @ (if fr_Data r = [] then [] else [(''data_sha256'', GStr (hex_encode (sha256 (fr_Data r))))])
      @ opt_int ''mode'' (map_option uint (fr_Mode r))
      @ opt_int ''uid'' (fr_UID r)
      @ opt_int ''gid'' (fr_GID r)
      @ opt_str ''dest'' (Normalize a (fr_Dest r))
      @ opt_int ''size'' (fr_Size r)
      @ (if fr_Flags r = 0 then [] else [(''flags'', GInt (uint (fr_Flags r)))])
      @ (if fr_Recursive r then [(''recursive'', GBool True)] else []))"

definition fs_Fingerprint :: "fs_Adapter \<Rightarrow> Request \<Rightarrow> string res" where
  "fs_Fingerprint a req =
     (case req of
        FsRequest r \<Rightarrow> marshal_fingerprint ''fs'' (fs_inputs a r)
      | _ \<Rightarrow> Inl (ErrNew ''fs: unexpected request type''))"

subsection \<open>http\<close>

text \<open>
  \<^verbatim>\<open>url.Parse\<close>, as far as the adapter looks: the decoded path, the raw query and
  every way it can fail. Whether an authority (user info, host, port) is well formed is an
  argument, \<open>auth_err\<close>. A single trailing question mark leaves an empty query, as
  cutting at it does.
\<close>

definition has_ctl :: "string \<Rightarrow> bool" where
  "has_ctl s = list_ex (\<lambda>c. (of_char c :: nat) < 0x20 \<or> c = CHR 0x7F) s"

abbreviation is_letter :: "char \<Rightarrow> bool" where
  "is_letter c \<equiv> in_range CHR ''a'' CHR ''z'' c \<or> in_range CHR ''A'' CHR ''Z'' c"

fun get_scheme :: "string \<Rightarrow> string \<Rightarrow> string \<Rightarrow> (string \<times> string) res" where
  "get_scheme raw acc [] = Inr ([], raw)"
| "get_scheme raw acc (c # r) =
     (if is_letter c then get_scheme raw (acc @ [c]) r
      else if is_digit c \<or> c \<in> set ''+-.'' then (if acc = [] then Inr ([], raw) else get_scheme raw (acc @ [c]) r)
      else if c = CHR '':'' then (if acc = [] then Inl (ErrNew ''missing protocol scheme'') else Inr (acc, r))
      else Inr ([], raw))"

definition unhex :: "char \<Rightarrow> nat option" where
  "unhex c =
     (if is_digit c then Some (of_char c - 48)
      else if in_range CHR ''a'' CHR ''f'' c then Some (of_char c - 87)
      else if in_range CHR ''A'' CHR ''F'' c then Some (of_char c - 55)
      else None)"

fun path_unescape :: "string \<Rightarrow> string res" where
  "path_unescape [] = Inr []"
| "path_unescape (c # r) =
     (if c = CHR ''%'' then
        (case r of
           a # b # r' \<Rightarrow>
             (case (unhex a, unhex b) of
                (Some x, Some y) \<Rightarrow> map_sum id (\<lambda>t. char_of (16 * x + y) # t) (path_unescape r')
              | _ \<Rightarrow> Inl (ErrNew ''invalid URL escape''))
         | _ \<Rightarrow> Inl (ErrNew ''invalid URL escape''))
      else map_sum id (\<lambda>t. c # t) (path_unescape r))"

definition url_parse_main :: "(string \<Rightarrow> goerr option) \<Rightarrow> string \<Rightarrow> (string \<times> string) res" where
  "url_parse_main auth_err s =
     (if has_ctl s then Inl (ErrNew ''net/url: invalid control character in URL'')
      else if s = ''*'' then Inr (''*'', [])
      else (case get_scheme s [] s of
          Inl e \<Rightarrow> Inl e
        | Inr (scheme, rest0) \<Rightarrow>
            let (rest, query) = (case cut_at CHR ''?'' rest0 of Some (a, b) \<Rightarrow> (a, b) | None \<Rightarrow> (rest0, []));
                setPath = (\<lambda>p. map_sum id (\<lambda>d. (d, query)) (path_unescape p));
                first = (case cut_at slash rest of Some (a, b) \<Rightarrow> a | None \<Rightarrow> rest)
            in if \<not> prefix ''/'' rest \<and> scheme \<noteq> [] then Inr ([], query)
               else if \<not> prefix ''/'' rest \<and> CHR '':'' \<in> set first
               then Inl (ErrNew ''first path segment in URL cannot contain colon'')
               else if (scheme \<noteq> [] \<or> \<not> prefix ''///'' rest) \<and> prefix ''//'' rest then
                 (case cut_at slash (drop 2 rest) of
                    Some (authority, p) \<Rightarrow>
                      (case auth_err authority of Some e \<Rightarrow> Inl e | None \<Rightarrow> setPath (slash # p))
                  | None \<Rightarrow> (case auth_err (drop 2 rest) of Some e \<Rightarrow> Inl e | None \<Rightarrow> setPath []))
               else setPath rest))"

definition url_Parse :: "(string \<Rightarrow> goerr option) \<Rightarrow> string \<Rightarrow> (string \<times> string) res" where
  "url_Parse auth_err raw =
     (case cut_at CHR ''#'' raw of
        None \<Rightarrow> url_parse_main auth_err raw
      | Some (u, frag) \<Rightarrow>
          (case url_parse_main auth_err u of
             Inl e \<Rightarrow> Inl e
           | Inr pq \<Rightarrow> (case path_unescape frag of Inl e \<Rightarrow> Inl e | Inr _ \<Rightarrow> Inr pq)))"

definition path_query :: "string \<times> string \<Rightarrow> string" where
  "path_query = (\<lambda>(p, q). p @ (if q = [] then [] else ''?'' @ q))"

definition http_inputs :: "http_Request \<Rightarrow> string \<Rightarrow> gval" where
  "http_inputs r pathQuery = GMap
     [(''method'', GStr (hr_Method r)), (''path'', GStr pathQuery), (''body_hash'', GStr (sum4 (hr_Body r)))]"

definition http_Fingerprint :: "(string \<Rightarrow> goerr option) \<Rightarrow> Request \<Rightarrow> string res" where
  "http_Fingerprint auth_err req =
     (case req of
        HttpRequest r \<Rightarrow>
          (case url_Parse auth_err (hr_URL r) of
             Inl e \<Rightarrow> Inl (ErrWrap ''http: parse url'' e)
           | Inr u \<Rightarrow> marshal_fingerprint ''http'' (http_inputs r (path_query u)))
      | _ \<Rightarrow> Inl (ErrNew ''http: unexpected request type''))"

subsection \<open>Adapters as a session sees them\<close>

definition exec_adapter :: "Request adapter" where
  "exec_adapter = \<lparr>a_ID = ''exec'', a_Fingerprint = exec_Fingerprint, a_fields = request_fields\<rparr>"

definition redis_adapter :: "unicode \<Rightarrow> Request adapter" where
  "redis_adapter U = \<lparr>a_ID = ''redis'', a_Fingerprint = redis_Fingerprint U, a_fields = request_fields\<rparr>"

definition sql_adapter :: "unicode \<Rightarrow> Request adapter" where
  "sql_adapter U = \<lparr>a_ID = ''sql'', a_Fingerprint = sql_Fingerprint U, a_fields = request_fields\<rparr>"

definition http_adapter :: "(string \<Rightarrow> goerr option) \<Rightarrow> Request adapter" where
  "http_adapter auth_err = \<lparr>a_ID = ''http'', a_Fingerprint = http_Fingerprint auth_err, a_fields = request_fields\<rparr>"

definition grpc_adapter :: "Request adapter" where
  "grpc_adapter = \<lparr>a_ID = ''grpc'', a_Fingerprint = grpc_Fingerprint, a_fields = request_fields\<rparr>"

definition fs_adapter :: "fs_Adapter \<Rightarrow> Request adapter" where
  "fs_adapter a = \<lparr>a_ID = ''fs'', a_Fingerprint = fs_Fingerprint a, a_fields = request_fields\<rparr>"

subsection \<open>What a fingerprint identifies\<close>

lemma sort_key_distinct_eq:
  fixes kvs lvs :: "(string \<times> 'v) list"
  assumes "distinct (map fst kvs)" "distinct (map fst lvs)" "map_of kvs = map_of lvs"
  shows "sort_key fst kvs = sort_key fst lvs"
proof -
  have "set kvs = set lvs"
    using assms by (metis map_of_inject_set)
  moreover have "distinct (map fst (sort_key fst xs))" if "distinct (map fst xs)" for xs :: "(string \<times> 'v) list"
    using that by (simp add: distinct_map)
  moreover have "inj_on fst (set kvs)" using assms(1) by (simp add: distinct_map)
  ultimately show ?thesis
    using assms(1,2) by (intro map_sorted_distinct_set_unique[where f = fst]) simp_all
qed

lemma key_norm_GMap:
  "key_norm (GMap kvs) = GMap (map (\<lambda>(k, v). (k, key_norm v)) (sort_key fst kvs))"
  using sort_entries[of "\<lambda>_. key_norm"] by simp

text \<open>Two maps without repeated keys are the same Go value when they agree at every key.\<close>

lemma key_norm_maps:
  assumes "distinct (map fst kvs)" "distinct (map fst lvs)"
  shows "key_norm (GMap kvs) = key_norm (GMap lvs) \<longleftrightarrow>
    (\<forall>k. map_option key_norm (map_of kvs k) = map_option key_norm (map_of lvs k))"
proof -
  define f where "f = map (\<lambda>(k :: string, v). (k, key_norm v))"
  have look: "map_of (f xs) k = map_option key_norm (map_of xs k)" for xs k
    by (induction xs) (auto simp: f_def)
  have keys: "map fst (f xs) = map fst xs" for xs
    by (auto simp: f_def)
  have norm: "key_norm (GMap xs) = GMap (sort_key fst (f xs))" for xs
    by (simp add: f_def)
  have "sort_key fst (f kvs) = sort_key fst (f lvs) \<longleftrightarrow> map_of (f kvs) = map_of (f lvs)"
  proof
    assume eq: "sort_key fst (f kvs) = sort_key fst (f lvs)"
    have "map_of (sort_key fst xs) = map_of xs" if "distinct (map fst xs)" for xs :: "(string \<times> gval) list"
      using that by (intro map_of_inject_set[THEN iffD2]) (simp_all add: distinct_map)
    with eq keys assms show "map_of (f kvs) = map_of (f lvs)" by metis
  qed (use assms keys in \<open>simp add: sort_key_distinct_eq\<close>)
  then show ?thesis
    by (simp only: norm gval.inject fun_eq_iff look)
qed

lemma key_norm_distinct:
  assumes "key_norm (GMap lvs) = key_norm (GMap kvs)" "distinct (map fst kvs)"
  shows "distinct (map fst lvs)"
proof -
  have "map fst (sort_key fst lvs) = map fst (sort_key fst kvs)"
    using assms(1) unfolding key_norm_GMap gval.inject
    by (metis (mono_tags, lifting) case_prod_beta comp_apply fst_conv map_eq_conv map_map)
  moreover have "distinct (map fst (sort_key fst xs)) \<longleftrightarrow> distinct (map fst xs)" for xs :: "(string \<times> gval) list"
    by (simp add: distinct_map)
  ultimately show ?thesis using assms(2) by metis
qed

text \<open>A string field survives the reordering of keys.\<close>

lemma key_norm_string:
  assumes "key_norm (GMap lvs) = key_norm (GMap kvs)" "distinct (map fst kvs)" "map_of kvs k = Some (GStr s)"
  shows "map_of lvs k = Some (GStr s)"
proof -
  have norm: "key_norm v = GStr s \<longleftrightarrow> v = GStr s" for v by (cases v) simp_all
  have "map_option key_norm (map_of lvs k) = Some (GStr s)"
    using key_norm_maps[OF key_norm_distinct[OF assms(1,2)] assms(2)] assms(1,3) by simp
  then show ?thesis by (auto simp: norm)
qed

text \<open>A struct with optional fields, given by its names and its present values.\<close>

fun present :: "(string \<times> gval option) list \<Rightarrow> (string \<times> gval) list" where
  "present [] = []"
| "present ((k, x) # r) = (case x of None \<Rightarrow> [] | Some v \<Rightarrow> [(k, v)]) @ present r"

lemma present_keys: "set (map fst (present s)) \<subseteq> set (map fst s)"
  by (induction s rule: present.induct) (auto split: option.splits)

lemma present_distinct: "distinct (map fst s) \<Longrightarrow> distinct (map fst (present s))"
proof (induction s rule: present.induct)
  case (2 k x r)
  then show ?case using present_keys[of r] by (auto split: option.splits)
qed simp

lemma map_of_present: "distinct (map fst s) \<Longrightarrow> map_of (present s) k = Option.bind (map_of s k) id"
proof (induction s rule: present.induct)
  case (2 k' x r)
  have "map_of (present r) k' = None"
    using 2(2) present_keys[of r] by (auto simp: map_of_eq_None_iff)
  with 2 show ?case by (auto split: option.splits)
qed simp

lemma key_norm_present:
  assumes "distinct ks" "length xs = length ks" "length ys = length ks"
  shows "key_norm (GMap (present (zip ks xs))) = key_norm (GMap (present (zip ks ys)))
    \<longleftrightarrow> map (map_option key_norm) xs = map (map_option key_norm) ys"
proof -
  have d: "distinct (map fst (zip ks zs))" if "length zs = length ks" for zs :: "gval option list"
    using assms(1) that by simp
  have look: "map_of (present (zip ks zs)) (ks ! i) = zs ! i" if "length zs = length ks" "i < length ks" for zs i
    using map_of_present[OF d[OF that(1)]] map_of_zip_nth[OF that(1)[symmetric] assms(1)] that by simp
  have off: "map_of (present (zip ks zs)) k = None" if "length zs = length ks" "k \<notin> set ks" for zs k
    using present_keys[of "zip ks zs"] that by (auto simp: map_of_eq_None_iff)
  have "key_norm (GMap (present (zip ks xs))) = key_norm (GMap (present (zip ks ys))) \<longleftrightarrow>
      (\<forall>k. map_option key_norm (map_of (present (zip ks xs)) k) = map_option key_norm (map_of (present (zip ks ys)) k))"
    using assms d by (intro key_norm_maps present_distinct)
  also have "\<dots> \<longleftrightarrow> (\<forall>i < length ks. map_option key_norm (xs ! i) = map_option key_norm (ys ! i))" (is "?A = ?B")
  proof
    show "?A \<Longrightarrow> ?B" using look assms(2,3) by metis
    show "?B \<Longrightarrow> ?A" using look off assms(2,3) by (metis in_set_conv_nth)
  qed
  finally show ?thesis
    using assms(2,3) by (auto simp: list_eq_iff_nth_eq)
qed

lemma opt_int_present: "opt_int k x = (case map_option GInt x of None \<Rightarrow> [] | Some v \<Rightarrow> [(k, v)])"
  by (cases x) simp_all

lemma if_present:
  "(if b then [] else [(k, v)]) = (case (if b then None else Some v) of None \<Rightarrow> [] | Some v \<Rightarrow> [(k, v)])"
  "(if b then [(k, v)] else []) = (case (if b then Some v else None) of None \<Rightarrow> [] | Some v \<Rightarrow> [(k, v)])"
  by simp_all

text \<open>
  The contract of an adapter's fingerprint: its inputs are canonical values that tell two
  requests apart exactly when their identifying fields differ.
\<close>

locale fingerprinting =
  fixes ok :: "'q \<Rightarrow> bool"
    and inputs :: "'q \<Rightarrow> gval"
    and ident :: "'q \<Rightarrow> 'v"
    and fp :: "'q \<Rightarrow> string res"
    and who :: string
  assumes inputs_ok: "ok q \<Longrightarrow> canon_ok (inputs q)"
    and inputs_ident: "ok q \<Longrightarrow> ok q' \<Longrightarrow> key_norm (inputs q) = key_norm (inputs q') \<longleftrightarrow> ident q = ident q'"
    and fp_inputs: "ok q \<Longrightarrow> fp q = marshal_fingerprint who (inputs q)"
begin

lemma text_iff: "ok q \<Longrightarrow> ok q' \<Longrightarrow> CanonicalJSON (inputs q) = CanonicalJSON (inputs q') \<longleftrightarrow> ident q = ident q'"
  by (simp add: CanonicalJSON_eq_iff inputs_ok inputs_ident)

lemma fp_total: "ok q \<Longrightarrow> \<exists>h. fp q = Inr h \<and> length h = 8 \<and> list_all is_lower_hex h"
  using CanonicalFingerprint_total[OF inputs_ok, of q] fp_inputs by (fastforce simp: marshal_fingerprint_def)

lemma fp_cong: "ok q \<Longrightarrow> ok q' \<Longrightarrow> ident q = ident q' \<Longrightarrow> fp q = fp q'"
  using text_iff[of q q'] by (simp add: fp_inputs marshal_fingerprint_def CanonicalFingerprint_def)

end

lemmas field_names = is_ascii_utf8_valid is_ascii_def

lemma ascii_hex: "utf8_valid (hex_encode b)"
  using hex_ascii[OF hex_encode_lower] is_ascii_utf8_valid by blast

definition exec_ok :: "exec_Request \<Rightarrow> bool" where
  "exec_ok r \<longleftrightarrow> (case er_Argv r of None \<Rightarrow> True | Some xs \<Rightarrow> list_all utf8_valid xs)
     \<and> utf8_valid (er_Stdin r) \<and> utf8_valid (er_Cwd r)"

interpretation exec: fingerprinting exec_ok exec_inputs "\<lambda>r. (er_Argv r, er_Stdin r, er_Cwd r)"
  "\<lambda>r. exec_Fingerprint (ExecRequest r)" "''exec''"
proof unfold_locales
  fix q q' :: exec_Request
  show "exec_ok q \<Longrightarrow> canon_ok (exec_inputs q)"
    by (auto simp: exec_ok_def exec_inputs_def json_strs_def field_names list_all_iff split: option.splits)
  have f: "exec_inputs r = GMap (present (zip [''argv'', ''stdin'', ''cwd'']
      [Some (json_strs (er_Argv r)), Some (GStr (er_Stdin r)), if er_Cwd r = [] then None else Some (GStr (er_Cwd r))]))" for r
    by (simp add: exec_inputs_def)
  have strs: "key_norm (json_strs xs) = json_strs xs" for xs
    by (cases xs) (simp_all add: json_strs_def)
  have inj: "json_strs xs = json_strs ys \<longleftrightarrow> xs = ys" for xs ys
    by (auto simp: json_strs_def inj_map_eq_map inj_def split: option.splits)
  show "(key_norm (exec_inputs q) = key_norm (exec_inputs q'))
      = ((er_Argv q, er_Stdin q, er_Cwd q) = (er_Argv q', er_Stdin q', er_Cwd q'))"
    unfolding f by (subst key_norm_present) (auto simp: strs inj)
qed (simp add: exec_Fingerprint_def)

definition redis_ok :: "unicode \<Rightarrow> redis_Request \<Rightarrow> bool" where
  "redis_ok U r \<longleftrightarrow> utf8_valid (join_with '' '' (to_upper U (rr_Command r) # rr_Args r))"

interpretation redis: fingerprinting "redis_ok U" "redis_inputs U"
  "\<lambda>r. join_with '' '' (to_upper U (rr_Command r) # rr_Args r)" "\<lambda>r. redis_Fingerprint U (RedisRequest r)" "''redis''"
  for U :: unicode
  by unfold_locales (simp_all add: redis_ok_def redis_inputs_def redis_Fingerprint_def)

definition sql_ok :: "unicode \<Rightarrow> sql_Request \<Rightarrow> bool" where
  "sql_ok U r \<longleftrightarrow> utf8_valid (normalizeQuery U (sr_Query r))
     \<and> (case sr_Args r of None \<Rightarrow> True | Some as \<Rightarrow> list_all canon_ok as)"

interpretation sql: fingerprinting "sql_ok U" "sql_inputs U"
  "\<lambda>r. (normalizeQuery U (sr_Query r), map_option (map key_norm) (sr_Args r))"
  "\<lambda>r. sql_Fingerprint U (SqlRequest r)" "''sql''"
  for U :: unicode
proof unfold_locales
  fix q q' :: sql_Request
  show "sql_ok U q \<Longrightarrow> canon_ok (sql_inputs U q)"
    by (auto simp: sql_ok_def sql_inputs_def field_names split: option.splits)
  show "(key_norm (sql_inputs U q) = key_norm (sql_inputs U q'))
      = ((normalizeQuery U (sr_Query q), map_option (map key_norm) (sr_Args q))
         = (normalizeQuery U (sr_Query q'), map_option (map key_norm) (sr_Args q')))"
  proof -
    have "sql_inputs U r = GMap (present (zip [''query'', ''args''] [Some (GStr (normalizeQuery U (sr_Query r))),
        Some (case sr_Args r of None \<Rightarrow> GNil | Some as \<Rightarrow> GList as)]))" for r
      by (simp add: sql_inputs_def)
    then show ?thesis
      by (simp only:) (subst key_norm_present, auto split: option.splits)
  qed
qed (simp add: sql_Fingerprint_def)

definition http_ok :: "http_Request \<times> string \<Rightarrow> bool" where
  "http_ok = (\<lambda>(r, pq). utf8_valid (hr_Method r) \<and> utf8_valid pq)"

interpretation http: fingerprinting http_ok "\<lambda>(r, pq). http_inputs r pq"
  "\<lambda>(r, pq). (hr_Method r, pq, sum4 (hr_Body r))" "\<lambda>(r, pq). marshal_fingerprint ''http'' (http_inputs r pq)" "''http''"
proof unfold_locales
  fix q q' :: "http_Request \<times> string"
  show "http_ok q \<Longrightarrow> canon_ok (case q of (r, pq) \<Rightarrow> http_inputs r pq)"
    by (auto simp: http_ok_def http_inputs_def field_names sum4_def ascii_hex split: prod.splits)
  show "(key_norm (case q of (r, pq) \<Rightarrow> http_inputs r pq) = key_norm (case q' of (r, pq) \<Rightarrow> http_inputs r pq))
      = ((case q of (r, pq) \<Rightarrow> (hr_Method r, pq, sum4 (hr_Body r))) = (case q' of (r, pq) \<Rightarrow> (hr_Method r, pq, sum4 (hr_Body r))))"
  proof -
    have "http_inputs r pq = GMap (present (zip [''method'', ''path'', ''body_hash'']
        [Some (GStr (hr_Method r)), Some (GStr pq), Some (GStr (sum4 (hr_Body r)))]))" for r pq
      by (simp add: http_inputs_def)
    then show ?thesis
      by (simp only: case_prod_unfold) (subst key_norm_present, auto)
  qed
qed (simp add: case_prod_unfold)

definition grpc_ok :: "grpc_Request \<Rightarrow> bool" where
  "grpc_ok r \<longleftrightarrow> utf8_valid (gr_Service r) \<and> utf8_valid (gr_Method r)"

interpretation grpc: fingerprinting grpc_ok grpc_inputs "\<lambda>r. (gr_Service r, gr_Method r, sum4 (gr_Message r))"
  "\<lambda>r. grpc_Fingerprint (GrpcRequest r)" "''grpc''"
proof unfold_locales
  fix q q' :: grpc_Request
  show "grpc_ok q \<Longrightarrow> canon_ok (grpc_inputs q)"
    by (auto simp: grpc_ok_def grpc_inputs_def field_names sum4_def ascii_hex)
  show "(key_norm (grpc_inputs q) = key_norm (grpc_inputs q'))
      = ((gr_Service q, gr_Method q, sum4 (gr_Message q)) = (gr_Service q', gr_Method q', sum4 (gr_Message q')))"
  proof -
    have "grpc_inputs r = GMap (present (zip [''service'', ''method'', ''msg_hash'']
        [Some (GStr (gr_Service r)), Some (GStr (gr_Method r)), Some (GStr (sum4 (gr_Message r)))]))" for r
      by (simp add: grpc_inputs_def)
    then show ?thesis
      by (simp only:) (subst key_norm_present, auto)
  qed
qed (simp add: grpc_Fingerprint_def)

text \<open>What the fs adapter identifies a request by; data count by their SHA-256 only.\<close>

definition fs_ident where
  "fs_ident a r =
     (fr_Op r, Normalize a (fr_Path r), if fr_Data r = [] then None else Some (sha256 (fr_Data r)),
      fr_Mode r, fr_UID r, fr_GID r, Normalize a (fr_Dest r), fr_Size r, fr_Flags r, fr_Recursive r)"

definition fs_ok :: "fs_Adapter \<Rightarrow> fs_Request \<Rightarrow> bool" where
  "fs_ok a r \<longleftrightarrow> utf8_valid (fr_Op r) \<and> utf8_valid (Normalize a (fr_Path r)) \<and> utf8_valid (Normalize a (fr_Dest r))"

lemma fs_inputs_present:
  "fs_inputs a r = GMap (present (zip
     [''op'', ''path'', ''data_sha256'', ''mode'', ''uid'', ''gid'', ''dest'', ''size'', ''flags'', ''recursive'']
     [Some (GStr (fr_Op r)), Some (GStr (Normalize a (fr_Path r))),
      if fr_Data r = [] then None else Some (GStr (hex_encode (sha256 (fr_Data r)))),
      map_option GInt (map_option uint (fr_Mode r)), map_option GInt (fr_UID r), map_option GInt (fr_GID r),
      if Normalize a (fr_Dest r) = [] then None else Some (GStr (Normalize a (fr_Dest r))),
      map_option GInt (fr_Size r), if fr_Flags r = 0 then None else Some (GInt (uint (fr_Flags r))),
      if fr_Recursive r then Some (GBool True) else None]))"
  unfolding fs_inputs_def opt_int_present if_present by simp

interpretation fs: fingerprinting "fs_ok a" "fs_inputs a" "fs_ident a" "\<lambda>r. fs_Fingerprint a (FsRequest r)" "''fs''"
  for a :: fs_Adapter
proof unfold_locales
  fix q q' :: fs_Request
  show "fs_ok a q \<Longrightarrow> canon_ok (fs_inputs a q)"
    by (simp add: fs_ok_def fs_inputs_def field_names ascii_hex split: option.splits)
  have opt: "map_option key_norm (map_option GInt x) = map_option key_norm (map_option GInt y) \<longleftrightarrow> x = y" for x y
    by (cases x; cases y) simp_all
  have word: "map_option uint x = map_option uint y \<longleftrightarrow> x = y" for x y :: "32 word option"
    by (cases x; cases y) (simp_all add: word_uint_eq_iff)
  have bits: "uint x = uint y \<longleftrightarrow> x = y" for x y :: "32 word"
    by (simp add: word_uint_eq_iff)
  show "(key_norm (fs_inputs a q) = key_norm (fs_inputs a q')) = (fs_ident a q = fs_ident a q')"
    unfolding fs_inputs_present by (subst key_norm_present) (auto simp: opt word bits hex_encode_inj fs_ident_def)
qed (simp add: fs_Fingerprint_def)

subsection \<open>Query normalisation\<close>

lemma collapse_ws_run:
  assumes "w \<noteq> []" "list_all is_perl_space w"
  shows "collapse_ws (w @ b) = collapse_ws (CHR '' '' # b)"
  using assms
proof (induction w)
  case (Cons c w)
  have blank: "is_perl_space (CHR '' '')" by (simp add: is_perl_space_def)
  show ?case
  proof (cases w)
    case Nil
    with Cons.prems blank show ?thesis by (cases b) simp_all
  next
    case (Cons d w')
    then show ?thesis
      using Cons.prems Cons.IH by simp
  qed
qed simp

lemma collapse_ws_cong:
  assumes "collapse_ws x = collapse_ws y" "x = [] \<longleftrightarrow> y = []" "x \<noteq> [] \<Longrightarrow> is_perl_space (hd x) = is_perl_space (hd y)"
  shows "collapse_ws (a @ x) = collapse_ws (a @ y)"
proof (induction a)
  case (Cons c a)
  show ?case
  proof (cases a)
    case Nil
    then show ?thesis
      using assms by (cases x; cases y) (auto split: if_splits)
  qed (use Cons in \<open>auto split: if_splits\<close>)
qed (simp add: assms(1))

lemma collapse_ws_middle:
  assumes "v \<noteq> []" "w \<noteq> []" "list_all is_perl_space v" "list_all is_perl_space w"
  shows "collapse_ws (a @ v @ b) = collapse_ws (a @ w @ b)"
  using assms collapse_ws_run[of v b] collapse_ws_run[of w b]
  by (intro collapse_ws_cong) (auto simp: neq_Nil_conv)

lemma lower_space: "is_perl_space c \<Longrightarrow> lower_char c = c \<and> (of_char c :: nat) < 128"
  by (auto simp: is_perl_space_def lower_char_def in_range_def)

subsection \<open>Properties\<close>

text \<open>The exec fingerprint of a request with UTF-8 text always exists and can name a
  cassette file; the text it hashes is the same for two requests exactly when argument vector,
  standard input and working directory agree, and requests that agree on them (whatever their
  environments) get the same fingerprint.\<close>

theorem exec_fingerprint_identifies:
  assumes "exec_ok q" "exec_ok r"
  shows "(\<exists>fp. exec_Fingerprint (ExecRequest q) = Inr fp \<and> key_ok (''exec'', fp))
    \<and> (CanonicalJSON (exec_inputs q) = CanonicalJSON (exec_inputs r)
       \<longleftrightarrow> er_Argv q = er_Argv r \<and> er_Stdin q = er_Stdin r \<and> er_Cwd q = er_Cwd r)
    \<and> (er_Argv q = er_Argv r \<longrightarrow> er_Stdin q = er_Stdin r \<longrightarrow> er_Cwd q = er_Cwd r \<longrightarrow>
       exec_Fingerprint (ExecRequest q) = exec_Fingerprint (ExecRequest r))"
  using exec.fp_total[OF assms(1)] exec.text_iff[OF assms] exec.fp_cong[OF assms]
  by (auto simp: key_ok_def field_names)

theorem exec_fingerprint_identifies_witness:
  "exec_Fingerprint (ExecRequest \<lparr>er_Argv = Some [''ls''], er_Stdin = [], er_Cwd = ''/'', er_Env = []\<rparr>)
     = exec_Fingerprint (ExecRequest \<lparr>er_Argv = Some [''ls''], er_Stdin = [], er_Cwd = ''/'', er_Env = [(''A'', ''b'')]\<rparr>)"
  using exec_fingerprint_identifies[of "\<lparr>er_Argv = Some [''ls''], er_Stdin = [], er_Cwd = ''/'', er_Env = []\<rparr>"
      "\<lparr>er_Argv = Some [''ls''], er_Stdin = [], er_Cwd = ''/'', er_Env = [(''A'', ''b'')]\<rparr>"]
  by (simp add: exec_ok_def field_names)

text \<open>The fs fingerprint hashes the same text for two mutations exactly when operation,
  normalised path and destination, the hash of the data, mode, owner, group, size, flags and
  recursiveness agree, where an optional field that is unset differs from one that is zero.\<close>

theorem fs_fingerprint_identifies:
  assumes "fs_ok a q" "fs_ok a r"
  shows "(\<exists>fp. fs_Fingerprint a (FsRequest q) = Inr fp \<and> key_ok (''fs'', fp))
    \<and> (CanonicalJSON (fs_inputs a q) = CanonicalJSON (fs_inputs a r) \<longleftrightarrow> fs_ident a q = fs_ident a r)"
  using fs.fp_total[OF assms(1)] fs.text_iff[OF assms] by (auto simp: key_ok_def field_names)

theorem fs_fingerprint_identifies_witness:
  "let q = \<lparr>fr_Op = ''mkdir'', fr_Path = ''/d'', fr_Data = [], fr_Mode = None, fr_UID = None, fr_GID = None,
            fr_Dest = [], fr_Size = None, fr_Flags = 0, fr_Recursive = False\<rparr>
   in CanonicalJSON (fs_inputs fs_NewAdapter q) \<noteq> CanonicalJSON (fs_inputs fs_NewAdapter (q\<lparr>fr_Mode := Some 0\<rparr>))"
proof -
  let ?q = "\<lparr>fr_Op = ''mkdir'', fr_Path = ''/d'', fr_Data = [], fr_Mode = None, fr_UID = None, fr_GID = None,
            fr_Dest = [], fr_Size = None, fr_Flags = 0, fr_Recursive = False\<rparr> :: fs_Request"
  have "fs_ok fs_NewAdapter ?q" "fs_ok fs_NewAdapter (?q\<lparr>fr_Mode := Some 0\<rparr>)"
    by (simp_all add: fs_ok_def Normalize_def fs_NewAdapter_def field_names)
  from fs_fingerprint_identifies[OF this] show ?thesis
    by (simp add: Let_def fs_ident_def)
qed

text \<open>The fingerprint of a query does not depend on how its words are spaced: replacing any
  run of white space inside an ASCII query by any other gives the same normalised query and the
  same fingerprint.\<close>

theorem sql_spacing_irrelevant:
  assumes "is_ascii a" "is_ascii b" "v \<noteq> []" "w \<noteq> []" "list_all is_perl_space v" "list_all is_perl_space w"
  shows "normalizeQuery U (a @ v @ b) = normalizeQuery U (a @ w @ b)
    \<and> sql_Fingerprint U (SqlRequest \<lparr>sr_Query = a @ v @ b, sr_Args = as\<rparr>)
      = sql_Fingerprint U (SqlRequest \<lparr>sr_Query = a @ w @ b, sr_Args = as\<rparr>)"
proof -
  have low: "to_lower U (a @ x @ b) = map lower_char a @ x @ map lower_char b" if "list_all is_perl_space x" for x
  proof -
    have "is_ascii (a @ x @ b)" using assms(1,2) that lower_space by (auto simp: is_ascii_def list_all_iff)
    moreover have "map lower_char x = x" using that lower_space by (intro map_idI) (auto simp: list_all_iff)
    ultimately show ?thesis by (simp add: to_lower_def)
  qed
  have "normalizeQuery U (a @ v @ b) = normalizeQuery U (a @ w @ b)"
    unfolding normalizeQuery_def low[OF assms(5)] low[OF assms(6)]
    by (rule arg_cong[OF collapse_ws_middle[OF assms(3-6)]])
  then show ?thesis
    by (simp add: sql_Fingerprint_def sql_inputs_def)
qed

theorem sql_spacing_irrelevant_witness:
  "normalizeQuery ascii_tables (''SELECT'' @ '' '' @ ''1'') = normalizeQuery ascii_tables (''SELECT'' @ [CHR 0x0A, CHR 0x09] @ ''1'')"
  using sql_spacing_irrelevant[of "''SELECT''" "''1''" "'' ''" "[CHR 0x0A, CHR 0x09]" ascii_tables]
  by (simp add: is_ascii_def is_perl_space_def)

text \<open>Redis arguments are joined with blanks before hashing, so the commands
  \<^verbatim>\<open>SET "a b"\<close> and \<^verbatim>\<open>SET a b\<close> share one fingerprint and
  overwrite each other's cassette.\<close>

theorem redis_argument_boundaries_lost:
  "redis_Fingerprint U (RedisRequest \<lparr>rr_Command = ''SET'', rr_Args = [''a b'']\<rparr>)
   = redis_Fingerprint U (RedisRequest \<lparr>rr_Command = ''SET'', rr_Args = [''a'', ''b'']\<rparr>)"
  by (simp add: redis_Fingerprint_def redis_inputs_def)

text \<open>The http fingerprint hashes the decoded path, so an escaped slash and a real one, two
  different resources, share one fingerprint.\<close>

theorem http_escaped_slash_collides:
  "http_Fingerprint (\<lambda>_. None) (HttpRequest \<lparr>hr_Method = m, hr_URL = ''http://h/a%2Fb'', hr_Headers = hs, hr_Body = b\<rparr>)
   = http_Fingerprint (\<lambda>_. None) (HttpRequest \<lparr>hr_Method = m, hr_URL = ''http://h/a/b'', hr_Headers = hs, hr_Body = b\<rparr>)"
proof -
  have "url_Parse (\<lambda>_. None) ''http://h/a%2Fb'' = Inr (''/a/b'', [])" by code_simp
  moreover have "url_Parse (\<lambda>_. None) ''http://h/a/b'' = Inr (''/a/b'', [])" by code_simp
  ultimately show ?thesis
    by (simp add: http_Fingerprint_def http_inputs_def)
qed

text \<open>The payload of every response is a mapping, and one the encoder can write when its texts are
  UTF-8.\<close>

lemma plain_responses:
  "utf8_valid (ep_Stdout xp) \<Longrightarrow> utf8_valid (ep_Stderr xp) \<Longrightarrow> plain (exec_response_fields xp)"
  "plain (rd_Result rp) \<Longrightarrow> plain (redis_response_fields rp)"
  "list_all (\<lambda>row. plain (GMap row)) (sp_Rows sp) \<Longrightarrow> plain (sql_response_fields sp)"
  "plain (str_map (hp_Headers hp)) \<Longrightarrow> utf8_valid (hp_Body hp) \<Longrightarrow> plain (http_response_fields hp)"
  "plain (grpc_response_fields gp)" "plain (fs_response_fields fp)"
  by (auto simp: exec_response_fields_def redis_response_fields_def sql_response_fields_def http_response_fields_def
      grpc_response_fields_def fs_response_fields_def yaml_bytes_def field_names list_all_iff)

lemmas adapter_defs = exec_adapter_def redis_adapter_def sql_adapter_def http_adapter_def grpc_adapter_def fs_adapter_def

lemma adapter_sel [simp]:
  "a_ID exec_adapter = ''exec''" "a_Fingerprint exec_adapter = exec_Fingerprint" "a_fields exec_adapter = request_fields"
  "a_ID (redis_adapter U) = ''redis''" "a_Fingerprint (redis_adapter U) = redis_Fingerprint U"
  "a_fields (redis_adapter U) = request_fields"
  "a_ID (fs_adapter a) = ''fs''" "a_Fingerprint (fs_adapter a) = fs_Fingerprint a" "a_fields (fs_adapter a) = request_fields"
  by (simp_all add: adapter_defs)

text \<open>Payloads of the exec adapter without secrets, for closed examples.\<close>

lemmas not_secret_simps = IsSecretKey_def default_redactor_def NewRedactor_def benignKeys_def secretKeyExact_def
  secretKeyPrefixes_def secretKeyWords_def

lemmas tree_redact_simps = tree_world_def tree_yaml_def redactNode_def redactScalar_def isEnvelopeMetaKey_def

lemma untouched_exec_samples:
  "untouched (NewFileCassette d) tree_world (GMap [(''argv'', GList [GStr ''x''])])"
  "untouched (NewFileCassette d) tree_world (GMap [(''stdout'', GStr ''x''), (''exit_code'', GInt i)])"
proof -
  have p: "printable ''stdout''" "printable ''argv''" by (simp_all add: printable_def)
  have "normalizeKey ascii_tables ''stdout'' = ''STDOUT''" "normalizeKey ascii_tables ''argv'' = ''ARGV''"
    unfolding p[THEN normalizeKey_printable] by code_simp+
  then have "IsSecretKey default_redactor ''stdout'' = False" "IsSecretKey default_redactor ''argv'' = False"
    by (simp_all add: not_secret_simps)
  moreover have "IsSecretValue default_redactor ''x'' = False" by code_simp
  ultimately have "RedactField default_redactor ''argv'' ''x'' = (''x'', False)"
    "RedactField default_redactor ''stdout'' ''x'' = (''x'', False)" by (simp_all add: RedactField_def)
  then show "untouched (NewFileCassette d) tree_world (GMap [(''argv'', GList [GStr ''x''])])"
    "untouched (NewFileCassette d) tree_world (GMap [(''stdout'', GStr ''x''), (''exit_code'', GInt i)])"
    by (simp_all add: untouched_def tree_redactor)
      (simp_all add: tree_redact_simps)
qed

end
