(* ===== verification/Stream_Model.thy ===== *)
theory Stream_Model
  imports Adapters
begin

section \<open>Streamed interactions (stream.go)\<close>

text \<open>
  The data model of a streamed pair, its validation with the declarative predicate it decides,
  and the fingerprint of a streamed open, an instance of the \<open>fingerprinting\<close> contract.
\<close>

subsection \<open>Data\<close>

definition StreamServer :: string where "StreamServer = ''server''"
definition StreamClient :: string where "StreamClient = ''client''"
definition StreamBidi :: string where "StreamBidi = ''bidi''"

lemmas stream_types = StreamServer_def StreamClient_def StreamBidi_def

record StreamFrame =
  f_Seq :: int
  f_Message :: bytes
  f_Text :: bool
  f_AtMs :: "int option"

record StreamEvent =
  e_Seq :: int
  e_AtMs :: "int option"

record ReqStream =
  rq_Type :: string
  rq_Frames :: "StreamFrame list"
  rq_HalfClose :: "StreamEvent option"

record RespStream =
  rp_Frames :: "StreamFrame list"
  rp_End :: StreamEvent

text \<open>A nil payload map and an empty one are written alike; both are the empty list.\<close>

record StreamPair =
  p_Req :: ReqStream
  p_Resp :: RespStream
  p_ReqPayload :: "(string \<times> gval) list"
  p_RespPayload :: "(string \<times> gval) list"
  p_RecordedAt :: string
  p_RecordedErr :: string

subsection \<open>Validation\<close>

definition stream_type_ok :: "string \<Rightarrow> bool" where
  "stream_type_ok t \<longleftrightarrow> t = StreamServer \<or> t = StreamClient \<or> t = StreamBidi"

definition bad_type :: "string \<Rightarrow> goerr" where
  "bad_type t = ErrNew (''xrr: stream type '' @ t @ '' invalid (want server|client|bidi)'')"

text \<open>The closure \<^verbatim>\<open>add\<close>, on its state: the numbers seen and the greatest one.\<close>

definition add_seq :: "int \<Rightarrow> string \<Rightarrow> int list \<times> int \<Rightarrow> (int list \<times> int) res" where
  "add_seq seq what = (\<lambda>(seen, maxSeq).
     if seq < 0 then Inl (ErrNew (''xrr: '' @ what @ '' seq '' @ show_int seq @ '' is negative''))
     else if seq \<in> set seen
     then Inl (ErrNew (''xrr: duplicate seq '' @ show_int seq @ '' across pair ('' @ what @ '')''))
     else Inr (seq # seen, if seq > maxSeq then seq else maxSeq))"

text \<open>The loop of \<^verbatim>\<open>addFrames\<close> from index \<open>i\<close> on.\<close>

fun add_frames :: "string \<Rightarrow> nat \<Rightarrow> int \<Rightarrow> StreamFrame list \<Rightarrow> int list \<times> int \<Rightarrow> (int list \<times> int) res" where
  "add_frames side i prev [] st = Inr st"
| "add_frames side i prev (f # fs) st =
     (case add_seq (f_Seq f) (side @ '' frame '' @ show_nat i) st of
        Inl e \<Rightarrow> Inl e
      | Inr st' \<Rightarrow>
          if f_Seq f \<le> prev
          then Inl (ErrNew (''xrr: '' @ side @ '' frames not strictly ascending at index '' @ show_nat i))
          else add_frames side (Suc i) (f_Seq f) fs st')"

definition ValidateStreamPair :: "StreamPair \<Rightarrow> goerr option" where
  "ValidateStreamPair p =
     (if \<not> stream_type_ok (rq_Type (p_Req p)) then Some (bad_type (rq_Type (p_Req p)))
      else (case add_frames ''req'' 0 (-1) (rq_Frames (p_Req p)) ([], -1) of
          Inl e \<Rightarrow> Some e
        | Inr st1 \<Rightarrow>
            (case add_frames ''resp'' 0 (-1) (rp_Frames (p_Resp p)) st1 of
               Inl e \<Rightarrow> Some e
             | Inr st2 \<Rightarrow>
                 (case (case rq_HalfClose (p_Req p) of
                          None \<Rightarrow> Inr st2
                        | Some h \<Rightarrow> add_seq (e_Seq h) ''half_close'' st2) of
                    Inl e \<Rightarrow> Some e
                  | Inr st3 \<Rightarrow>
                      (case add_seq (e_Seq (rp_End (p_Resp p))) ''end'' st3 of
                         Inl e \<Rightarrow> Some e
                       | Inr (seen, maxSeq) \<Rightarrow>
                           if e_Seq (rp_End (p_Resp p)) \<noteq> maxSeq
                           then Some (ErrNew (''xrr: end.seq '' @ show_int (e_Seq (rp_End (p_Resp p)))
                                   @ '' is not the maximum seq '' @ show_int maxSeq))
                           else None)))))"

text \<open>What the validation decides.\<close>

definition events_before_end :: "StreamPair \<Rightarrow> int list" where
  "events_before_end p =
     map f_Seq (rq_Frames (p_Req p)) @ map f_Seq (rp_Frames (p_Resp p))
     @ (case rq_HalfClose (p_Req p) of None \<Rightarrow> [] | Some h \<Rightarrow> [e_Seq h])"

definition valid_pair :: "StreamPair \<Rightarrow> bool" where
  "valid_pair p \<longleftrightarrow> stream_type_ok (rq_Type (p_Req p))
     \<and> sorted_wrt (<) (map f_Seq (rq_Frames (p_Req p)))
     \<and> sorted_wrt (<) (map f_Seq (rp_Frames (p_Resp p)))
     \<and> distinct (events_before_end p)
     \<and> list_all (\<lambda>s. 0 \<le> s \<and> s < e_Seq (rp_End (p_Resp p))) (events_before_end p)
     \<and> 0 \<le> e_Seq (rp_End (p_Resp p))"

subsection \<open>Opens and their fingerprints\<close>

record StreamOpen =
  so_AdapterID :: string
  so_Type :: string
  so_Identity :: "(string \<times> gval) list"
  so_Counter :: bool
  so_Payload :: "(string \<times> gval) list"

definition stream_inputs :: "StreamOpen \<Rightarrow> int \<Rightarrow> gval" where
  "stream_inputs op n = GMap
     (so_Identity op @ [(''stream'', GStr (so_Type op))] @ (if n \<ge> 0 then [(''n'', GInt n)] else []))"

definition streamCanonical :: "StreamOpen \<Rightarrow> int \<Rightarrow> bytes res" where
  "streamCanonical op n =
     (if \<not> stream_type_ok (so_Type op) then Inl (bad_type (so_Type op))
      else (case find (\<lambda>(k, v). k = ''stream'' \<or> k = ''n'') (so_Identity op) of
          Some (k, v) \<Rightarrow> Inl (ErrNew (''xrr: stream identity key '' @ k @ '' is reserved for core injection''))
        | None \<Rightarrow>
            (case CanonicalJSON (stream_inputs op n) of
               Inl e \<Rightarrow> Inl (ErrWrap ''xrr: stream fingerprint marshal'' e)
             | Inr canonical \<Rightarrow> Inr canonical)))"

definition StreamFingerprint :: "StreamOpen \<Rightarrow> int \<Rightarrow> string res" where
  "StreamFingerprint op n =
     (if so_Counter op \<and> n < 0
      then Inl (ErrNew (''xrr: stream occurrence n must be >= 0, got '' @ show_int n))
      else (case streamCanonical op (if so_Counter op then n else -1) of
          Inl e \<Rightarrow> Inl e
        | Inr canonical \<Rightarrow> Inr (sum4 canonical)))"

subsection \<open>Validation decides validity\<close>

lemma add_seq_Inr:
  "add_seq s what (seen, m) = Inr st \<longleftrightarrow> 0 \<le> s \<and> s \<notin> set seen \<and> st = (s # seen, max s m)"
  by (auto simp: add_seq_def max_def)

lemma add_frames_Inr:
  "add_frames side i prev fs (seen, m) = Inr st \<longleftrightarrow>
     sorted_wrt (<) (prev # map f_Seq fs) \<and> list_all (\<lambda>s. 0 \<le> s) (map f_Seq fs)
     \<and> distinct (map f_Seq fs) \<and> set (map f_Seq fs) \<inter> set seen = {}
     \<and> st = (rev (map f_Seq fs) @ seen, fold max (map f_Seq fs) m)"
proof (induction fs arbitrary: i prev seen m)
  case (Cons f fs)
  show ?case
  proof (cases "add_seq (f_Seq f) (side @ '' frame '' @ show_nat i) (seen, m)")
    case (Inl e)
    then have "\<not> (0 \<le> f_Seq f \<and> f_Seq f \<notin> set seen)"
      using add_seq_Inr[of "f_Seq f" "side @ '' frame '' @ show_nat i" seen m "(f_Seq f # seen, max (f_Seq f) m)"] by auto
    with Inl show ?thesis by auto
  next
    case (Inr st')
    then have "0 \<le> f_Seq f" "f_Seq f \<notin> set seen" "st' = (f_Seq f # seen, max (f_Seq f) m)"
      by (simp_all add: add_seq_Inr)
    moreover have "sorted_wrt (<) (prev # map f_Seq (f # fs)) \<longleftrightarrow> prev < f_Seq f \<and> sorted_wrt (<) (f_Seq f # map f_Seq fs)"
      by force
    ultimately show ?thesis
      using Inr Cons.IH[of "Suc i" "f_Seq f" "f_Seq f # seen" "max (f_Seq f) m"]
      by (simp del: sorted_wrt.simps) (auto simp: not_le)
  qed
qed auto

lemma fold_max_le: "fold max xs (m :: int) \<le> b \<longleftrightarrow> m \<le> b \<and> (\<forall>x \<in> set xs. x \<le> b)"
  by (induction xs arbitrary: m) auto

lemma on_Inr_None: "(case x of Inl e \<Rightarrow> Some e | Inr y \<Rightarrow> f y) = None \<longleftrightarrow> (\<exists>y. x = Inr y \<and> f y = None)"
  by (cases x) auto

lemma ValidateStreamPair_steps:
  "ValidateStreamPair p = None \<longleftrightarrow> stream_type_ok (rq_Type (p_Req p)) \<and>
     (\<exists>st1. add_frames ''req'' 0 (-1) (rq_Frames (p_Req p)) ([], -1) = Inr st1 \<and>
     (\<exists>st2. add_frames ''resp'' 0 (-1) (rp_Frames (p_Resp p)) st1 = Inr st2 \<and>
     (\<exists>st3. (case rq_HalfClose (p_Req p) of None \<Rightarrow> Inr st2 | Some h \<Rightarrow> add_seq (e_Seq h) ''half_close'' st2) = Inr st3 \<and>
     (\<exists>seen m. add_seq (e_Seq (rp_End (p_Resp p))) ''end'' st3 = Inr (seen, m) \<and> e_Seq (rp_End (p_Resp p)) = m))))"
  by (simp add: ValidateStreamPair_def on_Inr_None)

lemma seqs_valid:
  fixes q r h :: "int list"
  assumes "distinct h"
  shows "((sorted_wrt (<) ((-1) # q) \<and> list_all (\<lambda>s. 0 \<le> s) q \<and> distinct q)
     \<and> (sorted_wrt (<) ((-1) # r) \<and> list_all (\<lambda>s. 0 \<le> s) r \<and> distinct r \<and> set r \<inter> set q = {})
     \<and> (list_all (\<lambda>s. 0 \<le> s) h \<and> set h \<inter> (set r \<union> set q) = {})
     \<and> 0 \<le> e \<and> e \<notin> set h \<union> set r \<union> set q \<and> e = max e (fold max h (fold max r (fold max q (-1)))))
   \<longleftrightarrow> sorted_wrt (<) q \<and> sorted_wrt (<) r \<and> distinct (q @ r @ h) \<and> list_all (\<lambda>s. 0 \<le> s \<and> s < e) (q @ r @ h) \<and> 0 \<le> e"
  (is "?L \<longleftrightarrow> ?R")
proof -
  let ?A = "set h \<union> set r \<union> set q"
  have asc: "sorted_wrt (<) ((-1) # xs) \<longleftrightarrow> sorted_wrt (<) xs" if "list_all (\<lambda>s. 0 \<le> s) xs" for xs :: "int list"
    using that by (auto simp: list_all_iff)
  have max: "e = max e X \<longleftrightarrow> X \<le> e" for X by (auto simp: max_def)
  have top: "0 \<le> e \<and> e \<notin> ?A \<and> e = max e (fold max h (fold max r (fold max q (-1)))) \<longleftrightarrow> 0 \<le> e \<and> (\<forall>x \<in> ?A. x < e)"
    unfolding max fold_max_le by (auto simp: order_le_less)
  have disj: "distinct (q @ r @ h) \<longleftrightarrow> distinct q \<and> distinct r \<and> set r \<inter> set q = {} \<and> set h \<inter> (set r \<union> set q) = {}"
    using assms by auto
  have all: "list_all (\<lambda>s. 0 \<le> s \<and> s < e) (q @ r @ h)
      \<longleftrightarrow> list_all (\<lambda>s. 0 \<le> s) q \<and> list_all (\<lambda>s. 0 \<le> s) r \<and> list_all (\<lambda>s. 0 \<le> s) h \<and> (\<forall>x \<in> ?A. x < e)"
    by (auto simp: list_all_iff)
  show ?thesis
    unfolding disj all using asc[of q] asc[of r] top by (metis (no_types, lifting))
qed

lemma ValidateStreamPair_iff: "ValidateStreamPair p = None \<longleftrightarrow> valid_pair p"
proof -
  let ?q = "map f_Seq (rq_Frames (p_Req p))" and ?r = "map f_Seq (rp_Frames (p_Resp p))"
    and ?h = "case rq_HalfClose (p_Req p) of None \<Rightarrow> [] | Some h \<Rightarrow> [e_Seq h]" and ?e = "e_Seq (rp_End (p_Resp p))"
  have close: "(case rq_HalfClose (p_Req p) of None \<Rightarrow> Inr (seen, m) | Some h \<Rightarrow> add_seq (e_Seq h) ''half_close'' (seen, m)) = Inr st
      \<longleftrightarrow> list_all (\<lambda>s. 0 \<le> s) ?h \<and> set ?h \<inter> set seen = {} \<and> st = (?h @ seen, fold max ?h m)" for seen m st
    by (cases "rq_HalfClose (p_Req p)") (auto simp: add_seq_Inr)
  have "ValidateStreamPair p = None \<longleftrightarrow> stream_type_ok (rq_Type (p_Req p))
     \<and> (sorted_wrt (<) ((-1) # ?q) \<and> list_all (\<lambda>s. 0 \<le> s) ?q \<and> distinct ?q)
     \<and> (sorted_wrt (<) ((-1) # ?r) \<and> list_all (\<lambda>s. 0 \<le> s) ?r \<and> distinct ?r \<and> set ?r \<inter> set ?q = {})
     \<and> (list_all (\<lambda>s. 0 \<le> s) ?h \<and> set ?h \<inter> (set ?r \<union> set ?q) = {})
     \<and> 0 \<le> ?e \<and> ?e \<notin> set ?h \<union> set ?r \<union> set ?q \<and> ?e = max ?e (fold max ?h (fold max ?r (fold max ?q (-1))))"
    unfolding ValidateStreamPair_steps add_frames_Inr
    by (simp add: add_frames_Inr close add_seq_Inr del: sorted_wrt.simps set_map)
  also have "\<dots> \<longleftrightarrow> valid_pair p"
    unfolding valid_pair_def events_before_end_def
    by (subst seqs_valid) (simp_all split: option.split)
  finally show ?thesis .
qed

subsection \<open>What a streamed open is identified by\<close>

definition reserved :: "string \<Rightarrow> bool" where
  "reserved k \<longleftrightarrow> k = ''stream'' \<or> k = ''n''"

definition open_ok :: "StreamOpen \<Rightarrow> bool" where
  "open_ok op \<longleftrightarrow> stream_type_ok (so_Type op) \<and> distinct (map fst (so_Identity op))
     \<and> list_all (\<lambda>(k, v). \<not> reserved k) (so_Identity op) \<and> canon_ok (GMap (so_Identity op))"

definition occurrence :: "StreamOpen \<Rightarrow> int \<Rightarrow> int" where
  "occurrence op n = (if so_Counter op then n else -1)"

definition stream_ident where
  "stream_ident = (\<lambda>(op, n). (key_norm (GMap (so_Identity op)), so_Type op, occurrence op n))"

abbreviation stream_key_ok :: "StreamOpen \<times> int \<Rightarrow> bool" where
  "stream_key_ok \<equiv> (\<lambda>(op, n). open_ok op \<and> (so_Counter op \<longrightarrow> 0 \<le> n))"

lemma occurrence_ge: "stream_key_ok (op, n) \<Longrightarrow> -1 \<le> occurrence op n"
  by (auto simp: occurrence_def)

lemma stream_type_utf8: "stream_type_ok t \<Longrightarrow> utf8_valid t"
  by (auto simp: stream_type_ok_def stream_types field_names)

lemma stream_inputs_canon: "open_ok op \<Longrightarrow> canon_ok (stream_inputs op n)"
  using stream_type_utf8 by (auto simp: open_ok_def stream_inputs_def field_names)

lemma open_ok_find: "open_ok op \<Longrightarrow> find (\<lambda>(k, v). k = ''stream'' \<or> k = ''n'') (so_Identity op) = None"
  by (auto simp: open_ok_def find_None_iff list_all_iff reserved_def)

lemma streamCanonical_ok: "open_ok op \<Longrightarrow> streamCanonical op n = CanonicalJSON (stream_inputs op n)"
  using canon_ok_json_ok[OF stream_inputs_canon, of op n] open_ok_find[of op]
  by (simp add: streamCanonical_def open_ok_def CanonicalJSON_rfc)

lemma StreamFingerprint_ok:
  "stream_key_ok (op, n) \<Longrightarrow> StreamFingerprint op n = marshal_fingerprint who (stream_inputs op (occurrence op n))"
  using canon_ok_json_ok[OF stream_inputs_canon, of op "occurrence op n"]
  by (auto simp: StreamFingerprint_def streamCanonical_ok marshal_fingerprint_def CanonicalFingerprint_def
      occurrence_def CanonicalJSON_rfc)

lemma reserved_lookup: "open_ok op \<Longrightarrow> reserved k \<Longrightarrow> map_of (so_Identity op) k = None"
  by (auto simp: open_ok_def list_all_iff map_of_eq_None_iff)

lemma stream_lookup:
  assumes "open_ok op" "stream_inputs op n = GMap kvs"
  shows "map_of kvs k =
    (if k = ''stream'' then Some (GStr (so_Type op))
     else if k = ''n'' then (if n \<ge> 0 then Some (GInt n) else None)
     else map_of (so_Identity op) k)"
  using assms reserved_lookup[OF assms(1), of "''stream''"] reserved_lookup[OF assms(1), of "''n''"]
  by (auto simp: stream_inputs_def reserved_def map_add_def split: option.splits)

lemma stream_inputs_distinct: "open_ok op \<Longrightarrow> stream_inputs op n = GMap kvs \<Longrightarrow> distinct (map fst kvs)"
  using reserved_lookup[of op "''stream''"] reserved_lookup[of op "''n''"]
  by (auto simp: open_ok_def stream_inputs_def reserved_def map_of_eq_None_iff)

lemma stream_inputs_eq:
  assumes "open_ok op" "open_ok op'" "-1 \<le> n" "-1 \<le> n'"
  shows "key_norm (stream_inputs op n) = key_norm (stream_inputs op' n') \<longleftrightarrow>
    key_norm (GMap (so_Identity op)) = key_norm (GMap (so_Identity op')) \<and> so_Type op = so_Type op' \<and> n = n'"
proof -
  obtain kvs lvs where kl: "stream_inputs op n = GMap kvs" "stream_inputs op' n' = GMap lvs"
    by (simp add: stream_inputs_def)
  define A where "A k = map_option key_norm (map_of (so_Identity op) k)" for k
  define B where "B k = map_option key_norm (map_of (so_Identity op') k)" for k
  have ident: "key_norm (GMap (so_Identity op)) = key_norm (GMap (so_Identity op')) \<longleftrightarrow> (\<forall>k. A k = B k)"
    unfolding A_def B_def using assms(1,2) by (intro key_norm_maps) (simp_all add: open_ok_def)
  have res: "A k = None" "B k = None" if "reserved k" for k
    using that assms(1,2) by (simp_all add: A_def B_def reserved_lookup)
  have "key_norm (stream_inputs op n) = key_norm (stream_inputs op' n') \<longleftrightarrow>
      (\<forall>k. map_option key_norm (map_of kvs k) = map_option key_norm (map_of lvs k))"
    unfolding kl using assms kl by (intro key_norm_maps stream_inputs_distinct)
  also have "\<dots> \<longleftrightarrow> (\<forall>k. \<not> reserved k \<longrightarrow> A k = B k) \<and> so_Type op = so_Type op'
      \<and> (if n \<ge> 0 then Some (GInt n) else None) = (if n' \<ge> 0 then Some (GInt n') else None)"
    unfolding stream_lookup[OF assms(1) kl(1)] stream_lookup[OF assms(2) kl(2)]
    by (auto simp: A_def B_def reserved_def split: if_splits)
  also have "(\<forall>k. \<not> reserved k \<longrightarrow> A k = B k) \<longleftrightarrow> (\<forall>k. A k = B k)"
    using res by metis
  finally show ?thesis
    unfolding ident using assms(3,4) by (auto split: if_splits)
qed

interpretation stream: fingerprinting stream_key_ok "\<lambda>(op, n). stream_inputs op (occurrence op n)" stream_ident
  "\<lambda>(op, n). StreamFingerprint op n" "''stream''"
proof unfold_locales
  fix q q' :: "StreamOpen \<times> int"
  obtain op n op' n' where q: "q = (op, n)" "q' = (op', n')" by (cases q; cases q')
  show "stream_key_ok q \<Longrightarrow> canon_ok (case q of (op, n) \<Rightarrow> stream_inputs op (occurrence op n))"
    by (auto simp: q stream_inputs_canon)
  show "stream_key_ok q \<Longrightarrow> (case q of (op, n) \<Rightarrow> StreamFingerprint op n)
      = marshal_fingerprint ''stream'' (case q of (op, n) \<Rightarrow> stream_inputs op (occurrence op n))"
    by (simp add: q StreamFingerprint_ok)
  show "stream_key_ok q \<Longrightarrow> stream_key_ok q' \<Longrightarrow>
      (key_norm (case q of (op, n) \<Rightarrow> stream_inputs op (occurrence op n))
       = key_norm (case q' of (op, n) \<Rightarrow> stream_inputs op (occurrence op n))) = (stream_ident q = stream_ident q')"
    using stream_inputs_eq[of op op' "occurrence op n" "occurrence op' n'"] occurrence_ge[of op n] occurrence_ge[of op' n']
    by (simp add: q stream_ident_def)
qed

subsection \<open>Properties\<close>

text \<open>C5: Validation accepts a pair exactly when its type is known, the frames of each side are
  strictly ascending, no sequence number occurs twice across the pair, none is negative, and
  the terminal event comes after everything else.\<close>

theorem validate_stream_pair_decides:
  "ValidateStreamPair p = None \<longleftrightarrow> valid_pair p"
  by (rule ValidateStreamPair_iff)

text \<open>A streamed open is filed under its identity: the text that is hashed is the same for
  two opens exactly when their identity maps, stream types and, for counter-addressed opens, the
  occurrence numbers agree; the fingerprint exists and can name a file.\<close>

theorem stream_fingerprint_identifies:
  assumes "open_ok op" "open_ok op'" "so_Counter op \<Longrightarrow> 0 \<le> n" "so_Counter op' \<Longrightarrow> 0 \<le> n'"
  shows "(\<exists>fp. StreamFingerprint op n = Inr fp \<and> length fp = 8 \<and> list_all is_lower_hex fp)
    \<and> (CanonicalJSON (stream_inputs op (occurrence op n)) = CanonicalJSON (stream_inputs op' (occurrence op' n'))
       \<longleftrightarrow> key_norm (GMap (so_Identity op)) = key_norm (GMap (so_Identity op'))
         \<and> so_Type op = so_Type op' \<and> occurrence op n = occurrence op' n')"
  using stream.fp_total[of "(op, n)"] stream.text_iff[of "(op, n)" "(op', n')"] assms
  by (simp add: stream_ident_def)

theorem stream_fingerprint_identifies_witness:
  "let op = \<lparr>so_AdapterID = ''grpc'', so_Type = ''bidi'', so_Identity = [(''method'', GStr ''m'')], so_Counter = True, so_Payload = []\<rparr>
   in CanonicalJSON (stream_inputs op 0) \<noteq> CanonicalJSON (stream_inputs op 1)"
proof -
  let ?op = "\<lparr>so_AdapterID = ''grpc'', so_Type = ''bidi'', so_Identity = [(''method'', GStr ''m'')], so_Counter = True, so_Payload = []\<rparr>"
  have "open_ok ?op"
    by (simp add: open_ok_def stream_type_ok_def stream_types reserved_def field_names)
  from stream_fingerprint_identifies[OF this this, of 0 1] show ?thesis
    by (simp add: Let_def occurrence_def)
qed

text \<open>The streaming and the unary fingerprint spaces are disjoint: no streamed open is ever
  hashed as the same text as a unary gRPC request.\<close>

theorem stream_and_unary_texts_differ:
  assumes "open_ok op" "grpc_ok r"
  shows "CanonicalJSON (stream_inputs op n) \<noteq> CanonicalJSON (grpc_inputs r)"
proof
  assume "CanonicalJSON (stream_inputs op n) = CanonicalJSON (grpc_inputs r)"
  then have eq: "key_norm (stream_inputs op n) = key_norm (grpc_inputs r)"
    using stream_inputs_canon[OF assms(1)] grpc.inputs_ok[OF assms(2)] by (simp only: CanonicalJSON_eq_iff)
  obtain kvs where kvs: "stream_inputs op n = GMap kvs" by (simp add: stream_inputs_def)
  have "map_option key_norm (map_of kvs ''stream'') = None"
    using eq unfolding kvs grpc_inputs_def
    by (subst (asm) key_norm_maps) (simp_all add: stream_inputs_distinct[OF assms(1) kvs])
  then show False
    by (simp add: stream_lookup[OF assms(1) kvs])
qed

theorem stream_and_unary_texts_differ_witness:
  "CanonicalJSON (stream_inputs \<lparr>so_AdapterID = ''grpc'', so_Type = ''bidi'', so_Identity = [(''method'', GStr ''m'')],
      so_Counter = True, so_Payload = []\<rparr> 0)
   \<noteq> CanonicalJSON (grpc_inputs \<lparr>gr_Service = ''s'', gr_Method = ''m'', gr_Message = []\<rparr>)"
  by (rule stream_and_unary_texts_differ)
    (simp_all add: open_ok_def stream_type_ok_def stream_types reserved_def field_names grpc_ok_def)

end
