(* ===== verification/Base64.thy ===== *)
theory Base64
  imports Xrr_Prelude
begin

section \<open>Standard base64 with padding (package encoding/base64 and decodeStrictB64)\<close>

text \<open>
  The encoder writes \<^verbatim>\<open>message_b64\<close> fields, \<^verbatim>\<open>decodeStrictB64\<close>
  (stream.go) reads them back. The library's decoder is modelled for input without line breaks:
  it would skip carriage returns and line feeds, but the scan in front of it has rejected them.
  The texts of errors leave out the quoted character and, for the library's error, the offset.
\<close>

subsection \<open>Encoding and strict decoding\<close>

text \<open>The alphabet: upper case, lower case, digits, plus and slash.\<close>

definition b64_char :: "nat \<Rightarrow> char" where
  "b64_char n =
     (if n < 26 then char_of (65 + n)
      else if n < 52 then char_of (71 + n)
      else if n < 62 then char_of (n - 4)
      else if n = 62 then char_of (43 :: nat)
      else char_of (47 :: nat))"

definition b64_val :: "char \<Rightarrow> nat option" where
  "b64_val c =
     (let n = of_char c in
      if 65 \<le> n \<and> n \<le> 90 then Some (n - 65)
      else if 97 \<le> n \<and> n \<le> 122 then Some (n - 71)
      else if 48 \<le> n \<and> n \<le> 57 then Some (n + 4)
      else if n = 43 then Some 62
      else if n = 47 then Some 63
      else None)"

abbreviation pad :: char where "pad \<equiv> CHR ''=''"

fun b64_encode :: "bytes \<Rightarrow> string" where
  "b64_encode [] = []"
| "b64_encode [a] = (let x = of_char a in [b64_char (x div 4), b64_char (x mod 4 * 16), pad, pad])"
| "b64_encode [a, b] =
     (let x = of_char a; y = of_char b in
      [b64_char (x div 4), b64_char (x mod 4 * 16 + y div 16), b64_char (y mod 16 * 4), pad])"
| "b64_encode (a # b # c # r) =
     (let x = of_char a; y = of_char b; z = of_char c in
      [b64_char (x div 4), b64_char (x mod 4 * 16 + y div 16),
       b64_char (y mod 16 * 4 + z div 64), b64_char (z mod 64)] @ b64_encode r)"

text \<open>
  \<^verbatim>\<open>base64.StdEncoding.Strict().DecodeString\<close>: quanta of four characters, padding
  only in the last one, and the unused low bits of a padded quantum must be zero.
\<close>

fun b64_decode :: "string \<Rightarrow> bytes option" where
  "b64_decode [] = Some []"
| "b64_decode (a # b # c # d # r) =
     (case (b64_val a, b64_val b) of
        (Some x, Some y) \<Rightarrow>
          if c = pad then
            (if d = pad \<and> r = [] \<and> y mod 16 = 0 then Some [char_of (x * 4 + y div 16)] else None)
          else (case b64_val c of
            None \<Rightarrow> None
          | Some z \<Rightarrow>
              if d = pad then
                (if r = [] \<and> z mod 4 = 0
                 then Some [char_of (x * 4 + y div 16), char_of (y mod 16 * 16 + z div 4)] else None)
              else (case b64_val d of
                None \<Rightarrow> None
              | Some w \<Rightarrow>
                  map_option (\<lambda>t. [char_of (x * 4 + y div 16), char_of (y mod 16 * 16 + z div 4),
                      char_of (z mod 4 * 64 + w)] @ t)
                    (b64_decode r)))
      | _ \<Rightarrow> None)"
| "b64_decode _ = None"

definition b64_scan_ok :: "char \<Rightarrow> bool" where
  "b64_scan_ok c \<longleftrightarrow>
     in_range CHR ''A'' CHR ''Z'' c \<or> in_range CHR ''a'' CHR ''z'' c \<or> in_range CHR ''0'' CHR ''9'' c
     \<or> c = CHR ''+'' \<or> c = CHR ''/'' \<or> c = CHR ''=''"

definition decodeStrictB64 :: "string \<Rightarrow> bytes res" where
  "decodeStrictB64 s =
     (case find (\<lambda>i. \<not> b64_scan_ok (s ! i)) [0..<length s] of
        Some i \<Rightarrow> Inl (ErrNew (''invalid base64 character at index '' @ show_nat i))
      | None \<Rightarrow> (case b64_decode s of
            None \<Rightarrow> Inl (ErrNew ''illegal base64 data'')
          | Some b \<Rightarrow> Inr b))"

subsection \<open>The codec\<close>

lemma b64_val_char: "n < 64 \<Longrightarrow> b64_val (b64_char n) = Some n"
  by (auto simp: b64_val_def b64_char_def Let_def)

lemma b64_char_val:
  assumes "b64_val c = Some n"
  shows "n < 64 \<and> b64_char n = c"
proof -
  obtain m :: nat where m: "m < 256" "c = char_of m"
    by (rule that[of "of_char c"]) simp_all
  from assms m(1) show ?thesis
    unfolding m(2) by (auto simp: b64_val_def b64_char_def Let_def split: if_splits)
qed

lemma b64_char_not_pad: "n < 64 \<Longrightarrow> b64_char n \<noteq> pad"
  using b64_val_char[of n] by (auto simp: b64_val_def)

lemma octet_lt: "(of_char c :: nat) < 256"
  by simp

lemma sextet_bounds:
  "(of_char a :: nat) div 4 < 64" "(of_char a :: nat) mod 4 * 16 + (of_char b :: nat) div 16 < 64"
  "(of_char b :: nat) mod 16 * 4 + (of_char c :: nat) div 64 < 64" "(of_char c :: nat) mod 64 < 64"
  "(of_char a :: nat) mod 4 * 16 < 64" "(of_char b :: nat) mod 16 * 4 < 64"
  using octet_lt[of a] octet_lt[of b] octet_lt[of c] by linarith+

lemma octet_eqI: "(of_char a :: nat) = n \<Longrightarrow> char_of n = a"
  by auto

lemma b64_decode_encode: "b64_decode (b64_encode b) = Some b"
proof (induction b rule: b64_encode.induct)
  case (2 a)
  have "char_of ((of_char a :: nat) div 4 * 4 + of_char a mod 4 * 16 div 16) = a"
    by (intro octet_eqI) simp
  then show ?case
    by (simp add: Let_def b64_val_char sextet_bounds)
next
  case (3 a b)
  let ?x = "of_char a :: nat" and ?y = "of_char b :: nat"
  have y: "?y div 16 < 16" using octet_lt[of b] by linarith
  have "char_of (?x div 4 * 4 + (?x mod 4 * 16 + ?y div 16) div 16) = a"
    using y by (intro octet_eqI) (simp add: div_mult_self3)
  moreover have "char_of ((?x mod 4 * 16 + ?y div 16) mod 16 * 16 + ?y mod 16 * 4 div 4) = b"
    using y by (intro octet_eqI) (simp add: mod_mult_self3)
  ultimately show ?case
    by (simp add: Let_def b64_val_char b64_char_not_pad sextet_bounds)
next
  case (4 a b c r)
  let ?x = "of_char a :: nat" and ?y = "of_char b :: nat" and ?z = "of_char c :: nat"
  have yz: "?y div 16 < 16" "?z div 64 < 4" using octet_lt[of b] octet_lt[of c] by linarith+
  have "char_of (?x div 4 * 4 + (?x mod 4 * 16 + ?y div 16) div 16) = a"
    using yz by (intro octet_eqI) (simp add: div_mult_self3)
  moreover have "char_of ((?x mod 4 * 16 + ?y div 16) mod 16 * 16 + (?y mod 16 * 4 + ?z div 64) div 4) = b"
    using yz by (intro octet_eqI) (simp add: mod_mult_self3 div_mult_self3)
  moreover have "char_of ((?y mod 16 * 4 + ?z div 64) mod 4 * 64 + ?z mod 64) = c"
    using yz by (intro octet_eqI) (simp add: mod_mult_self3)
  ultimately show ?case
    using 4 by (simp add: Let_def b64_val_char b64_char_not_pad sextet_bounds)
qed simp

text \<open>The octets that a quantum of sextets packs, and how the encoder unpacks them.\<close>

lemma octet_of_sextets:
  fixes x y z w :: nat
  assumes "x < 64" "y < 64" "z < 64" "w < 64"
  shows "of_char (char_of (x * 4 + y div 16)) = x * 4 + y div 16"
    and "of_char (char_of (y mod 16 * 16 + z div 4)) = y mod 16 * 16 + z div 4"
    and "of_char (char_of (z mod 4 * 64 + w)) = z mod 4 * 64 + w"
proof -
  have "x * 4 + y div 16 < 256" using assms by linarith
  then show "of_char (char_of (x * 4 + y div 16)) = x * 4 + y div 16" by simp
  have "y mod 16 < 16" "z div 4 < 16" using assms by linarith+
  then have "y mod 16 * 16 + z div 4 < 256" by linarith
  then show "of_char (char_of (y mod 16 * 16 + z div 4)) = y mod 16 * 16 + z div 4" by simp
  have "z mod 4 < 4" by simp
  then have "z mod 4 * 64 + w < 256" using assms by linarith
  then show "of_char (char_of (z mod 4 * 64 + w)) = z mod 4 * 64 + w" by simp
qed

lemma sextets_of_octets:
  fixes x y z w :: nat
  assumes "x < 64" "y < 64" "z < 64" "w < 64"
  shows "(x * 4 + y div 16) div 4 = x"
    and "(x * 4 + y div 16) mod 4 * 16 + (y mod 16 * 16 + z div 4) div 16 = y"
    and "(y mod 16 * 16 + z div 4) mod 16 * 4 + (z mod 4 * 64 + w) div 64 = z"
    and "(z mod 4 * 64 + w) mod 64 = w"
proof -
  have b: "y div 16 < 4" "z div 4 < 16" using assms by linarith+
  show "(x * 4 + y div 16) div 4 = x" using b by simp
  show "(x * 4 + y div 16) mod 4 * 16 + (y mod 16 * 16 + z div 4) div 16 = y" using b by simp
  show "(y mod 16 * 16 + z div 4) mod 16 * 4 + (z mod 4 * 64 + w) div 64 = z" using b assms by simp
  show "(z mod 4 * 64 + w) mod 64 = w" using assms by simp
qed

lemma b64_encode_decode: "b64_decode s = Some b \<Longrightarrow> b64_encode b = s"
proof (induction s arbitrary: b rule: b64_decode.induct)
  case (2 a b' c d r)
  from 2(2) obtain x y where xy: "b64_val a = Some x" "b64_val b' = Some y"
    by (auto split: option.splits)
  note cx = b64_char_val[OF xy(1)] and cy = b64_char_val[OF xy(2)]
  show ?case
  proof (cases "c = pad")
    case True
    with 2(2) xy have e: "d = pad" "r = []" "y mod 16 = 0" "b = [char_of (x * 4 + y div 16)]"
      by (auto split: if_splits)
    have y: "y div 16 * 16 = y" using e(3) by presburger
    have "y div 16 < 4" using cy by linarith
    then have "(x * 4 + y div 16) mod 4 = y div 16" by simp
    then show ?thesis
      using True e(1,2) cx cy y octet_of_sextets(1)[of x y 0 0] sextets_of_octets(1)[of x y 0 0]
      unfolding e(4) by (simp add: Let_def)
  next
    case c: False
    with 2(2) xy obtain z where z: "b64_val c = Some z" by (auto split: option.splits)
    note cz = b64_char_val[OF z]
    show ?thesis
    proof (cases "d = pad")
      case True
      with 2(2) xy z c have e: "r = []" "z mod 4 = 0"
        "b = [char_of (x * 4 + y div 16), char_of (y mod 16 * 16 + z div 4)]"
        by (auto split: if_splits)
      have "z div 4 * 4 = z" using e(2) by presburger
      moreover have "z div 4 < 16" using cz by linarith
      then have "(y mod 16 * 16 + z div 4) mod 16 = z div 4" by simp
      ultimately show ?thesis
        using True e(1) cx cy cz octet_of_sextets(1,2)[of x y z 0] sextets_of_octets(1,2)[of x y z 0]
        unfolding e(3) by (simp add: Let_def del: mod_mult_self3 div_mult_self3)
    next
      case d: False
      with 2(2) xy z c obtain w t where w: "b64_val d = Some w" "b64_decode r = Some t"
        and b: "b = [char_of (x * 4 + y div 16), char_of (y mod 16 * 16 + z div 4),
          char_of (z mod 4 * 64 + w)] @ t"
        by (auto split: option.splits)
      note cw = b64_char_val[OF w(1)]
      have "b64_encode t = r"
        using 2(1)[OF refl _ _ c z d w(1,2)] xy by simp
      then show ?thesis
        using cx cy cz cw octet_of_sextets[of x y z w] sextets_of_octets[of x y z w]
        unfolding b by (simp add: Let_def del: mod_mult_self3 div_mult_self3)
    qed
  qed
qed simp_all

lemma b64_scan_encode: "list_all b64_scan_ok (b64_encode b)"
proof -
  have sign: "char_of (43 :: nat) = CHR ''+''" "char_of (47 :: nat) = CHR ''/''"
    by (rule octet_eqI, simp)+
  have "b64_scan_ok (b64_char n)" if "n < 64" for n
    using that by (auto simp: b64_char_def b64_scan_ok_def in_range_def sign)
  moreover have "b64_scan_ok pad" by (simp add: b64_scan_ok_def)
  ultimately show ?thesis
    by (induction b rule: b64_encode.induct) (simp_all add: Let_def sextet_bounds)
qed

lemma decodeStrictB64_iff: "decodeStrictB64 s = Inr b \<longleftrightarrow> s = b64_encode b"
proof
  assume "decodeStrictB64 s = Inr b"
  then have "b64_decode s = Some b"
    by (auto simp: decodeStrictB64_def split: option.splits)
  then show "s = b64_encode b" by (simp add: b64_encode_decode)
next
  assume s: "s = b64_encode b"
  then have "find (\<lambda>i. \<not> b64_scan_ok (s ! i)) [0..<length s] = None"
    using b64_scan_encode[of b] by (auto simp: find_None_iff list_all_length)
  with s show "decodeStrictB64 s = Inr b"
    by (simp add: decodeStrictB64_def b64_decode_encode)
qed

interpretation b64: canonical_codec "\<lambda>_. True" b64_encode "\<lambda>s. case decodeStrictB64 s of Inr b \<Rightarrow> Some b | Inl e \<Rightarrow> None"
proof unfold_locales
  show "(case decodeStrictB64 (b64_encode x) of Inr b \<Rightarrow> Some b | Inl e \<Rightarrow> None) = Some x" for x
    by (simp add: decodeStrictB64_iff[THEN iffD2])
  show "True \<and> b64_encode x = y" if "(case decodeStrictB64 y of Inr b \<Rightarrow> Some b | Inl e \<Rightarrow> None) = Some x" for x y
    using that by (auto simp: decodeStrictB64_iff split: sum.splits)
qed

subsection \<open>Property\<close>

text \<open>Strict base64 reading accepts exactly the encoder's output: what is written is read
  back octet for octet, and no second spelling (white space, missing padding, data after the
  padding, stray low bits) of the same octets is accepted.\<close>

theorem strict_base64_canonical:
  "decodeStrictB64 s = Inr b \<longleftrightarrow> s = b64_encode b"
  by (rule decodeStrictB64_iff)

end
