(* ===== verification/Stream_Cassette.thy ===== *)
theory Stream_Cassette
  imports Stream_Model Base64
begin

section \<open>Streamed cassettes (stream\_cassette.go)\<close>

text \<open>
  Parsing and emitting the \<^verbatim>\<open>stream\<close> field of a streamed pair of files. The results:
  a pair that was saved loads back, and the two kinds of cassette are never taken for each
  other.
\<close>

subsection \<open>Reading\<close>

record streamFile =
  sf_payload :: "(string \<times> gval) list"
  sf_recordedAt :: string
  sf_recordedErr :: string
  sf_stream :: "wireStream option"

fun is_scalar :: "ynode \<Rightarrow> bool" where
  "is_scalar (YScalar tag v) = True"
| "is_scalar _ = False"

fun node_tag :: "ynode \<Rightarrow> string" where
  "node_tag (YScalar tag v) = tag"
| "node_tag _ = []"

definition readStreamFile :: "FileCassette \<Rightarrow> string \<Rightarrow> string \<Rightarrow> string \<Rightarrow> 'd world \<Rightarrow> streamFile res" where
  "readStreamFile c adapterID fingerprint kind w =
     (case os_ReadFile (cassette_path c adapterID fingerprint kind) w of
        Inl e \<Rightarrow> Inl (if os_IsNotExist e then ErrCassetteMiss else ErrWrap (''xrr: read '' @ kind) e)
      | Inr data \<Rightarrow>
          (case y_unmarshal (w_yaml w) data of
             Inl e \<Rightarrow> Inl (ErrWrap (''xrr: unmarshal envelope '' @ kind) e)
           | Inr raw \<Rightarrow>
               (case raw ''payload'' of
                  None \<Rightarrow> Inl (ErrNew (''xrr: missing payload in '' @ kind))
                | Some payloadNode \<Rightarrow>
                    (case y_map (w_yaml w) payloadNode of
                       Inl e \<Rightarrow> Inl (ErrWrap (''xrr: decode payload '' @ kind) e)
                     | Inr m \<Rightarrow>
                         let payload = (case m of None \<Rightarrow> [] | Some kvs \<Rightarrow> kvs);
                             recordedAt = (case raw ''recorded_at'' of
                                 Some node \<Rightarrow> if is_scalar node then node_value node else [] | None \<Rightarrow> []);
                             recordedErr = (case raw ''error'' of
                                 Some node \<Rightarrow> if is_scalar node \<and> node_tag node \<noteq> ''!!null'' then node_value node else []
                               | None \<Rightarrow> [])
                         in (case raw ''stream'' of
                               None \<Rightarrow> Inr \<lparr>sf_payload = payload, sf_recordedAt = recordedAt,
                                           sf_recordedErr = recordedErr, sf_stream = None\<rparr>
                             | Some node \<Rightarrow>
                                 (case y_wire (w_yaml w) node of
                                    Inl e \<Rightarrow> Inl (ErrWrap (''xrr: decode stream '' @ kind) e)
                                  | Inr ws \<Rightarrow> Inr \<lparr>sf_payload = payload, sf_recordedAt = recordedAt,
                                               sf_recordedErr = recordedErr, sf_stream = Some ws\<rparr>))))))"

text \<open>The body of the loop of \<^verbatim>\<open>parseWireFrames\<close> for the frame at index \<open>i\<close>.\<close>

definition parse_wire_frame :: "string \<Rightarrow> nat \<Rightarrow> wireFrame \<Rightarrow> StreamFrame res" where
  "parse_wire_frame side i fr =
     (let at = ''xrr: '' @ side @ '' frame '' @ show_nat i in
      case wf_Seq fr of
        None \<Rightarrow> Inl (ErrNew (at @ '' missing seq''))
      | Some seq \<Rightarrow>
          (case (wf_MessageB64 fr, wf_MessageText fr) of
             (Some node, None) \<Rightarrow>
               if \<not> is_scalar node then Inl (ErrNew (at @ '' message_b64 is not a scalar''))
               else (case decodeStrictB64 (node_value node) of
                   Inl e \<Rightarrow> Inl (ErrWrap (at @ '' message_b64'') e)
                 | Inr msg \<Rightarrow> Inr \<lparr>f_Seq = seq, f_Message = msg, f_Text = False, f_AtMs = wf_AtMs fr\<rparr>)
           | (None, Some node) \<Rightarrow>
               if \<not> is_scalar node then Inl (ErrNew (at @ '' message_text is not a scalar''))
               else Inr \<lparr>f_Seq = seq, f_Message = node_value node, f_Text = True, f_AtMs = wf_AtMs fr\<rparr>
           | _ \<Rightarrow> Inl (ErrNew (at @ '' must have exactly one of message_b64/message_text''))))"

fun parse_wire_frames :: "string \<Rightarrow> nat \<Rightarrow> wireFrame list \<Rightarrow> StreamFrame list res" where
  "parse_wire_frames side i [] = Inr []"
| "parse_wire_frames side i (fr # r) =
     (case parse_wire_frame side i fr of
        Inl e \<Rightarrow> Inl e
      | Inr f \<Rightarrow> (case parse_wire_frames side (Suc i) r of Inl e \<Rightarrow> Inl e | Inr fs \<Rightarrow> Inr (f # fs)))"

definition parseWireFrames :: "wireFrame list \<Rightarrow> string \<Rightarrow> StreamFrame list res" where
  "parseWireFrames frames side = parse_wire_frames side 0 frames"

definition parseWireEvent :: "wireEvent option \<Rightarrow> string \<Rightarrow> bool \<Rightarrow> StreamEvent option res" where
  "parseWireEvent we what required =
     (case we of
        None \<Rightarrow> if required then Inl (ErrNew (''xrr: stream missing '' @ what)) else Inr None
      | Some ev \<Rightarrow>
          (case we_Seq ev of
             None \<Rightarrow> Inl (ErrNew (''xrr: '' @ what @ '' missing seq''))
           | Some s \<Rightarrow> Inr (Some \<lparr>e_Seq = s, e_AtMs = we_AtMs ev\<rparr>)))"

text \<open>The part of \<^verbatim>\<open>LoadStream\<close> after both files were read. The terminal event is
  required, so parsing it never gives a nil event.\<close>

definition parse_pair :: "streamFile \<Rightarrow> streamFile \<Rightarrow> StreamPair res" where
  "parse_pair reqFile respFile =
     (case (sf_stream reqFile, sf_stream respFile) of
        (None, None) \<Rightarrow> Inl (ErrWrap ''xrr: unary cassette pair in streaming code path'' ErrShapeMismatch)
      | (Some rs, Some ps) \<Rightarrow>
          (case ws_Type rs of
             None \<Rightarrow> Inl (ErrNew ''xrr: req stream missing type'')
           | Some typ \<Rightarrow>
               (case parseWireFrames (ws_Frames rs) ''req'' of
                  Inl e \<Rightarrow> Inl e
                | Inr qfs \<Rightarrow>
                    (case parseWireEvent (ws_HalfClose rs) ''half_close'' False of
                       Inl e \<Rightarrow> Inl e
                     | Inr hc \<Rightarrow>
                         (case parseWireFrames (ws_Frames ps) ''resp'' of
                            Inl e \<Rightarrow> Inl e
                          | Inr pfs \<Rightarrow>
                              (case parseWireEvent (ws_End ps) ''end'' True of
                                 Inl e \<Rightarrow> Inl e
                               | Inr None \<Rightarrow> Inl (ErrNew ''nil end'')
                               | Inr (Some en) \<Rightarrow>
                                   let pair = \<lparr>p_Req = \<lparr>rq_Type = typ, rq_Frames = qfs, rq_HalfClose = hc\<rparr>,
                                               p_Resp = \<lparr>rp_Frames = pfs, rp_End = en\<rparr>,
                                               p_ReqPayload = sf_payload reqFile,
                                               p_RespPayload = sf_payload respFile,
                                               p_RecordedAt = sf_recordedAt reqFile,
                                               p_RecordedErr = sf_recordedErr respFile\<rparr>
                                   in (case ValidateStreamPair pair of Some e \<Rightarrow> Inl e | None \<Rightarrow> Inr pair))))))
      | _ \<Rightarrow> Inl (ErrNew ''xrr: stream field present on one file of the pair but not the other''))"

definition LoadStream :: "FileCassette \<Rightarrow> string \<Rightarrow> string \<Rightarrow> 'd world \<Rightarrow> StreamPair res" where
  "LoadStream c adapterID fingerprint w =
     (case readStreamFile c adapterID fingerprint ''req'' w of
        Inl e \<Rightarrow> Inl e
      | Inr reqFile \<Rightarrow>
          (case readStreamFile c adapterID fingerprint ''resp'' w of
             Inl e \<Rightarrow> Inl e
           | Inr respFile \<Rightarrow> parse_pair reqFile respFile))"

subsection \<open>Writing\<close>

text \<open>The structs of the write side under their tags; a quoted scalar is a string. A nil slice
  of frames is written as an empty sequence.\<close>

definition frame_out :: "StreamFrame \<Rightarrow> gval" where
  "frame_out f = GMap
     ([(''seq'', GInt (f_Seq f))]
      @ (if f_Text f \<and> utf8_valid (f_Message f) then [(''message_text'', GStr (f_Message f))]
         else [(''message_b64'', GStr (b64_encode (f_Message f)))])
      @ opt_int ''at_ms'' (f_AtMs f))"

definition framesOut :: "StreamFrame list \<Rightarrow> gval" where
  "framesOut frames = GList (map frame_out frames)"

definition event_out :: "StreamEvent \<Rightarrow> gval" where
  "event_out e = GMap ([(''seq'', GInt (e_Seq e))] @ opt_int ''at_ms'' (e_AtMs e))"

definition req_stream_out :: "ReqStream \<Rightarrow> gval" where
  "req_stream_out r = GMap
     ([(''type'', GStr (rq_Type r)), (''frames'', framesOut (rq_Frames r))]
      @ (case rq_HalfClose r of None \<Rightarrow> [] | Some h \<Rightarrow> [(''half_close'', event_out h)]))"

definition resp_stream_out :: "RespStream \<Rightarrow> gval" where
  "resp_stream_out r = GMap [(''frames'', framesOut (rp_Frames r)), (''end'', event_out (rp_End r))]"

definition stream_envelope :: "string \<Rightarrow> string \<Rightarrow> string \<Rightarrow> string \<Rightarrow> (string \<times> gval) list \<Rightarrow> gval \<Rightarrow> gval" where
  "stream_envelope adapterID fingerprint recordedAt err payload stream = GMap
     ([(''xrr'', GStr ''1''), (''adapter'', GStr adapterID), (''fingerprint'', GStr fingerprint),
       (''recorded_at'', GStr recordedAt)] @ opt_str ''error'' err
      @ [(''payload'', GMap payload), (''stream'', stream)])"

definition writeStreamFile ::
  "FileCassette \<Rightarrow> string \<Rightarrow> string \<Rightarrow> string \<Rightarrow> gval \<Rightarrow> 'd world \<Rightarrow> goerr option \<times> 'd world" where
  "writeStreamFile c adapterID fingerprint kind env w =
     (case (case y_encode (w_yaml w) env of Inl e \<Rightarrow> Inl e | Inr n \<Rightarrow> y_marshal (w_yaml w) n) of
        Inl e \<Rightarrow> (Some (ErrWrap (''xrr: marshal '' @ kind) e), w)
      | Inr data \<Rightarrow> os_WriteFile (cassette_path c adapterID fingerprint kind) data w)"

definition SaveStream ::
  "FileCassette \<Rightarrow> string \<Rightarrow> string \<Rightarrow> StreamPair option \<Rightarrow> 'd world \<Rightarrow> goerr option \<times> 'd world" where
  "SaveStream c adapterID fingerprint pair w =
     (case pair of
        None \<Rightarrow> (Some (ErrNew ''xrr: nil stream pair''), w)
      | Some p \<Rightarrow>
          (case ValidateStreamPair p of
             Some e \<Rightarrow> (Some e, w)
           | None \<Rightarrow>
               let recordedAt = (if p_RecordedAt p = [] then w_now w else p_RecordedAt p) in
               (case writeStreamFile c adapterID fingerprint ''req''
                       (stream_envelope adapterID fingerprint recordedAt [] (p_ReqPayload p) (req_stream_out (p_Req p))) w of
                  (Some e, w1) \<Rightarrow> (Some e, w1)
                | (None, w1) \<Rightarrow>
                    writeStreamFile c adapterID fingerprint ''resp''
                      (stream_envelope adapterID fingerprint recordedAt (p_RecordedErr p) (p_RespPayload p)
                        (resp_stream_out (p_Resp p))) w1)))"

subsection \<open>Parsing what was emitted\<close>

text \<open>A frame keeps its preference for text only when its octets are text.\<close>

definition norm_frame :: "StreamFrame \<Rightarrow> StreamFrame" where
  "norm_frame f = f\<lparr>f_Text := (f_Text f \<and> utf8_valid (f_Message f))\<rparr>"

lemma view_event_out: "view_event (event_out e) = \<lparr>we_Seq = Some (e_Seq e), we_AtMs = e_AtMs e\<rparr>"
  by (cases "e_AtMs e") (simp_all add: view_event_def event_out_def)

lemma view_frame_out:
  "view_frame (frame_out f) =
     (if f_Text f \<and> utf8_valid (f_Message f)
      then \<lparr>wf_Seq = Some (f_Seq f), wf_MessageB64 = None,
            wf_MessageText = Some (YScalar ''!!str'' (f_Message f)), wf_AtMs = f_AtMs f\<rparr>
      else \<lparr>wf_Seq = Some (f_Seq f), wf_MessageB64 = Some (YScalar ''!!str'' (b64_encode (f_Message f))),
            wf_MessageText = None, wf_AtMs = f_AtMs f\<rparr>)"
  by (cases "f_AtMs f") (simp_all add: view_frame_def frame_out_def str_node_def)

lemma parse_frame_out: "parse_wire_frame side i (view_frame (frame_out f)) = Inr (norm_frame f)"
  by (cases f) (simp add: view_frame_out parse_wire_frame_def norm_frame_def decodeStrictB64_iff[THEN iffD2])

lemma parse_frames_out:
  "parse_wire_frames side i (map (\<lambda>f. view_frame (frame_out f)) fs) = Inr (map norm_frame fs)"
  by (induction fs arbitrary: i) (simp_all add: parse_frame_out)

lemma view_req_out:
  "view_stream (req_stream_out r) =
     \<lparr>ws_Type = Some (rq_Type r), ws_Frames = map (\<lambda>f. view_frame (frame_out f)) (rq_Frames r),
      ws_HalfClose = map_option (\<lambda>h. \<lparr>we_Seq = Some (e_Seq h), we_AtMs = e_AtMs h\<rparr>) (rq_HalfClose r),
      ws_End = None\<rparr>"
  by (cases "rq_HalfClose r")
    (simp_all add: view_stream_def req_stream_out_def framesOut_def view_event_out)

lemma view_resp_out:
  "view_stream (resp_stream_out r) =
     \<lparr>ws_Type = None, ws_Frames = map (\<lambda>f. view_frame (frame_out f)) (rp_Frames r),
      ws_HalfClose = None, ws_End = Some \<lparr>we_Seq = Some (e_Seq (rp_End r)), we_AtMs = e_AtMs (rp_End r)\<rparr>\<rparr>"
  by (simp add: view_stream_def resp_stream_out_def framesOut_def view_event_out)

text \<open>What can be written: numbers that fit, text that is UTF-8.\<close>

definition frame_fits :: "StreamFrame \<Rightarrow> bool" where
  "frame_fits f \<longleftrightarrow> in_int64 (f_Seq f) \<and> (case f_AtMs f of None \<Rightarrow> True | Some t \<Rightarrow> in_int64 t)"

definition event_fits :: "StreamEvent \<Rightarrow> bool" where
  "event_fits e \<longleftrightarrow> in_int64 (e_Seq e) \<and> (case e_AtMs e of None \<Rightarrow> True | Some t \<Rightarrow> in_int64 t)"

definition pair_fits :: "StreamPair \<Rightarrow> bool" where
  "pair_fits p \<longleftrightarrow> list_all frame_fits (rq_Frames (p_Req p)) \<and> list_all frame_fits (rp_Frames (p_Resp p))
     \<and> (case rq_HalfClose (p_Req p) of None \<Rightarrow> True | Some h \<Rightarrow> event_fits h) \<and> event_fits (rp_End (p_Resp p))
     \<and> plain (GMap (p_ReqPayload p)) \<and> plain (GMap (p_RespPayload p))
     \<and> utf8_valid (p_RecordedAt p) \<and> utf8_valid (p_RecordedErr p)"

lemma b64_utf8: "utf8_valid (b64_encode b)"
proof -
  have "(of_char c :: nat) < 128" if "b64_scan_ok c" for c
    using that by (auto simp: b64_scan_ok_def in_range_def)
  then have "is_ascii (b64_encode b)"
    using b64_scan_encode[of b] by (auto simp: is_ascii_def list_all_iff)
  then show ?thesis by (rule is_ascii_utf8_valid)
qed

lemma frame_out_good: "frame_fits f \<Longrightarrow> plain (frame_out f) \<and> frame_typed (frame_out f)"
  by (cases "f_AtMs f")
    (simp_all add: frame_out_def frame_typed_def frame_fits_def is_int64_def is_str_def field_names b64_utf8)

lemma event_out_good: "event_fits e \<Longrightarrow> plain (event_out e) \<and> event_typed (event_out e)"
  by (cases "e_AtMs e") (simp_all add: event_out_def event_typed_def event_fits_def is_int64_def field_names)

lemma framesOut_good:
  "list_all frame_fits fs \<Longrightarrow> plain (framesOut fs) \<and> (case framesOut fs of GList vs \<Rightarrow> list_all frame_typed vs | _ \<Rightarrow> False)"
  using frame_out_good by (simp add: framesOut_def list_all_iff)

lemma req_out_good:
  assumes "utf8_valid (rq_Type r)" "list_all frame_fits (rq_Frames r)"
    and "case rq_HalfClose r of None \<Rightarrow> True | Some h \<Rightarrow> event_fits h"
  shows "plain (req_stream_out r) \<and> stream_typed (req_stream_out r)"
  using assms(1,3) framesOut_good[OF assms(2)]
  by (cases "rq_HalfClose r") (simp_all add: req_stream_out_def stream_typed_def is_str_def field_names event_out_good)

lemma resp_out_good:
  assumes "list_all frame_fits (rp_Frames r)" "event_fits (rp_End r)"
  shows "plain (resp_stream_out r) \<and> stream_typed (resp_stream_out r)"
  using framesOut_good[OF assms(1)] event_out_good[OF assms(2)]
  by (simp add: resp_stream_out_def stream_typed_def field_names)

subsection \<open>Reading what was written\<close>

lemma writeStreamFile_other:
  assumes "writeStreamFile c a fp kind env w = (e, w')"
  shows "same_but_files w w'" "p \<noteq> cassette_path c a fp kind \<Longrightarrow> w_files w' p = w_files w p"
proof -
  have "w' = w \<or> (\<exists>d. os_WriteFile (cassette_path c a fp kind) d w = (e, w'))"
    using assms by (auto simp: writeStreamFile_def split: sum.splits)
  then show "same_but_files w w'" "p \<noteq> cassette_path c a fp kind \<Longrightarrow> w_files w' p = w_files w p"
    by (auto dest: os_WriteFile_other)
qed

lemma readStreamFile_cong:
  assumes "same_but_files w w'" "w_files w' (cassette_path c a fp kind) = w_files w (cassette_path c a fp kind)"
  shows "readStreamFile c a fp kind w' = readStreamFile c a fp kind w"
  unfolding readStreamFile_def os_ReadFile_def assms(2) same_but_files_fields(1,5)[OF assms(1)] by (rule refl)

text \<open>The nodes of a written stream file, by name.\<close>

lemma stream_file_nodes:
  assumes Y: "yaml_ok (w_yaml w)" and key: "key_ok (a, fp)"
    and utf8: "utf8_valid t" "utf8_valid e" and pl: "plain (GMap payload)" "plain st"
    and wr: "writeStreamFile c a fp kind (stream_envelope a fp t e payload st) w = (None, w')"
  obtains d n pn sn where "w_files w' (cassette_path c a fp kind) = Some d" "y_unmarshal (w_yaml w) d = Inr (node_lookup n)"
    "node_lookup n ''payload'' = Some pn" "y_encode (w_yaml w) (GMap payload) = Inr pn"
    "node_lookup n ''stream'' = Some sn" "y_encode (w_yaml w) st = Inr sn"
    "node_lookup n ''recorded_at'' = Some (YScalar ''!!str'' t)"
    "node_lookup n ''error'' = (if e = [] then None else Some (YScalar ''!!str'' e))"
proof -
  let ?Y = "w_yaml w"
  obtain kvs where kvs: "stream_envelope a fp t e payload st = GMap kvs"
    "kvs = [(''xrr'', GStr ''1''), (''adapter'', GStr a), (''fingerprint'', GStr fp), (''recorded_at'', GStr t)]
      @ opt_str ''error'' e @ [(''payload'', GMap payload), (''stream'', st)]"
    by (simp add: stream_envelope_def)
  have plain: "plain (GMap kvs)"
    using key_ok_utf8[OF key] utf8 pl by (auto simp: kvs(2) field_names)
  obtain n d where n: "y_encode ?Y (GMap kvs) = Inr n" and d: "y_marshal ?Y n = Inr d"
    and f: "os_WriteFile (cassette_path c a fp kind) d w = (None, w')"
    using wr by (auto simp: writeStreamFile_def kvs(1) split: sum.splits)
  have raw: "y_unmarshal ?Y d = Inr (node_lookup n)"
    using unmarshal_marshal[OF Y encode_settled[OF Y plain n] encode_map(1)[OF Y plain n] d] .
  have look: "rel_option (\<lambda>v m. y_encode ?Y v = Inr m) (map_of kvs k) (node_lookup n k)" for k
    by (rule encode_map(2)[OF Y plain n])
  obtain pn where pn: "node_lookup n ''payload'' = Some pn" "y_encode ?Y (GMap payload) = Inr pn"
    using look[of "''payload''"] by (auto simp: kvs(2) option_rel_Some1 split: if_splits)
  obtain sn where sn: "node_lookup n ''stream'' = Some sn" "y_encode ?Y st = Inr sn"
    using look[of "''stream''"] by (auto simp: kvs(2) option_rel_Some1 split: if_splits)
  have at: "node_lookup n ''recorded_at'' = Some (YScalar ''!!str'' t)"
    using look[of "''recorded_at''"] encode_str[OF Y utf8(1)] by (auto simp: kvs(2) option_rel_Some1 split: if_splits)
  have err: "node_lookup n ''error'' = (if e = [] then None else Some (YScalar ''!!str'' e))"
    using look[of "''error''"] encode_str[OF Y utf8(2)] by (auto simp: kvs(2) option_rel_Some1 split: if_splits)
  show thesis
    using that[OF os_WriteFile_ok[OF f] raw pn sn at err] .
qed

text \<open>What a payload map is decoded to.\<close>

definition stored_payload :: "'d world \<Rightarrow> (string \<times> gval) list \<Rightarrow> (string \<times> gval) list" where
  "stored_payload w kvs =
     (case y_encode (w_yaml w) (GMap kvs) of
        Inl e \<Rightarrow> []
      | Inr n \<Rightarrow> (case y_map (w_yaml w) n of Inr (Some lvs) \<Rightarrow> lvs | _ \<Rightarrow> []))"

lemma stored_payload_same:
  "store_ok c w \<Longrightarrow> plain (GMap kvs) \<Longrightarrow> key_norm (GMap (stored_payload w kvs)) = key_norm (GMap kvs)"
proof -
  assume w: "store_ok c w" and p: "plain (GMap kvs)"
  have Y: "yaml_ok (w_yaml w)" using w by (simp add: store_ok_def world_ok_def)
  obtain n where n: "y_encode (w_yaml w) (GMap kvs) = Inr n" by (rule encode_plain[OF Y p])
  obtain lvs where "y_map (w_yaml w) n = Inr (Some lvs)" "key_norm (GMap lvs) = key_norm (GMap kvs)"
    by (rule decode_map[OF Y p n])
  with n show ?thesis by (simp add: stored_payload_def)
qed

lemma stored_payload_cong: "same_but_files w w' \<Longrightarrow> stored_payload w' kvs = stored_payload w kvs"
  unfolding stored_payload_def using same_but_files_fields(1)[of w w'] by (simp cong: sum.case_cong)

lemma readStreamFile_write:
  assumes w: "store_ok c w" and key: "key_ok (a, fp)"
    and utf8: "utf8_valid t" "utf8_valid e" and pl: "plain (GMap payload)" "plain st" "stream_typed st"
    and wr: "writeStreamFile c a fp kind (stream_envelope a fp t e payload st) w = (None, w')"
  shows "readStreamFile c a fp kind w' =
    Inr \<lparr>sf_payload = stored_payload w payload, sf_recordedAt = t, sf_recordedErr = e, sf_stream = Some (view_stream st)\<rparr>"
proof -
  have Y: "yaml_ok (w_yaml w)" using w by (simp add: store_ok_def world_ok_def)
  obtain d n pn sn where f: "w_files w' (cassette_path c a fp kind) = Some d" "y_unmarshal (w_yaml w) d = Inr (node_lookup n)"
    and p: "node_lookup n ''payload'' = Some pn" "y_encode (w_yaml w) (GMap payload) = Inr pn"
    and s: "node_lookup n ''stream'' = Some sn" "y_encode (w_yaml w) st = Inr sn"
    and r: "node_lookup n ''recorded_at'' = Some (YScalar ''!!str'' t)"
      "node_lookup n ''error'' = (if e = [] then None else Some (YScalar ''!!str'' e))"
    by (rule stream_file_nodes[OF Y key utf8 pl(1,2) wr])
  obtain lvs where lvs: "y_map (w_yaml w) pn = Inr (Some lvs)"
    by (rule decode_map[OF Y pl(1) p(2)])
  have "y_wire (w_yaml w) sn = Inr (view_stream st)"
    by (rule decode_wire[OF Y pl(2,3) s(2)])
  moreover note sb = writeStreamFile_other(1)[OF wr]
  ultimately show ?thesis
    unfolding readStreamFile_def os_ReadFile_def same_but_files_fields(1,5)[OF sb] f(1)
    using w f(2) p s(1) r lvs by (simp add: store_ok_def Let_def stored_payload_def)
qed

text \<open>A saved pair as it is loaded again: stamped, its frames normal, its payloads decoded.\<close>

definition reloaded :: "StreamPair \<Rightarrow> string \<Rightarrow> (string \<times> gval) list \<Rightarrow> (string \<times> gval) list \<Rightarrow> StreamPair" where
  "reloaded p now q r =
     \<lparr>p_Req = (p_Req p)\<lparr>rq_Frames := map norm_frame (rq_Frames (p_Req p))\<rparr>,
      p_Resp = (p_Resp p)\<lparr>rp_Frames := map norm_frame (rp_Frames (p_Resp p))\<rparr>,
      p_ReqPayload = q, p_RespPayload = r,
      p_RecordedAt = (if p_RecordedAt p = [] then now else p_RecordedAt p),
      p_RecordedErr = p_RecordedErr p\<rparr>"

lemma norm_frame_seq [simp]: "f_Seq (norm_frame f) = f_Seq f" "f_Message (norm_frame f) = f_Message f"
  by (simp_all add: norm_frame_def)

lemma valid_reloaded: "valid_pair (reloaded p now q r) = valid_pair p"
  by (simp add: valid_pair_def events_before_end_def reloaded_def comp_def cong: option.case_cong)

lemma parse_pair_out:
  assumes "valid_pair p" and at: "at = (if p_RecordedAt p = [] then now else p_RecordedAt p)"
  shows "parse_pair
      \<lparr>sf_payload = q, sf_recordedAt = at, sf_recordedErr = e, sf_stream = Some (view_stream (req_stream_out (p_Req p)))\<rparr>
      \<lparr>sf_payload = r, sf_recordedAt = t, sf_recordedErr = p_RecordedErr p,
       sf_stream = Some (view_stream (resp_stream_out (p_Resp p)))\<rparr> = Inr (reloaded p now q r)"
proof -
  have hc: "parseWireEvent (map_option (\<lambda>h. \<lparr>we_Seq = Some (e_Seq h), we_AtMs = e_AtMs h\<rparr>) (rq_HalfClose (p_Req p)))
      ''half_close'' False = Inr (rq_HalfClose (p_Req p))"
    by (cases "rq_HalfClose (p_Req p)") (simp_all add: parseWireEvent_def)
  have en: "parseWireEvent (Some \<lparr>we_Seq = Some (e_Seq (rp_End (p_Resp p))), we_AtMs = e_AtMs (rp_End (p_Resp p))\<rparr>)
      ''end'' True = Inr (Some (rp_End (p_Resp p)))"
    by (simp add: parseWireEvent_def)
  have "ValidateStreamPair (reloaded p now q r) = None"
    using assms by (simp add: ValidateStreamPair_iff valid_reloaded)
  moreover have "reloaded p now q r =
      \<lparr>p_Req = \<lparr>rq_Type = rq_Type (p_Req p), rq_Frames = map norm_frame (rq_Frames (p_Req p)), rq_HalfClose = rq_HalfClose (p_Req p)\<rparr>,
       p_Resp = \<lparr>rp_Frames = map norm_frame (rp_Frames (p_Resp p)), rp_End = rp_End (p_Resp p)\<rparr>,
       p_ReqPayload = q, p_RespPayload = r, p_RecordedAt = at, p_RecordedErr = p_RecordedErr p\<rparr>"
    by (simp add: reloaded_def at)
  ultimately show ?thesis
    unfolding parse_pair_def view_req_out view_resp_out
    by (simp add: parseWireFrames_def parse_frames_out hc en)
qed

subsection \<open>The store of streamed pairs\<close>

definition save_stream_key :: "FileCassette \<Rightarrow> string \<times> string \<Rightarrow> StreamPair \<Rightarrow> 'd world \<Rightarrow> goerr option \<times> 'd world" where
  "save_stream_key c = (\<lambda>(a, fp) p. SaveStream c a fp (Some p))"

definition load_stream_key where
  "load_stream_key c = (\<lambda>(a, fp). LoadStream c a fp)"

definition loaded_stream :: "string \<times> string \<Rightarrow> StreamPair \<Rightarrow> 'd world \<Rightarrow> StreamPair res" where
  "loaded_stream k p w = Inr (reloaded p (w_now w) (stored_payload w (p_ReqPayload p)) (stored_payload w (p_RespPayload p)))"

lemma SaveStream_other:
  assumes "SaveStream c a fp po w = (r, w')"
  shows "same_but_files w w'"
    "p \<notin> {cassette_path c a fp ''req'', cassette_path c a fp ''resp''} \<Longrightarrow> w_files w' p = w_files w p"
proof -
  have "w' = w \<or> (\<exists>env e1 w1. writeStreamFile c a fp ''req'' env w = (e1, w1)
      \<and> (w' = w1 \<or> (\<exists>env'. writeStreamFile c a fp ''resp'' env' w1 = (r, w'))))"
    using assms by (fastforce simp: SaveStream_def Let_def split: option.splits prod.splits)
  then show "same_but_files w w'"
    "p \<notin> {cassette_path c a fp ''req'', cassette_path c a fp ''resp''} \<Longrightarrow> w_files w' p = w_files w p"
    by (auto dest: writeStreamFile_other(1) intro: same_but_files_trans)
      (simp add: writeStreamFile_other(2))+
qed

lemma LoadStream_cong:
  assumes "same_but_files w w'"
    and "\<And>kind. kind \<in> kinds \<Longrightarrow> w_files w' (cassette_path c a fp kind) = w_files w (cassette_path c a fp kind)"
  shows "LoadStream c a fp w' = LoadStream c a fp w"
proof -
  have "readStreamFile c a fp kind w' = readStreamFile c a fp kind w" if "kind \<in> kinds" for kind
    using readStreamFile_cong[OF assms(1) assms(2)[OF that]] .
  then show ?thesis unfolding LoadStream_def by (simp cong: sum.case_cong)
qed

lemma SaveStream_files:
  assumes w: "store_ok c w" and key: "key_ok (a, fp)" and fits: "pair_fits p"
    and sv: "SaveStream c a fp (Some p) w = (None, w')"
  defines "at \<equiv> if p_RecordedAt p = [] then w_now w else p_RecordedAt p"
  shows "valid_pair p"
    "readStreamFile c a fp ''req'' w' = Inr \<lparr>sf_payload = stored_payload w (p_ReqPayload p), sf_recordedAt = at,
       sf_recordedErr = [], sf_stream = Some (view_stream (req_stream_out (p_Req p)))\<rparr>"
    "readStreamFile c a fp ''resp'' w' = Inr \<lparr>sf_payload = stored_payload w (p_RespPayload p), sf_recordedAt = at,
       sf_recordedErr = p_RecordedErr p, sf_stream = Some (view_stream (resp_stream_out (p_Resp p)))\<rparr>"
proof -
  obtain w1 where v: "ValidateStreamPair p = None"
    and w1: "writeStreamFile c a fp ''req'' (stream_envelope a fp at [] (p_ReqPayload p) (req_stream_out (p_Req p))) w = (None, w1)"
    and w2: "writeStreamFile c a fp ''resp'' (stream_envelope a fp at (p_RecordedErr p) (p_RespPayload p)
        (resp_stream_out (p_Resp p))) w1 = (None, w')"
    using sv by (auto simp: SaveStream_def Let_def at_def split: option.splits prod.splits)
  show valid: "valid_pair p" using v by (simp add: ValidateStreamPair_iff)
  note s1 = writeStreamFile_other(1)[OF w1] and s2 = writeStreamFile_other(1)[OF w2]
  have at: "utf8_valid at" using w fits by (simp add: at_def store_ok_def world_ok_def pair_fits_def)
  have ty: "utf8_valid (rq_Type (p_Req p))"
    using valid by (simp add: valid_pair_def stream_type_utf8)
  have req: "plain (req_stream_out (p_Req p))" "stream_typed (req_stream_out (p_Req p))"
    using req_out_good[OF ty] fits by (simp_all add: pair_fits_def)
  have resp: "plain (resp_stream_out (p_Resp p))" "stream_typed (resp_stream_out (p_Resp p))"
    using resp_out_good fits by (simp_all add: pair_fits_def)
  have pay: "plain (GMap (p_ReqPayload p))" "plain (GMap (p_RespPayload p))" "utf8_valid (p_RecordedErr p)"
    using fits unfolding pair_fits_def by blast+
  have "cassette_path c a fp ''req'' \<noteq> cassette_path c a fp ''resp''"
    using cassette_path_inj[OF key key, of "''req''" "''resp''" c] by simp
  then have "readStreamFile c a fp ''req'' w' = readStreamFile c a fp ''req'' w1"
    using readStreamFile_cong[OF s2] writeStreamFile_other(2)[OF w2] by simp
  then show "readStreamFile c a fp ''req'' w' = Inr \<lparr>sf_payload = stored_payload w (p_ReqPayload p), sf_recordedAt = at,
       sf_recordedErr = [], sf_stream = Some (view_stream (req_stream_out (p_Req p)))\<rparr>"
    using readStreamFile_write[OF w key at _ pay(1) req w1] by simp
  have "store_ok c w1" using w store_ok_cong[OF s1] by simp
  then show "readStreamFile c a fp ''resp'' w' = Inr \<lparr>sf_payload = stored_payload w (p_RespPayload p), sf_recordedAt = at,
       sf_recordedErr = p_RecordedErr p, sf_stream = Some (view_stream (resp_stream_out (p_Resp p)))\<rparr>"
    using readStreamFile_write[OF _ key at pay(3,2) resp w2] stored_payload_cong[OF s1] by simp
qed

lemma LoadStream_SaveStream:
  assumes "store_ok c w" "key_ok (a, fp)" "pair_fits p" "SaveStream c a fp (Some p) w = (None, w')"
  shows "LoadStream c a fp w' = loaded_stream (a, fp) p w"
  unfolding LoadStream_def loaded_stream_def SaveStream_files(2,3)[OF assms]
  by (simp add: parse_pair_out[OF SaveStream_files(1)[OF assms] refl])

interpretation sc: keyed_store key_ok pair_fits "store_ok c" "save_stream_key c" "load_stream_key c" loaded_stream
  for c :: FileCassette
proof unfold_locales
  fix w w' :: "'d world" and k l :: "string \<times> string" and v u :: StreamPair
  obtain a fp b fq where k: "k = (a, fp)" and l: "l = (b, fq)" by (cases k; cases l)
  obtain r w1 where w1: "SaveStream c a fp (Some v) w = (r, w1)" by fastforce
  then have sk: "save_stream_key c k v w = (r, w1)" by (simp add: save_stream_key_def k)
  note o = SaveStream_other[OF w1]
  show "store_ok c w \<Longrightarrow> store_ok c (snd (save_stream_key c k v w))"
    using store_ok_cong[OF o(1)] by (simp add: sk)
  show "store_ok c w \<Longrightarrow> key_ok k \<Longrightarrow> pair_fits v \<Longrightarrow> save_stream_key c k v w = (None, w') \<Longrightarrow>
      load_stream_key c k w' = loaded_stream k v w"
    using LoadStream_SaveStream[of c w a fp v w'] by (simp add: save_stream_key_def load_stream_key_def k)
  show "loaded_stream l u (snd (save_stream_key c k v w)) = loaded_stream l u w"
    using stored_payload_cong[OF o(1)] same_but_files_fields(2)[OF o(1)] by (simp add: loaded_stream_def sk)
  show "load_stream_key c l (snd (save_stream_key c k v w)) = load_stream_key c l w"
    if "store_ok c w" "key_ok k" "key_ok l" "k \<noteq> l"
  proof -
    have "w_files w1 (cassette_path c b fq kind) = w_files w (cassette_path c b fq kind)" if "kind \<in> kinds" for kind
      using o(2) that \<open>key_ok k\<close> \<open>key_ok l\<close> \<open>k \<noteq> l\<close> k l by (auto simp: cassette_path_inj)
    from LoadStream_cong[OF o(1) this] show ?thesis
      by (simp add: load_stream_key_def l sk)
  qed
qed

lemma writeStreamFile_succeeds:
  assumes "yaml_ok (w_yaml w)" "plain env" "w_write_fault w (cassette_path c a fp kind) = None"
  shows "\<exists>w'. writeStreamFile c a fp kind env w = (None, w')"
proof -
  obtain n where n: "y_encode (w_yaml w) env = Inr n" by (rule encode_plain[OF assms(1,2)])
  obtain d where "y_marshal (w_yaml w) n = Inr d" by (rule marshal_encoded[OF assms(1,2) n])
  with n assms(3) show ?thesis by (simp add: writeStreamFile_def os_WriteFile_def)
qed

lemma stream_envelope_plain:
  "key_ok (a, fp) \<Longrightarrow> utf8_valid t \<Longrightarrow> utf8_valid e \<Longrightarrow> plain (GMap payload) \<Longrightarrow> plain st \<Longrightarrow>
   plain (stream_envelope a fp t e payload st)"
  using key_ok_utf8[of a fp] by (auto simp: stream_envelope_def field_names)

lemma SaveStream_succeeds:
  assumes w: "store_ok c w" "\<And>p. w_write_fault w p = None" and key: "key_ok (a, fp)"
    and p: "valid_pair p" "pair_fits p"
  shows "\<exists>w'. SaveStream c a fp (Some p) w = (None, w')"
proof -
  let ?at = "if p_RecordedAt p = [] then w_now w else p_RecordedAt p"
  have Y: "yaml_ok (w_yaml w)" "utf8_valid ?at"
    using w p(2) by (simp_all add: store_ok_def world_ok_def pair_fits_def)
  have pay: "plain (GMap (p_ReqPayload p))" "plain (GMap (p_RespPayload p))" "utf8_valid (p_RecordedErr p)"
    using p(2) unfolding pair_fits_def by blast+
  have req: "plain (req_stream_out (p_Req p))"
    using req_out_good[of "p_Req p"] p stream_type_utf8 by (simp add: pair_fits_def valid_pair_def)
  have resp: "plain (resp_stream_out (p_Resp p))"
    using resp_out_good[of "p_Resp p"] p(2) by (simp add: pair_fits_def)
  obtain w1 where w1: "writeStreamFile c a fp ''req''
      (stream_envelope a fp ?at [] (p_ReqPayload p) (req_stream_out (p_Req p))) w = (None, w1)"
    using writeStreamFile_succeeds[OF Y(1) stream_envelope_plain[OF key Y(2) _ pay(1) req]] w(2) by force
  note s1 = same_but_files_fields[OF writeStreamFile_other(1)[OF w1]]
  have "\<exists>w'. writeStreamFile c a fp ''resp''
      (stream_envelope a fp ?at (p_RecordedErr p) (p_RespPayload p) (resp_stream_out (p_Resp p))) w1 = (None, w')"
    using Y(1) w(2) s1 by (intro writeStreamFile_succeeds stream_envelope_plain key Y(2) pay(2,3) resp) simp_all
  moreover have "ValidateStreamPair p = None" using p(1) by (simp add: ValidateStreamPair_iff)
  ultimately show ?thesis
    using w1 by (simp add: SaveStream_def Let_def)
qed

lemma parse_pair_valid: "parse_pair q r = Inr p \<Longrightarrow> valid_pair p"
  by (auto simp: parse_pair_def Let_def ValidateStreamPair_iff[symmetric] split: option.splits sum.splits)

subsection \<open>Properties\<close>

text \<open>C12: Streamed cassettes round trip: on a disk that accepts writes, saving a valid pair whose
  numbers fit 64 bits and whose text is UTF-8 succeeds, and after any further saves under other
  keys loading it gives the pair back, every message octet for octet whether it was written as
  text or as base64, with the stamp of the save when it had none and payloads equal up to the
  order of object keys.\<close>

theorem stream_save_load:
  assumes "store_ok c w" "\<And>p. w_write_fault w p = None" "key_ok (a, fp)" "valid_pair p" "pair_fits p"
    and "list_all (\<lambda>(k, v). key_ok k \<and> k \<noteq> (a, fp)) later"
  shows "fst (SaveStream c a fp (Some p) w) = None
    \<and> LoadStream c a fp (fold (\<lambda>(k, v) w. snd (save_stream_key c k v w)) (((a, fp), p) # later) w)
      = Inr (reloaded p (w_now w) (stored_payload w (p_ReqPayload p)) (stored_payload w (p_RespPayload p)))
    \<and> key_norm (GMap (stored_payload w (p_ReqPayload p))) = key_norm (GMap (p_ReqPayload p))
    \<and> key_norm (GMap (stored_payload w (p_RespPayload p))) = key_norm (GMap (p_RespPayload p))"
proof -
  have fst: "fst (SaveStream c a fp (Some p) w) = None"
    using SaveStream_succeeds[OF assms(1-5)] by auto
  have pay: "plain (GMap (p_ReqPayload p))" "plain (GMap (p_RespPayload p))"
    using assms(5) unfolding pair_fits_def by blast+
  show ?thesis
    using fst sc.load_last_save[of c w "(a, fp)" p "[]" later] assms(1,3,5,6) stored_payload_same[OF assms(1)] pay
    by (simp add: save_stream_key_def load_stream_key_def loaded_stream_def)
qed

definition sample_pair :: StreamPair where
  "sample_pair =
     \<lparr>p_Req = \<lparr>rq_Type = ''bidi'', rq_Frames = [\<lparr>f_Seq = 0, f_Message = [CHR 0xFF], f_Text = True, f_AtMs = None\<rparr>],
               rq_HalfClose = Some \<lparr>e_Seq = 2, e_AtMs = Some 5\<rparr>\<rparr>,
      p_Resp = \<lparr>rp_Frames = [\<lparr>f_Seq = 1, f_Message = ''ok'', f_Text = True, f_AtMs = Some 3\<rparr>], rp_End = \<lparr>e_Seq = 3, e_AtMs = None\<rparr>\<rparr>,
      p_ReqPayload = [], p_RespPayload = [(''status_code'', GInt 0)], p_RecordedAt = [], p_RecordedErr = []\<rparr>"

lemma sample_pair_ok: "valid_pair sample_pair" "pair_fits sample_pair"
  by (simp_all add: sample_pair_def valid_pair_def events_before_end_def stream_type_ok_def stream_types pair_fits_def
      frame_fits_def event_fits_def in_int64_def field_names)

theorem stream_save_load_witness:
  "\<exists>q r. LoadStream (NewFileCassette ''d'') ''grpc'' ''0123abcd''
      (snd (SaveStream (NewFileCassette ''d'') ''grpc'' ''0123abcd'' (Some sample_pair) tree_world))
    = Inr (reloaded sample_pair ''2026-01-01T00:00:00Z'' q r)"
proof -
  have "key_ok (''grpc'', ''0123abcd'')" by code_simp
  moreover have "w_write_fault tree_world p = None" for p by (simp add: tree_world_def)
  ultimately have "LoadStream (NewFileCassette ''d'') ''grpc'' ''0123abcd''
      (fold (\<lambda>(k, v) w. snd (save_stream_key (NewFileCassette ''d'') k v w)) [((''grpc'', ''0123abcd''), sample_pair)] tree_world)
    = Inr (reloaded sample_pair (w_now tree_world) (stored_payload tree_world (p_ReqPayload sample_pair))
        (stored_payload tree_world (p_RespPayload sample_pair)))"
    using stream_save_load[of "NewFileCassette ''d''" tree_world "''grpc''" "''0123abcd''" sample_pair "[]"]
      tree_world_ok sample_pair_ok by simp
  then show ?thesis by (auto simp: save_stream_key_def tree_world_def)
qed

text \<open>C33: Validation cannot be bypassed: whatever is on disk and whatever the library makes of it,
  a pair that loads is valid, and a pair that is not valid is refused before anything is
  written.\<close>

theorem only_valid_pairs_pass:
  "(LoadStream c a fp w = Inr p \<longrightarrow> valid_pair p)
   \<and> (\<not> valid_pair q \<longrightarrow> (\<exists>e. SaveStream c a fp (Some q) w = (Some e, w)))"
proof (intro conjI impI)
  show "LoadStream c a fp w = Inr p \<Longrightarrow> valid_pair p"
    by (auto simp: LoadStream_def parse_pair_valid split: sum.splits)
  assume "\<not> valid_pair q"
  then obtain e where "ValidateStreamPair q = Some e"
    using ValidateStreamPair_iff[of q] by auto
  then show "\<exists>e. SaveStream c a fp (Some q) w = (Some e, w)" by (simp add: SaveStream_def)
qed

theorem only_valid_pairs_pass_witness:
  "\<exists>e. SaveStream (NewFileCassette ''d'') ''grpc'' ''0123abcd''
      (Some (sample_pair\<lparr>p_Req := (p_Req sample_pair)\<lparr>rq_Type := ''unary''\<rparr>\<rparr>)) tree_world = (Some e, tree_world)"
proof -
  have "\<not> valid_pair (sample_pair\<lparr>p_Req := (p_Req sample_pair)\<lparr>rq_Type := ''unary''\<rparr>\<rparr>)"
    by (simp add: valid_pair_def stream_type_ok_def stream_types)
  with only_valid_pairs_pass show ?thesis by blast
qed

text \<open>C38: The two cassette shapes are told apart: a streamed pair read through the unary path,
  and a unary pair read through the streaming path, fail with a shape mismatch and not with a
  cassette miss.\<close>

theorem shapes_are_told_apart:
  assumes "store_ok c w" "key_ok (a, fp)" "pair_fits p" "interaction_ok (req, resp, e)"
    and "stored_map w (activeRedactor c w) (normalizePayload req) = Inr q"
    and "stored_map w (activeRedactor c w) (normalizePayload resp) = Inr r"
  shows "(\<forall>w'. SaveStream c a fp (Some p) w = (None, w') \<longrightarrow>
            (\<exists>er. Load c a fp w' = Inl er \<and> err_is er ErrShapeMismatch \<and> \<not> err_is er ErrCassetteMiss))
    \<and> (\<forall>w'. Save c a fp req resp e w = (None, w') \<longrightarrow>
            (\<exists>er. LoadStream c a fp w' = Inl er \<and> err_is er ErrShapeMismatch \<and> \<not> err_is er ErrCassetteMiss))"
proof (intro conjI allI impI)
  fix w' assume "SaveStream c a fp (Some p) w = (None, w')"
  note f = SaveStream_files(2)[OF assms(1-3) this]
  obtain data raw node where "os_ReadFile (cassette_path c a fp ''req'') w' = Inr data"
    "y_unmarshal (w_yaml w') data = Inr raw" "raw ''stream'' = Some node"
    using f by (auto simp: readStreamFile_def Let_def split: sum.splits option.splits)
  then show "\<exists>er. Load c a fp w' = Inl er \<and> err_is er ErrShapeMismatch \<and> \<not> err_is er ErrCassetteMiss"
    by (simp add: Load_def Load_as_def fc_read_def fc_read_as_def)
next
  fix w' assume sv: "Save c a fp req resp e w = (None, w')"
  have "Load c a fp w' = Inr (q, r, errstr e)"
    using Load_Save[OF assms(1,2,4) sv] assms(5,6) by (simp add: loaded_def)
  then obtain x where u: "fc_read c a fp ''req'' w' = Inr x" "\<exists>y. fc_read c a fp ''resp'' w' = Inr y"
    by (auto simp: Load_def Load_as_def fc_read_def split: sum.splits prod.splits)
  have unary: "\<exists>f. readStreamFile c a fp kind w' = Inr f \<and> sf_stream f = None" if "fc_read c a fp kind w' = Inr y" for kind y
    using that by (auto simp: fc_read_def fc_read_as_def readStreamFile_def Let_def split: sum.splits option.splits if_splits)
  obtain f g where fg: "readStreamFile c a fp ''req'' w' = Inr f" "sf_stream f = None"
    "readStreamFile c a fp ''resp'' w' = Inr g" "sf_stream g = None"
    using unary u by blast
  then show "\<exists>er. LoadStream c a fp w' = Inl er \<and> err_is er ErrShapeMismatch \<and> \<not> err_is er ErrCassetteMiss"
    by (simp add: LoadStream_def parse_pair_def)
qed

theorem shapes_are_told_apart_witness:
  "\<exists>w' er. SaveStream (NewFileCassette ''d'') ''grpc'' ''0123abcd'' (Some sample_pair) tree_world = (None, w')
     \<and> Load (NewFileCassette ''d'') ''grpc'' ''0123abcd'' w' = Inl er \<and> err_is er ErrShapeMismatch"
proof -
  let ?c = "NewFileCassette ''d''"
  have k: "key_ok (''grpc'', ''0123abcd'')" "interaction_ok (None, None, None)" by code_simp+
  have "stored_map tree_world (activeRedactor ?c tree_world) (normalizePayload None) = Inr (Some [])"
    by (simp add: stored_map_def normalizePayload_def tree_redactor)
      (simp add: tree_world_def tree_yaml_def redactNode_def)
  note * = shapes_are_told_apart[OF tree_world_ok[of ?c] k(1) sample_pair_ok(2) k(2) this this]
  obtain w' where "SaveStream ?c ''grpc'' ''0123abcd'' (Some sample_pair) tree_world = (None, w')"
    using SaveStream_succeeds[OF tree_world_ok[of ?c] _ k(1) sample_pair_ok] by (auto simp: tree_world_def)
  with * show ?thesis by blast
qed

end
