(* ===== verification/Stream_Session.thy ===== *)
theory Stream_Session
  imports Stream_Cassette
begin

section \<open>Streamed record and replay (stream\_session.go, stream\_scrub.go)\<close>

text \<open>
  The occurrence counters of a session, the recording of a live stream and the replay of a
  recorded one. The methods of a recording and of a replay hold the handle's mutex from entry to
  return, so concurrent senders and receivers produce some sequence of whole method calls: a
  run is a list of calls, and what is proved of every list holds for every interleaving.
  The clock is an argument: the elapsed milliseconds the call reads.
\<close>

subsection \<open>Occurrence counters\<close>

definition nextStreamN :: "string \<Rightarrow> FileSession \<Rightarrow> int \<times> FileSession" where
  "nextStreamN key s =
     (let n = (case s_streamN s key of None \<Rightarrow> 0 | Some k \<Rightarrow> k)
      in (n, s\<lparr>s_streamN := (s_streamN s)(key \<mapsto> n + 1)\<rparr>))"

definition stream_key :: "StreamOpen \<Rightarrow> bytes \<Rightarrow> string" where
  "stream_key op base = so_AdapterID op @ [CHR 0x00] @ base"

definition streamOpenFingerprint :: "FileSession \<Rightarrow> StreamOpen \<Rightarrow> (string \<times> int) res \<times> FileSession" where
  "streamOpenFingerprint s op =
     (if so_Counter op then
        (case streamCanonical op (-1) of
           Inl e \<Rightarrow> (Inl e, s)
         | Inr base \<Rightarrow>
             (case nextStreamN (stream_key op base) s of (n, s') \<Rightarrow>
                (map_sum id (\<lambda>fp. (fp, n)) (StreamFingerprint op n), s')))
      else (map_sum id (\<lambda>fp. (fp, -1)) (StreamFingerprint op (-1)), s))"

definition checkStreamOpen :: "FileSession \<Rightarrow> StreamOpen \<Rightarrow> string \<Rightarrow> string \<Rightarrow> FileCassette res" where
  "checkStreamOpen s op want verb =
     (if s_mode s \<noteq> want
      then Inl (ErrNew (''xrr: '' @ verb @ '' requires '' @ want @ '' mode (session is '' @ s_mode s @ '')''))
      else (case s_cassette s of
          None \<Rightarrow> Inl (ErrNew (''xrr: '' @ verb @ '' requires a cassette''))
        | Some c \<Rightarrow>
            if so_AdapterID op = [] then Inl (ErrNew (''xrr: '' @ verb @ '' requires an adapter id'')) else Inr c))"

subsection \<open>Recording\<close>

record StreamRecording =
  sg_cassette :: FileCassette
  sg_adapterID :: string
  sg_fingerprint :: string
  sg_typ :: string
  sg_reqPayload :: "(string \<times> gval) list"
  sg_scrub :: "StreamScrubFunc option"
  sg_seq :: int
  sg_sends :: "StreamFrame list"
  sg_recvs :: "StreamFrame list"
  sg_halfClose :: "StreamEvent option"
  sg_finished :: bool

text \<open>Assignment to a key of a map.\<close>

definition map_put :: "string \<Rightarrow> gval \<Rightarrow> (string \<times> gval) list \<Rightarrow> (string \<times> gval) list" where
  "map_put k v kvs = filter (\<lambda>(k', v'). k' \<noteq> k) kvs @ [(k, v)]"

definition OpenStreamRecord :: "FileSession \<Rightarrow> StreamOpen \<Rightarrow> StreamRecording res \<times> FileSession" where
  "OpenStreamRecord s op =
     (case checkStreamOpen s op ModeRecord ''OpenStreamRecord'' of
        Inl e \<Rightarrow> (Inl e, s)
      | Inr c \<Rightarrow>
          (case streamOpenFingerprint s op of
             (Inl e, s') \<Rightarrow> (Inl e, s')
           | (Inr (fp, n), s') \<Rightarrow>
               (Inr \<lparr>sg_cassette = c, sg_adapterID = so_AdapterID op, sg_fingerprint = fp, sg_typ = so_Type op,
                     sg_reqPayload = (if n \<ge> 0 then map_put ''n'' (GInt n) (so_Payload op) else so_Payload op),
                     sg_scrub = s_streamScrub s', sg_seq = 0, sg_sends = [], sg_recvs = [],
                     sg_halfClose = None, sg_finished = False\<rparr>, s')))"

definition elapsedMs :: "int \<Rightarrow> int" where
  "elapsedMs ms = (if ms < 0 then 0 else ms)"

definition scrubFrame :: "StreamScrubFunc option \<Rightarrow> string \<Rightarrow> StreamScrubInfo \<Rightarrow> bytes \<Rightarrow> bytes" where
  "scrubFrame scrub dir info data = (case scrub of None \<Rightarrow> data | Some f \<Rightarrow> f dir info data)"

definition scrubInfo :: "StreamRecording \<Rightarrow> StreamScrubInfo" where
  "scrubInfo r = \<lparr>info_AdapterID = sg_adapterID r, info_Type = sg_typ r\<rparr>"

definition RecordSend :: "bytes \<Rightarrow> int \<Rightarrow> StreamRecording \<Rightarrow> StreamRecording" where
  "RecordSend message ms r =
     (if sg_finished r then r
      else let msg = scrubFrame (sg_scrub r) StreamSend (scrubInfo r) message
           in r\<lparr>sg_sends := sg_sends r
                  @ [\<lparr>f_Seq = sg_seq r, f_Message = msg, f_Text = False, f_AtMs = Some (elapsedMs ms)\<rparr>],
                sg_seq := sg_seq r + 1\<rparr>)"

definition RecordRecv :: "bytes \<Rightarrow> int \<Rightarrow> StreamRecording \<Rightarrow> StreamRecording" where
  "RecordRecv message ms r =
     (if sg_finished r then r
      else let msg = scrubFrame (sg_scrub r) StreamRecv (scrubInfo r) message
           in r\<lparr>sg_recvs := sg_recvs r
                  @ [\<lparr>f_Seq = sg_seq r, f_Message = msg, f_Text = False, f_AtMs = Some (elapsedMs ms)\<rparr>],
                sg_seq := sg_seq r + 1\<rparr>)"

definition RecordHalfClose :: "int \<Rightarrow> StreamRecording \<Rightarrow> StreamRecording" where
  "RecordHalfClose ms r =
     (if sg_finished r \<or> sg_halfClose r \<noteq> None then r
      else r\<lparr>sg_halfClose := Some \<lparr>e_Seq = sg_seq r, e_AtMs = Some (elapsedMs ms)\<rparr>, sg_seq := sg_seq r + 1\<rparr>)"

definition finished_pair :: "StreamRecording \<Rightarrow> int \<Rightarrow> (string \<times> gval) list \<Rightarrow> goerr option \<Rightarrow> StreamPair" where
  "finished_pair r ms respPayload terminalErr =
     \<lparr>p_Req = \<lparr>rq_Type = sg_typ r, rq_Frames = sg_sends r, rq_HalfClose = sg_halfClose r\<rparr>,
      p_Resp = \<lparr>rp_Frames = sg_recvs r, rp_End = \<lparr>e_Seq = sg_seq r, e_AtMs = Some (elapsedMs ms)\<rparr>\<rparr>,
      p_ReqPayload = sg_reqPayload r, p_RespPayload = respPayload, p_RecordedAt = [],
      p_RecordedErr = errstr terminalErr\<rparr>"

definition Finish ::
  "int \<Rightarrow> (string \<times> gval) list \<Rightarrow> goerr option \<Rightarrow> StreamRecording \<Rightarrow> 'd world
   \<Rightarrow> goerr option \<times> StreamRecording \<times> 'd world" where
  "Finish ms respPayload terminalErr r w =
     (if sg_finished r then (Some (ErrNew ''xrr: stream already finished''), r, w)
      else case SaveStream (sg_cassette r) (sg_adapterID r) (sg_fingerprint r)
                  (Some (finished_pair r ms respPayload terminalErr)) w of
             (e, w') \<Rightarrow>
               (map_option (ErrWrap ''xrr: save stream'') e,
                r\<lparr>sg_finished := True, sg_seq := sg_seq r + 1\<rparr>, w'))"

subsection \<open>Replay\<close>

record StreamReplay =
  sy_fingerprint :: string
  sy_pair :: StreamPair
  sy_scrub :: "StreamScrubFunc option"
  sy_info :: StreamScrubInfo
  sy_sendIdx :: nat
  sy_recvIdx :: nat
  sy_mismatch :: "goerr option"

definition OpenStreamReplay :: "FileSession \<Rightarrow> StreamOpen \<Rightarrow> 'd world \<Rightarrow> StreamReplay res \<times> FileSession" where
  "OpenStreamReplay s op w =
     (case checkStreamOpen s op ModeReplay ''OpenStreamReplay'' of
        Inl e \<Rightarrow> (Inl e, s)
      | Inr c \<Rightarrow>
          (case streamOpenFingerprint s op of
             (Inl e, s') \<Rightarrow> (Inl e, s')
           | (Inr (fp, n), s') \<Rightarrow>
               (case LoadStream c (so_AdapterID op) fp w of
                  Inl e \<Rightarrow> (Inl e, s')
                | Inr pair \<Rightarrow>
                    if rq_Type (p_Req pair) \<noteq> so_Type op
                    then (Inl (ErrWrap (''xrr: recorded stream type '' @ rq_Type (p_Req pair) @ '', requested ''
                                @ so_Type op) ErrShapeMismatch), s')
                    else (Inr \<lparr>sy_fingerprint = fp, sy_pair = pair, sy_scrub = s_streamScrub s',
                               sy_info = \<lparr>info_AdapterID = so_AdapterID op, info_Type = so_Type op\<rparr>,
                               sy_sendIdx = 0, sy_recvIdx = 0, sy_mismatch = None\<rparr>, s'))))"

definition terminalErr :: "StreamReplay \<Rightarrow> goerr" where
  "terminalErr r = (if p_RecordedErr (sy_pair r) \<noteq> [] then ErrNew (p_RecordedErr (sy_pair r)) else ErrEOF)"

definition replay_Send :: "bytes \<Rightarrow> StreamReplay \<Rightarrow> goerr option \<times> StreamReplay" where
  "replay_Send message r =
     (case sy_mismatch r of
        Some m \<Rightarrow> (Some m, r)
      | None \<Rightarrow>
          let i = sy_sendIdx r; frames = rq_Frames (p_Req (sy_pair r)) in
          if i \<ge> length frames then (Some (terminalErr r), r)
          else let live = scrubFrame (sy_scrub r) StreamSend (sy_info r) message;
                   recorded = f_Message (frames ! i)
               in if live \<noteq> recorded
                  then let m = StreamMismatchError ''send'' (int i)
                             (''expected sha256 '' @ hex_encode (sha256 recorded)
                              @ '', got sha256 '' @ hex_encode (sha256 live))
                       in (Some m, r\<lparr>sy_mismatch := Some m\<rparr>)
                  else (None, r\<lparr>sy_sendIdx := i + 1\<rparr>))"

definition replay_HalfClose :: "StreamReplay \<Rightarrow> goerr option \<times> StreamReplay" where
  "replay_HalfClose r =
     (case sy_mismatch r of
        Some m \<Rightarrow> (Some m, r)
      | None \<Rightarrow>
          let s = length (rq_Frames (p_Req (sy_pair r))) in
          if sy_sendIdx r < s
          then let m = StreamMismatchError ''half_close'' (int (sy_sendIdx r))
                     (''half-close after '' @ show_nat (sy_sendIdx r) @ '' sends, recording has '' @ show_nat s)
               in (Some m, r\<lparr>sy_mismatch := Some m\<rparr>)
          else (None, r))"

definition replay_Recv :: "StreamReplay \<Rightarrow> bytes res \<times> StreamReplay" where
  "replay_Recv r =
     (case sy_mismatch r of
        Some m \<Rightarrow> (Inl m, r)
      | None \<Rightarrow>
          let frames = rp_Frames (p_Resp (sy_pair r)) in
          if sy_recvIdx r \<ge> length frames then (Inl (terminalErr r), r)
          else (Inr (f_Message (frames ! sy_recvIdx r)), r\<lparr>sy_recvIdx := sy_recvIdx r + 1\<rparr>))"

definition ScrubStreamFrame :: "FileSession \<Rightarrow> string \<Rightarrow> StreamScrubInfo \<Rightarrow> bytes \<Rightarrow> bytes" where
  "ScrubStreamFrame s dir info data = (case s_streamScrub s of None \<Rightarrow> data | Some f \<Rightarrow> f dir info data)"

subsection \<open>Counting occurrences\<close>

text \<open>The contract of an occurrence counter, and what a sequence of ticks adds up to.\<close>

locale counter =
  fixes count :: "'s \<Rightarrow> 'k \<Rightarrow> int"
    and tick :: "'k \<Rightarrow> 's \<Rightarrow> int \<times> 's"
  assumes tick_result: "fst (tick k s) = count s k"
    and tick_counts: "count (snd (tick k s)) l = count s l + (if l = k then 1 else 0)"
begin

lemma count_ticks: "count (fold (\<lambda>k s. snd (tick k s)) ks s) l = count s l + int (count_list ks l)"
  by (induction ks arbitrary: s) (auto simp: tick_counts)

lemma tick_after: "fst (tick k (fold (\<lambda>k s. snd (tick k s)) ks s)) = count s k + int (count_list ks k)"
  by (simp add: tick_result count_ticks)

end

abbreviation stream_count :: "FileSession \<Rightarrow> string \<Rightarrow> int" where
  "stream_count s k \<equiv> (case s_streamN s k of None \<Rightarrow> 0 | Some n \<Rightarrow> n)"

interpretation streamN: counter stream_count nextStreamN
  by unfold_locales (auto simp: nextStreamN_def Let_def)

text \<open>The counter key of an open, where it has one.\<close>

definition open_key :: "StreamOpen \<Rightarrow> string list" where
  "open_key op =
     (if so_Counter op
      then (case streamCanonical op (-1) of Inl e \<Rightarrow> [] | Inr base \<Rightarrow> [stream_key op base]) else [])"

lemma streamOpenFingerprint_state:
  "snd (streamOpenFingerprint s op) = fold (\<lambda>k s. snd (nextStreamN k s)) (open_key op) s"
  by (auto simp: streamOpenFingerprint_def open_key_def split: sum.splits prod.splits)

lemma streamOpenFingerprint_states:
  "fold (\<lambda>op s. snd (streamOpenFingerprint s op)) ops s = fold (\<lambda>k s. snd (nextStreamN k s)) (concat (map open_key ops)) s"
  by (induction ops arbitrary: s) (simp_all add: streamOpenFingerprint_state)

lemma streamOpenFingerprint_value:
  assumes "so_Counter op" "streamCanonical op (-1) = Inr base"
  shows "fst (streamOpenFingerprint s op) =
    map_sum id (\<lambda>fp. (fp, stream_count s (stream_key op base))) (StreamFingerprint op (stream_count s (stream_key op base)))"
  using assms streamN.tick_result[of "stream_key op base" s]
  by (auto simp: streamOpenFingerprint_def split: prod.splits)

text \<open>The key separates opens by adapter and identity.\<close>

lemma stream_key_eq:
  assumes "CHR 0x00 \<notin> set (so_AdapterID op)" "CHR 0x00 \<notin> set (so_AdapterID op')"
  shows "stream_key op b = stream_key op' b' \<longleftrightarrow> so_AdapterID op = so_AdapterID op' \<and> b = b'"
proof
  assume "stream_key op b = stream_key op' b'"
  then have "so_AdapterID op @ CHR 0x00 # b = so_AdapterID op' @ CHR 0x00 # b'"
    by (simp add: stream_key_def)
  then have "Some (so_AdapterID op, b) = Some (so_AdapterID op', b')"
    using assms cut_at_append by metis
  then show "so_AdapterID op = so_AdapterID op' \<and> b = b'" by simp
qed (simp add: stream_key_def)

definition same_identity :: "StreamOpen \<Rightarrow> StreamOpen \<Rightarrow> bool" where
  "same_identity op op' \<longleftrightarrow> so_AdapterID op = so_AdapterID op' \<and> so_Type op = so_Type op'
     \<and> key_norm (GMap (so_Identity op)) = key_norm (GMap (so_Identity op'))"

definition counted :: "StreamOpen \<Rightarrow> bool" where
  "counted op \<longleftrightarrow> open_ok op \<and> so_Counter op \<and> CHR 0x00 \<notin> set (so_AdapterID op)"

lemma counted_key:
  assumes "counted op"
  obtains base where "streamCanonical op (-1) = Inr base" "open_key op = [stream_key op base]"
proof -
  have ok: "open_ok op" "so_Counter op" using assms by (simp_all add: counted_def)
  have "json_ok (stream_inputs op (-1))"
    by (rule canon_ok_json_ok[OF stream_inputs_canon[OF ok(1)]])
  then have "streamCanonical op (-1) = Inr (json_with rfc_quote (stream_inputs op (-1)))"
    by (simp add: streamCanonical_ok[OF ok(1)] CanonicalJSON_rfc)
  with that ok(2) show thesis by (simp add: open_key_def)
qed

lemma open_key_eq:
  assumes "counted op" "counted op'"
  shows "open_key op = open_key op' \<longleftrightarrow> same_identity op op'"
proof -
  obtain b where b: "streamCanonical op (-1) = Inr b" "open_key op = [stream_key op b]"
    by (rule counted_key[OF assms(1)])
  obtain b' where b': "streamCanonical op' (-1) = Inr b'" "open_key op' = [stream_key op' b']"
    by (rule counted_key[OF assms(2)])
  have ok: "open_ok op" "open_ok op'" using assms by (simp_all add: counted_def)
  have "b = b' \<longleftrightarrow> CanonicalJSON (stream_inputs op (-1)) = CanonicalJSON (stream_inputs op' (-1))"
    using b(1) b'(1) ok by (simp add: streamCanonical_ok)
  also have "\<dots> \<longleftrightarrow> key_norm (stream_inputs op (-1)) = key_norm (stream_inputs op' (-1))"
    using ok by (intro CanonicalJSON_eq_iff stream_inputs_canon)
  finally show ?thesis
    using assms stream_inputs_eq[OF ok, of "-1" "-1"]
    by (auto simp: b(2) b'(2) stream_key_eq counted_def same_identity_def)
qed

lemma count_keys:
  assumes "counted op" "list_all counted ops" "open_key op = [k]"
  shows "count_list (concat (map open_key ops)) k = length (filter (same_identity op) ops)"
  using assms(2)
proof (induction ops)
  case (Cons o' ops)
  then have c: "counted o'" by simp
  obtain b where "open_key o' = [stream_key o' b]" using counted_key[OF c] by blast
  then have "count_list (open_key o') k = (if same_identity op o' then 1 else 0)"
    using open_key_eq[OF assms(1) c] assms(3) by auto
  moreover have "count_list (open_key o' @ r) k = count_list (open_key o') k + count_list r k" for r
    by (induction "open_key o'") simp_all
  ultimately show ?case
    using Cons by (simp split: if_splits)
qed simp

subsection \<open>Recording runs\<close>

text \<open>The calls on a recording before it is finished, and the state machine they drive.\<close>

datatype rec_event = ESend bytes int | ERecv bytes int | EHalf int

fun rec_apply :: "rec_event \<Rightarrow> StreamRecording \<Rightarrow> StreamRecording" where
  "rec_apply (ESend m ms) r = RecordSend m ms r"
| "rec_apply (ERecv m ms) r = RecordRecv m ms r"
| "rec_apply (EHalf ms) r = RecordHalfClose ms r"

inductive rec_step :: "StreamRecording \<times> 'd world \<Rightarrow> StreamRecording \<times> 'd world \<Rightarrow> bool" where
  rec_event: "rec_step (r, w) (rec_apply ev r, w)"
| rec_finish: "Finish ms pl te r w = (e, r', w') \<Longrightarrow> rec_step (r, w) (r', w')"

inductive_cases rec_stepE: "rec_step (r, w) (r', w')"

abbreviation rec_run :: "rec_event list \<Rightarrow> StreamRecording \<Rightarrow> StreamRecording" where
  "rec_run evs r \<equiv> fold rec_apply evs r"

definition rec_events :: "StreamRecording \<Rightarrow> int list" where
  "rec_events r = map f_Seq (sg_sends r) @ map f_Seq (sg_recvs r)
     @ (case sg_halfClose r of None \<Rightarrow> [] | Some h \<Rightarrow> [e_Seq h])"

text \<open>The invariant: both logs ascend, and the numbers handed out so far are used exactly once;
  the terminal event takes the last one.\<close>

definition rec_inv :: "StreamRecording \<Rightarrow> bool" where
  "rec_inv r \<longleftrightarrow> sorted_wrt (<) (map f_Seq (sg_sends r)) \<and> sorted_wrt (<) (map f_Seq (sg_recvs r))
     \<and> distinct (rec_events r)
     \<and> set (rec_events r) = {0..<(if sg_finished r then sg_seq r - 1 else sg_seq r)}
     \<and> (if sg_finished r then 1 \<le> sg_seq r else 0 \<le> sg_seq r)"

lemma atLeastLessThan_int_Suc: "0 \<le> n \<Longrightarrow> {0..<n + 1} = insert n {0..<(n :: int)}"
  by auto

lemma rec_inv_apply: "rec_inv r \<Longrightarrow> rec_inv (rec_apply ev r)"
proof (cases ev)
  case (ESend m ms)
  assume "rec_inv r"
  then show ?thesis
    by (auto simp: ESend rec_inv_def rec_events_def RecordSend_def Let_def sorted_wrt_append
        atLeastLessThan_int_Suc)
next
  case (ERecv m ms)
  assume "rec_inv r"
  then show ?thesis
    by (auto simp: ERecv rec_inv_def rec_events_def RecordRecv_def Let_def sorted_wrt_append
        atLeastLessThan_int_Suc)
next
  case (EHalf ms)
  assume "rec_inv r"
  then show ?thesis
    by (auto simp: EHalf rec_inv_def rec_events_def RecordHalfClose_def atLeastLessThan_int_Suc)
qed

lemma rec_inv_step: "rec_step x y \<Longrightarrow> rec_inv (fst x) \<Longrightarrow> rec_inv (fst y)"
proof (induction rule: rec_step.induct)
  case (rec_event r w ev)
  then show ?case by (simp add: rec_inv_apply)
next
  case (rec_finish ms pl te r w e r' w')
  have "r' = (if sg_finished r then r else r\<lparr>sg_finished := True, sg_seq := sg_seq r + 1\<rparr>)"
    using rec_finish(1) by (auto simp: Finish_def split: if_splits prod.splits)
  then show ?case
    using rec_finish(2) by (simp add: rec_inv_def rec_events_def)
qed

lemma rec_inv_steps: "rec_step\<^sup>*\<^sup>* x y \<Longrightarrow> rec_inv (fst x) \<Longrightarrow> rec_inv (fst y)"
  by (induction rule: rtranclp_induct) (auto intro: rec_inv_step)

text \<open>A finished recording is closed: no call changes it or the disk any more.\<close>

lemma finished_step: "rec_step x y \<Longrightarrow> sg_finished (fst x) \<Longrightarrow> y = x"
proof (induction rule: rec_step.induct)
  case (rec_event r w ev)
  then show ?case by (cases ev) (simp_all add: RecordSend_def RecordRecv_def RecordHalfClose_def)
qed (simp add: Finish_def)

lemma finished_steps: "rec_step\<^sup>*\<^sup>* x y \<Longrightarrow> sg_finished (fst x) \<Longrightarrow> y = x"
  by (induction rule: rtranclp_induct) (auto dest: finished_step)

lemma rec_inv_run: "rec_inv r \<Longrightarrow> rec_inv (rec_run evs r)"
  by (induction evs arbitrary: r) (simp_all add: rec_inv_apply)

lemma rec_inv_valid:
  assumes "rec_inv r" "\<not> sg_finished r" "stream_type_ok (sg_typ r)"
  shows "valid_pair (finished_pair r ms pl te)"
proof -
  have ev: "events_before_end (finished_pair r ms pl te) = rec_events r"
    by (simp add: events_before_end_def rec_events_def finished_pair_def)
  have "s \<in> {0..<sg_seq r}" if "s \<in> set (rec_events r)" for s
    using that assms(1,2) by (simp add: rec_inv_def)
  then show ?thesis
    using assms unfolding valid_pair_def ev
    by (auto simp: rec_inv_def finished_pair_def list_all_iff)
qed

text \<open>A new recording, and what a run leaves in it.\<close>

definition rec_fresh :: "StreamRecording \<Rightarrow> bool" where
  "rec_fresh r \<longleftrightarrow> \<not> sg_finished r \<and> sg_seq r = 0 \<and> sg_sends r = [] \<and> sg_recvs r = [] \<and> sg_halfClose r = None"

lemma rec_fresh_inv: "rec_fresh r \<Longrightarrow> rec_inv r"
  by (simp add: rec_fresh_def rec_inv_def rec_events_def)

lemma OpenStreamRecord_fresh:
  assumes "OpenStreamRecord s op = (Inr r, s')"
  shows "rec_fresh r" "sg_typ r = so_Type op" "sg_adapterID r = so_AdapterID op" "sg_scrub r = s_streamScrub s"
    "s_mode s = ModeRecord" "s_cassette s = Some (sg_cassette r)" "so_AdapterID op \<noteq> []"
    "\<exists>n. streamOpenFingerprint s op = (Inr (sg_fingerprint r, n), s')
       \<and> sg_reqPayload r = (if n \<ge> 0 then map_put ''n'' (GInt n) (so_Payload op) else so_Payload op)"
proof -
  obtain c fp n where "checkStreamOpen s op ModeRecord ''OpenStreamRecord'' = Inr c"
    and f: "streamOpenFingerprint s op = (Inr (fp, n), s')"
    and r: "r = \<lparr>sg_cassette = c, sg_adapterID = so_AdapterID op, sg_fingerprint = fp, sg_typ = so_Type op,
       sg_reqPayload = (if n \<ge> 0 then map_put ''n'' (GInt n) (so_Payload op) else so_Payload op),
       sg_scrub = s_streamScrub s', sg_seq = 0, sg_sends = [], sg_recvs = [], sg_halfClose = None, sg_finished = False\<rparr>"
    using assms by (auto simp: OpenStreamRecord_def split: sum.splits prod.splits)
  moreover have "s_streamScrub (snd (streamOpenFingerprint s op)) = s_streamScrub s"
    by (auto simp: streamOpenFingerprint_def nextStreamN_def Let_def split: sum.splits)
  ultimately show "rec_fresh r" "sg_typ r = so_Type op" "sg_adapterID r = so_AdapterID op" "sg_scrub r = s_streamScrub s"
    "s_mode s = ModeRecord" "s_cassette s = Some (sg_cassette r)" "so_AdapterID op \<noteq> []"
    "\<exists>n. streamOpenFingerprint s op = (Inr (sg_fingerprint r, n), s')
       \<and> sg_reqPayload r = (if n \<ge> 0 then map_put ''n'' (GInt n) (so_Payload op) else so_Payload op)"
    by (auto simp: rec_fresh_def checkStreamOpen_def split: if_splits option.splits)
qed

fun sent :: "rec_event list \<Rightarrow> bytes list" where
  "sent [] = []"
| "sent (ESend m ms # evs) = m # sent evs"
| "sent (_ # evs) = sent evs"

fun received :: "rec_event list \<Rightarrow> bytes list" where
  "received [] = []"
| "received (ERecv m ms # evs) = m # received evs"
| "received (_ # evs) = received evs"

text \<open>What the calls do not change.\<close>

lemma rec_apply_fixed:
  "sg_scrub (rec_apply ev r) = sg_scrub r \<and> scrubInfo (rec_apply ev r) = scrubInfo r \<and> sg_typ (rec_apply ev r) = sg_typ r
   \<and> sg_finished (rec_apply ev r) = sg_finished r \<and> sg_cassette (rec_apply ev r) = sg_cassette r
   \<and> sg_adapterID (rec_apply ev r) = sg_adapterID r \<and> sg_fingerprint (rec_apply ev r) = sg_fingerprint r
   \<and> sg_reqPayload (rec_apply ev r) = sg_reqPayload r"
  by (cases ev) (simp_all add: RecordSend_def RecordRecv_def RecordHalfClose_def Let_def scrubInfo_def)

lemma rec_run_fixed:
  "sg_scrub (rec_run evs r) = sg_scrub r \<and> scrubInfo (rec_run evs r) = scrubInfo r \<and> sg_typ (rec_run evs r) = sg_typ r
   \<and> sg_finished (rec_run evs r) = sg_finished r \<and> sg_cassette (rec_run evs r) = sg_cassette r
   \<and> sg_adapterID (rec_run evs r) = sg_adapterID r \<and> sg_fingerprint (rec_run evs r) = sg_fingerprint r
   \<and> sg_reqPayload (rec_run evs r) = sg_reqPayload r"
  by (induction evs arbitrary: r) (simp_all add: rec_apply_fixed)

lemma rec_run_messages:
  assumes "\<not> sg_finished r"
  shows "map f_Message (sg_sends (rec_run evs r)) = map f_Message (sg_sends r)
      @ map (scrubFrame (sg_scrub r) StreamSend (scrubInfo r)) (sent evs)
    \<and> map f_Message (sg_recvs (rec_run evs r)) = map f_Message (sg_recvs r)
      @ map (scrubFrame (sg_scrub r) StreamRecv (scrubInfo r)) (received evs)"
  using assms
proof (induction evs arbitrary: r)
  case (Cons ev evs)
  have IH: "map f_Message (sg_sends (rec_run evs (rec_apply ev r))) = map f_Message (sg_sends (rec_apply ev r))
      @ map (scrubFrame (sg_scrub r) StreamSend (scrubInfo r)) (sent evs)
    \<and> map f_Message (sg_recvs (rec_run evs (rec_apply ev r))) = map f_Message (sg_recvs (rec_apply ev r))
      @ map (scrubFrame (sg_scrub r) StreamRecv (scrubInfo r)) (received evs)"
    using Cons.IH[of "rec_apply ev r"] Cons.prems rec_apply_fixed[of ev r] by simp
  show ?case
    using IH Cons.prems
    by (cases ev) (auto simp: RecordSend_def RecordRecv_def RecordHalfClose_def Let_def)
qed simp

subsection \<open>Replay runs\<close>

datatype rp_call = PSend bytes | PRecv | PHalf

datatype rp_result = RSent "goerr option" | RGot "bytes res" | RHalf "goerr option"

fun rp_step :: "rp_call \<Rightarrow> StreamReplay \<Rightarrow> rp_result \<times> StreamReplay" where
  "rp_step (PSend m) r = (case replay_Send m r of (e, r') \<Rightarrow> (RSent e, r'))"
| "rp_step PRecv r = (case replay_Recv r of (x, r') \<Rightarrow> (RGot x, r'))"
| "rp_step PHalf r = (case replay_HalfClose r of (e, r') \<Rightarrow> (RHalf e, r'))"

fun rp_run :: "rp_call list \<Rightarrow> StreamReplay \<Rightarrow> rp_result list" where
  "rp_run [] r = []"
| "rp_run (c # cs) r = (case rp_step c r of (x, r') \<Rightarrow> x # rp_run cs r')"

text \<open>A client that behaves as recorded: it sends the given messages in order and half-closes
  only after the last one. What it sees does not depend on how its calls interleave.\<close>

fun honest :: "bytes list \<Rightarrow> rp_call list \<Rightarrow> bool" where
  "honest ms [] = True"
| "honest ms (PRecv # cs) = honest ms cs"
| "honest ms (PHalf # cs) = (ms = [] \<and> honest ms cs)"
| "honest ms (PSend m # cs) = (case ms of [] \<Rightarrow> False | x # xs \<Rightarrow> m = x \<and> honest xs cs)"

fun expected :: "bytes list \<Rightarrow> goerr \<Rightarrow> rp_call list \<Rightarrow> rp_result list" where
  "expected ys e [] = []"
| "expected ys e (PSend m # cs) = RSent None # expected ys e cs"
| "expected ys e (PHalf # cs) = RHalf None # expected ys e cs"
| "expected ys e (PRecv # cs) =
     (case ys of [] \<Rightarrow> RGot (Inl e) # expected [] e cs | y # ys' \<Rightarrow> RGot (Inr y) # expected ys' e cs)"

lemma drop_Cons_nth: "drop i xs = y # ys \<Longrightarrow> i < length xs \<and> xs ! i = y \<and> drop (Suc i) xs = ys"
  by (metis Cons_nth_drop_Suc drop_all leI list.distinct(1) list.inject)

lemma drop_map_Cons:
  assumes "drop i (map f xs) = y # ys"
  shows "i < length xs" "f (xs ! i) = y" "drop (Suc i) (map f xs) = ys"
  using drop_Cons_nth[OF assms] by auto

lemma honest_run:
  assumes "sy_mismatch r = None" "honest ms cs"
    and "drop (sy_sendIdx r) (map f_Message (rq_Frames (p_Req (sy_pair r)))) = map (scrubFrame (sy_scrub r) StreamSend (sy_info r)) ms"
    and "drop (sy_recvIdx r) (map f_Message (rp_Frames (p_Resp (sy_pair r)))) = ys"
  shows "rp_run cs r = expected ys (terminalErr r) cs"
  using assms
proof (induction cs arbitrary: r ms ys)
  case (Cons c cs)
  show ?case
  proof (cases c)
    case (PSend m)
    then obtain xs where ms: "ms = m # xs" "honest xs cs" using Cons.prems(2) by (cases ms) auto
    note d = drop_map_Cons[OF Cons.prems(3)[unfolded ms(1) list.map]]
    have step: "replay_Send m r = (None, r\<lparr>sy_sendIdx := sy_sendIdx r + 1\<rparr>)"
      using Cons.prems(1) d(1,2) by (simp add: replay_Send_def Let_def)
    have "rp_run cs (r\<lparr>sy_sendIdx := sy_sendIdx r + 1\<rparr>) = expected ys (terminalErr (r\<lparr>sy_sendIdx := sy_sendIdx r + 1\<rparr>)) cs"
      using Cons.prems ms(2) d(3) by (intro Cons.IH[where ms = xs]) simp_all
    with step PSend show ?thesis by (simp add: terminalErr_def)
  next
    case PHalf
    then have ms: "ms = []" "honest [] cs" using Cons.prems(2) by auto
    then have "length (rq_Frames (p_Req (sy_pair r))) \<le> sy_sendIdx r"
      using Cons.prems(3) by simp
    then show ?thesis
      using PHalf Cons.prems ms Cons.IH[of r "[]" ys] by (simp add: replay_HalfClose_def Let_def)
  next
    case PRecv
    show ?thesis
    proof (cases ys)
      case Nil
      then show ?thesis
        using PRecv Cons.prems Cons.IH[of r ms "[]"] by (simp add: replay_Recv_def Let_def)
    next
      case (Cons y ys')
      note d = drop_map_Cons[OF Cons.prems(4)[unfolded Cons]]
      have step: "replay_Recv r = (Inr y, r\<lparr>sy_recvIdx := sy_recvIdx r + 1\<rparr>)"
        using Cons.prems(1) d(1,2) by (simp add: replay_Recv_def Let_def)
      have "rp_run cs (r\<lparr>sy_recvIdx := sy_recvIdx r + 1\<rparr>) = expected ys' (terminalErr (r\<lparr>sy_recvIdx := sy_recvIdx r + 1\<rparr>)) cs"
        using Cons.prems d(3) PRecv by (intro Cons.IH[where ms = ms]) simp_all
      with step Cons PRecv show ?thesis by (simp add: terminalErr_def)
    qed
  qed
qed simp

text \<open>After a mismatch, every call fails with it.\<close>

fun failed_with :: "goerr \<Rightarrow> rp_result \<Rightarrow> bool" where
  "failed_with e (RSent x) \<longleftrightarrow> x = Some e"
| "failed_with e (RHalf x) \<longleftrightarrow> x = Some e"
| "failed_with e (RGot x) \<longleftrightarrow> x = Inl e"

lemma mismatch_run: "sy_mismatch r = Some m \<Longrightarrow> list_all (failed_with m) (rp_run cs r)"
proof (induction cs arbitrary: r)
  case (Cons c cs)
  then have "\<exists>x. rp_step c r = (x, r) \<and> failed_with m x"
    by (cases c) (simp_all add: replay_Send_def replay_Recv_def replay_HalfClose_def)
  then show ?case
    using Cons by auto
qed simp

subsection \<open>Opening what was recorded\<close>

lemma finished_pair_fits:
  assumes "rec_inv r" "\<not> sg_finished r" "sg_seq r < 2 ^ 63" "ms < 2 ^ 63"
    and "list_all frame_fits (sg_sends r)" "list_all frame_fits (sg_recvs r)"
    and "case sg_halfClose r of None \<Rightarrow> True | Some h \<Rightarrow> event_fits h"
    and "plain (GMap (sg_reqPayload r))" "plain (GMap pl)" "utf8_valid (errstr te)"
  shows "pair_fits (finished_pair r ms pl te)"
proof -
  have "event_fits \<lparr>e_Seq = sg_seq r, e_AtMs = Some (elapsedMs ms)\<rparr>"
    using assms(1-4) by (simp add: event_fits_def in_int64_def elapsedMs_def rec_inv_def)
  moreover have "utf8_valid []" by (simp add: field_names)
  ultimately show ?thesis
    using assms(5-10) unfolding pair_fits_def finished_pair_def by simp
qed

text \<open>The clock and the counter stay within 64 bits.\<close>

fun ev_ms :: "rec_event \<Rightarrow> int" where
  "ev_ms (ESend m t) = t"
| "ev_ms (ERecv m t) = t"
| "ev_ms (EHalf t) = t"

definition rec_fits :: "StreamRecording \<Rightarrow> bool" where
  "rec_fits r \<longleftrightarrow> list_all frame_fits (sg_sends r) \<and> list_all frame_fits (sg_recvs r)
     \<and> (case sg_halfClose r of None \<Rightarrow> True | Some h \<Rightarrow> event_fits h)"

lemma rec_fits_run:
  assumes "rec_fits r" "0 \<le> sg_seq r" "sg_seq r + int (length evs) < 2 ^ 63" "list_all (\<lambda>ev. ev_ms ev < 2 ^ 63) evs"
  shows "rec_fits (rec_run evs r) \<and> 0 \<le> sg_seq (rec_run evs r) \<and> sg_seq (rec_run evs r) \<le> sg_seq r + int (length evs)"
  using assms
proof (induction evs arbitrary: r)
  case (Cons ev evs)
  have t: "0 \<le> elapsedMs (ev_ms ev) \<and> elapsedMs (ev_ms ev) < 2 ^ 63"
    using Cons.prems(4) by (simp add: elapsedMs_def)
  have s: "0 \<le> sg_seq (rec_apply ev r)" "sg_seq (rec_apply ev r) \<le> sg_seq r + 1"
    using Cons.prems(2) by (cases ev; simp add: RecordSend_def RecordRecv_def RecordHalfClose_def Let_def)+
  have "rec_fits (rec_apply ev r)"
    using Cons.prems(1-3) t
    by (cases ev) (auto simp: rec_fits_def RecordSend_def RecordRecv_def RecordHalfClose_def Let_def
        frame_fits_def event_fits_def in_int64_def)
  then show ?case
    using Cons.IH[of "rec_apply ev r"] Cons.prems(3,4) s by simp
qed simp

lemma streamOpenFingerprint_shape:
  assumes "streamOpenFingerprint s op = (Inr (fp, n), s')"
  shows "length fp = 8 \<and> list_all is_lower_hex fp" "stream_type_ok (so_Type op)"
proof -
  have ms: "map_sum id f x = Inr y \<longleftrightarrow> (\<exists>z. x = Inr z \<and> y = f z)" for f x y
    by (cases x) auto
  obtain k where k: "StreamFingerprint op k = Inr fp"
    using assms by (auto simp: streamOpenFingerprint_def ms split: if_splits sum.splits prod.splits)
  then obtain canonical where "streamCanonical op (if so_Counter op then k else -1) = Inr canonical" "fp = sum4 canonical"
    by (auto simp: StreamFingerprint_def split: if_splits sum.splits)
  then show "length fp = 8 \<and> list_all is_lower_hex fp" "stream_type_ok (so_Type op)"
    using sum4_shape by (auto simp: streamCanonical_def split: if_splits)
qed

lemma map_put_plain: "plain (GMap kvs) \<Longrightarrow> utf8_valid k \<Longrightarrow> plain v \<Longrightarrow> plain (GMap (map_put k v kvs))"
  by (auto simp: map_put_def list_all_iff distinct_map_filter)

lemma Finish_None:
  assumes "Finish ms pl te r w = (None, r', w')"
  shows "\<not> sg_finished r" "SaveStream (sg_cassette r) (sg_adapterID r) (sg_fingerprint r)
     (Some (finished_pair r ms pl te)) w = (None, w')"
  using assms by (auto simp: Finish_def split: if_splits prod.splits)

text \<open>The same counters give the same fingerprint, whatever the mode.\<close>

lemma streamOpenFingerprint_same:
  assumes "s_streamN s = s_streamN t"
  shows "fst (streamOpenFingerprint s op) = fst (streamOpenFingerprint t op)"
    "s_streamN (snd (streamOpenFingerprint s op)) = s_streamN (snd (streamOpenFingerprint t op))"
  using assms by (auto simp: streamOpenFingerprint_def nextStreamN_def Let_def split: sum.splits)

text \<open>What a recording has when it is finished: a key that can name files, and a pair that is
  valid and can be written.\<close>

lemma recording_finishable:
  assumes rec: "OpenStreamRecord s op = (Inr r0, s1)"
    and op: "slash \<notin> set (so_AdapterID op)" "utf8_valid (so_AdapterID op)"
    and fits: "int (length evs) < 2 ^ 63" "list_all (\<lambda>ev. ev_ms ev < 2 ^ 63) evs" "ms < 2 ^ 63"
    and pay: "plain (GMap (so_Payload op))" "plain (GMap pl)" "utf8_valid (errstr te)"
  shows "key_ok (so_AdapterID op, sg_fingerprint r0)" "\<not> sg_finished (rec_run evs r0)"
    "valid_pair (finished_pair (rec_run evs r0) ms pl te)" "pair_fits (finished_pair (rec_run evs r0) ms pl te)"
proof -
  note o = OpenStreamRecord_fresh[OF rec] and fixed = rec_run_fixed[of evs r0]
  obtain n where n: "streamOpenFingerprint s op = (Inr (sg_fingerprint r0, n), s1)"
    and pl0: "sg_reqPayload r0 = (if n \<ge> 0 then map_put ''n'' (GInt n) (so_Payload op) else so_Payload op)"
    using o(8) by blast
  show "key_ok (so_AdapterID op, sg_fingerprint r0)"
    using op streamOpenFingerprint_shape(1)[OF n] by (simp add: key_ok_def)
  show nf: "\<not> sg_finished (rec_run evs r0)" using fixed o(1) by (simp add: rec_fresh_def)
  have inv: "rec_inv (rec_run evs r0)" using o(1) by (intro rec_inv_run rec_fresh_inv)
  have "rec_fits r0" "sg_seq r0 = 0"
    using o(1) by (simp_all add: rec_fresh_def rec_fits_def)
  then have run: "rec_fits (rec_run evs r0)" "sg_seq (rec_run evs r0) < 2 ^ 63"
    using rec_fits_run[of r0 evs] fits(1,2) by simp_all
  have "plain (GMap (sg_reqPayload r0))"
    using pl0 pay(1) map_put_plain[of "so_Payload op" "''n''" "GInt n"] by (simp add: field_names)
  then show "pair_fits (finished_pair (rec_run evs r0) ms pl te)"
    using finished_pair_fits[OF inv nf run(2) fits(3) _ _ _ _ pay(2,3)] run(1) fixed by (simp add: rec_fits_def)
  show "valid_pair (finished_pair (rec_run evs r0) ms pl te)"
    using rec_inv_valid[OF inv nf] fixed o(2) streamOpenFingerprint_shape(2)[OF n] by simp
qed

lemma replay_opens_recording:
  assumes rec: "OpenStreamRecord s op = (Inr r0, s1)"
    and fin: "Finish ms pl te (rec_run evs r0) w = (None, r1, w1)"
    and t: "s_mode t = ModeReplay" "s_cassette t = s_cassette s" "s_streamN t = s_streamN s" "s_streamScrub t = s_streamScrub s"
    and w: "store_ok (sg_cassette r0) w" "slash \<notin> set (so_AdapterID op)" "utf8_valid (so_AdapterID op)"
    and fits: "int (length evs) < 2 ^ 63" "list_all (\<lambda>ev. ev_ms ev < 2 ^ 63) evs" "ms < 2 ^ 63"
    and pay: "plain (GMap (so_Payload op))" "plain (GMap pl)" "utf8_valid (errstr te)"
  obtains y t' where "OpenStreamReplay t op w1 = (Inr y, t')" "s_streamN t' = s_streamN s1"
    "sy_mismatch y = None" "sy_sendIdx y = 0" "sy_recvIdx y = 0" "sy_scrub y = s_streamScrub s"
    "sy_info y = \<lparr>info_AdapterID = so_AdapterID op, info_Type = so_Type op\<rparr>"
    "map f_Message (rq_Frames (p_Req (sy_pair y))) = map f_Message (sg_sends (rec_run evs r0))"
    "map f_Message (rp_Frames (p_Resp (sy_pair y))) = map f_Message (sg_recvs (rec_run evs r0))"
    "p_RecordedErr (sy_pair y) = errstr te"
    "key_norm (GMap (p_RespPayload (sy_pair y))) = key_norm (GMap pl)"
proof -
  note o = OpenStreamRecord_fresh[OF rec]
  obtain n where n: "streamOpenFingerprint s op = (Inr (sg_fingerprint r0, n), s1)"
    using o(8) by blast
  let ?r = "rec_run evs r0" and ?c = "sg_cassette r0" and ?p = "finished_pair (rec_run evs r0) ms pl te"
  note fixed = rec_run_fixed[of evs r0] and f = Finish_None[OF fin]
  note fi = recording_finishable[OF rec w(2,3) fits pay]
  have load: "LoadStream ?c (so_AdapterID op) (sg_fingerprint r0) w1 = loaded_stream (so_AdapterID op, sg_fingerprint r0) ?p w"
    using LoadStream_SaveStream[OF w(1) fi(1,4)] f(2) fixed o(3) by simp
  obtain t' where t': "streamOpenFingerprint t op = (Inr (sg_fingerprint r0, n), t')"
    using streamOpenFingerprint_same(1)[OF t(3), of op] n by (metis fst_conv prod.collapse)
  have "s_streamScrub t' = s_streamScrub s"
    using t(4) t' by (auto simp: streamOpenFingerprint_def nextStreamN_def Let_def split: if_splits sum.splits)
  moreover have "s_streamN t' = s_streamN s1"
    using streamOpenFingerprint_same(2)[OF t(3), of op] n t' by simp
  moreover have "checkStreamOpen t op ModeReplay ''OpenStreamReplay'' = Inr ?c"
    using t(1,2) o(6,7) by (simp add: checkStreamOpen_def)
  ultimately show thesis
    using t' load o(2) fixed stored_payload_same[OF w(1) pay(2)]
    by (intro that[where t' = t'])
      (auto simp: OpenStreamReplay_def loaded_stream_def reloaded_def finished_pair_def comp_def simp del: key_norm.simps)
qed

text \<open>An honest client of what was opened sees the recorded conversation.\<close>

lemma replay_of_recording:
  assumes rec: "OpenStreamRecord s op = (Inr r0, s1)"
    and fin: "Finish ms pl te (rec_run evs r0) w = (None, r1, w1)"
    and t: "s_mode t = ModeReplay" "s_cassette t = s_cassette s" "s_streamN t = s_streamN s" "s_streamScrub t = s_streamScrub s"
    and w: "store_ok (sg_cassette r0) w" "slash \<notin> set (so_AdapterID op)" "utf8_valid (so_AdapterID op)"
    and fits: "int (length evs) < 2 ^ 63" "list_all (\<lambda>ev. ev_ms ev < 2 ^ 63) evs" "ms < 2 ^ 63"
    and pay: "plain (GMap (so_Payload op))" "plain (GMap pl)" "utf8_valid (errstr te)"
  obtains y t' where "OpenStreamReplay t op w1 = (Inr y, t')" "s_streamN t' = s_streamN s1"
    "p_RecordedErr (sy_pair y) = errstr te" "key_norm (GMap (p_RespPayload (sy_pair y))) = key_norm (GMap pl)"
    "\<forall>cs. honest (sent evs) cs \<longrightarrow> rp_run cs y = expected
       (map (scrubFrame (s_streamScrub s) StreamRecv \<lparr>info_AdapterID = so_AdapterID op, info_Type = so_Type op\<rparr>)
         (received evs)) (terminalErr y) cs"
proof -
  note o = OpenStreamRecord_fresh[OF rec]
  obtain y t' where y: "OpenStreamReplay t op w1 = (Inr y, t')" "s_streamN t' = s_streamN s1"
    "sy_mismatch y = None" "sy_sendIdx y = 0" "sy_recvIdx y = 0" "sy_scrub y = s_streamScrub s"
    "sy_info y = \<lparr>info_AdapterID = so_AdapterID op, info_Type = so_Type op\<rparr>"
    "map f_Message (rq_Frames (p_Req (sy_pair y))) = map f_Message (sg_sends (rec_run evs r0))"
    "map f_Message (rp_Frames (p_Resp (sy_pair y))) = map f_Message (sg_recvs (rec_run evs r0))"
    "p_RecordedErr (sy_pair y) = errstr te" "key_norm (GMap (p_RespPayload (sy_pair y))) = key_norm (GMap pl)"
    by (rule replay_opens_recording[OF assms])
  have info: "scrubInfo r0 = sy_info y" using o(2,3) y(7) by (simp add: scrubInfo_def)
  have msgs: "map f_Message (sg_sends (rec_run evs r0)) = map (scrubFrame (sy_scrub y) StreamSend (sy_info y)) (sent evs)"
    "map f_Message (sg_recvs (rec_run evs r0)) = map (scrubFrame (sy_scrub y) StreamRecv (sy_info y)) (received evs)"
    using rec_run_messages[of r0 evs] o(1,4) y(6) info by (simp_all add: rec_fresh_def)
  have "rp_run cs y = expected (map (scrubFrame (sy_scrub y) StreamRecv (sy_info y)) (received evs)) (terminalErr y) cs"
    if "honest (sent evs) cs" for cs
    using honest_run[OF y(3) that] y(4,5,8,9) msgs by simp
  with y show thesis by (intro that[of y t']) simp_all
qed

lemma OpenStreamRecord_succeeds:
  assumes "s_mode s = ModeRecord" "s_cassette s = Some c" "\<And>k. 0 \<le> stream_count s k"
    and "open_ok op" "so_AdapterID op \<noteq> []"
  obtains r0 s1 where "OpenStreamRecord s op = (Inr r0, s1)" "sg_cassette r0 = c"
proof -
  have "\<exists>fp n s1. streamOpenFingerprint s op = (Inr (fp, n), s1)"
  proof (cases "so_Counter op")
    case True
    obtain base where base: "streamCanonical op (-1) = Inr base"
      using canon_ok_json_ok[OF stream_inputs_canon[OF assms(4)], of "-1"]
      by (simp add: streamCanonical_ok[OF assms(4)] CanonicalJSON_rfc)
    obtain h where "StreamFingerprint op (stream_count s (stream_key op base)) = Inr h"
      using stream.fp_total[of "(op, stream_count s (stream_key op base))"] assms(3,4) by auto
    then have "fst (streamOpenFingerprint s op) = Inr (h, stream_count s (stream_key op base))"
      by (simp add: streamOpenFingerprint_value[OF True base])
    then show ?thesis by (metis prod.collapse)
  next
    case False
    obtain h where "StreamFingerprint op (-1) = Inr h"
      using stream.fp_total[of "(op, -1)"] assms(4) False by auto
    with False show ?thesis by (simp add: streamOpenFingerprint_def)
  qed
  moreover have "checkStreamOpen s op ModeRecord ''OpenStreamRecord'' = Inr c"
    using assms by (simp add: checkStreamOpen_def)
  ultimately show thesis
    using that by (auto simp: OpenStreamRecord_def)
qed

lemma Finish_succeeds:
  assumes rec: "OpenStreamRecord s op = (Inr r0, s1)"
    and w: "store_ok (sg_cassette r0) w" "\<And>p. w_write_fault w p = None"
      "slash \<notin> set (so_AdapterID op)" "utf8_valid (so_AdapterID op)"
    and fits: "int (length evs) < 2 ^ 63" "list_all (\<lambda>ev. ev_ms ev < 2 ^ 63) evs" "ms < 2 ^ 63"
    and pay: "plain (GMap (so_Payload op))" "plain (GMap pl)" "utf8_valid (errstr te)"
  shows "\<exists>r1 w1. Finish ms pl te (rec_run evs r0) w = (None, r1, w1)"
proof -
  note fi = recording_finishable[OF rec w(3,4) fits pay]
  obtain w1 where "SaveStream (sg_cassette r0) (so_AdapterID op) (sg_fingerprint r0)
      (Some (finished_pair (rec_run evs r0) ms pl te)) w = (None, w1)"
    using SaveStream_succeeds[OF w(1,2) fi(1,3,4)] by blast
  then show ?thesis
    using fi(2) rec_run_fixed[of evs r0] OpenStreamRecord_fresh(3)[OF rec] by (simp add: Finish_def)
qed

subsection \<open>Properties\<close>

text \<open>C1: Streamed conversations round trip. A recording of any interleaving of sends, receives
  and half-closes, finished with any terminal on a disk that accepts writes, is saved; a replay
  session with the same counters, directory and scrub hook then opens it, and a client that
  sends the same messages in the same order and half-closes only after the last one is accepted
  at every call and receives the recorded (scrubbed) messages in order and then the terminal for
  ever, however its sends, receives and half-closes interleave.\<close>

theorem stream_record_then_replay:
  assumes s: "s_mode s = ModeRecord" "s_cassette s = Some c" "\<And>k. 0 \<le> stream_count s k"
    and t: "s_mode t = ModeReplay" "s_cassette t = Some c" "s_streamN t = s_streamN s" "s_streamScrub t = s_streamScrub s"
    and op: "open_ok op" "so_AdapterID op \<noteq> []" "slash \<notin> set (so_AdapterID op)" "utf8_valid (so_AdapterID op)"
    and w: "store_ok c w" "\<And>p. w_write_fault w p = None"
    and fits: "int (length evs) < 2 ^ 63" "list_all (\<lambda>ev. ev_ms ev < 2 ^ 63) evs" "ms < 2 ^ 63"
    and pay: "plain (GMap (so_Payload op))" "plain (GMap pl)" "utf8_valid (errstr te)"
  shows "\<exists>r0 s1 r1 w1 y t1. OpenStreamRecord s op = (Inr r0, s1)
    \<and> Finish ms pl te (rec_run evs r0) w = (None, r1, w1)
    \<and> OpenStreamReplay t op w1 = (Inr y, t1) \<and> s_streamN t1 = s_streamN s1
    \<and> (\<forall>cs. honest (sent evs) cs \<longrightarrow>
          rp_run cs y = expected
            (map (scrubFrame (s_streamScrub s) StreamRecv \<lparr>info_AdapterID = so_AdapterID op, info_Type = so_Type op\<rparr>)
              (received evs))
            (if errstr te = [] then ErrEOF else ErrNew (errstr te)) cs)"
proof -
  obtain r0 s1 where rec: "OpenStreamRecord s op = (Inr r0, s1)" "sg_cassette r0 = c"
    by (rule OpenStreamRecord_succeeds[OF s op(1,2)])
  have w': "store_ok (sg_cassette r0) w" using w(1) rec(2) by simp
  obtain r1 w1 where fin: "Finish ms pl te (rec_run evs r0) w = (None, r1, w1)"
    using Finish_succeeds[OF rec(1) w' w(2) op(3,4) fits pay] by blast
  have t': "s_cassette t = s_cassette s" using s(2) t(2) by simp
  obtain y t1 where y: "OpenStreamReplay t op w1 = (Inr y, t1)" "s_streamN t1 = s_streamN s1"
    "p_RecordedErr (sy_pair y) = errstr te" "key_norm (GMap (p_RespPayload (sy_pair y))) = key_norm (GMap pl)"
    "\<forall>cs. honest (sent evs) cs \<longrightarrow> rp_run cs y = expected
       (map (scrubFrame (s_streamScrub s) StreamRecv \<lparr>info_AdapterID = so_AdapterID op, info_Type = so_Type op\<rparr>)
         (received evs)) (terminalErr y) cs"
    by (rule replay_of_recording[OF rec(1) fin t(1) t' t(3,4) w' op(3,4) fits pay])
  have "terminalErr y = (if errstr te = [] then ErrEOF else ErrNew (errstr te))"
    using y(3) by (simp add: terminalErr_def)
  with rec(1) fin y(1,2,5) show ?thesis by auto
qed

definition sample_open :: StreamOpen where
  "sample_open = \<lparr>so_AdapterID = ''grpc'', so_Type = ''bidi'', so_Identity = [(''method'', GStr ''m'')],
     so_Counter = True, so_Payload = []\<rparr>"

lemma sample_open_ok: "open_ok sample_open" "counted sample_open"
  by (simp_all add: sample_open_def open_ok_def counted_def stream_type_ok_def stream_types reserved_def field_names)

theorem stream_record_then_replay_witness:
  "\<exists>r0 s1 r1 w1 y t1.
     OpenStreamRecord (NewSession ModeRecord (Some (NewFileCassette ''d''))) sample_open = (Inr r0, s1)
   \<and> Finish 3 [] None (rec_run [ESend ''a'' 0, ERecv ''b'' 1, EHalf 2] r0) tree_world = (None, r1, w1)
   \<and> OpenStreamReplay (NewSession ModeReplay (Some (NewFileCassette ''d''))) sample_open w1 = (Inr y, t1)
   \<and> rp_run [PRecv, PSend ''a'', PHalf, PRecv] y = [RGot (Inr ''b''), RSent None, RHalf None, RGot (Inl ErrEOF)]"
proof -
  let ?c = "NewFileCassette ''d''" and ?evs = "[ESend ''a'' 0, ERecv ''b'' 1, EHalf 2]"
  have u: "utf8_valid (so_AdapterID sample_open)" "utf8_valid []"
    by (simp_all add: sample_open_def field_names)
  have "\<exists>r0 s1 r1 w1 y t1. OpenStreamRecord (NewSession ModeRecord (Some ?c)) sample_open = (Inr r0, s1)
    \<and> Finish 3 [] None (rec_run ?evs r0) tree_world = (None, r1, w1)
    \<and> OpenStreamReplay (NewSession ModeReplay (Some ?c)) sample_open w1 = (Inr y, t1) \<and> s_streamN t1 = s_streamN s1
    \<and> (\<forall>cs. honest (sent ?evs) cs \<longrightarrow>
          rp_run cs y = expected
            (map (scrubFrame (s_streamScrub (NewSession ModeRecord (Some ?c))) StreamRecv
                \<lparr>info_AdapterID = so_AdapterID sample_open, info_Type = so_Type sample_open\<rparr>) (received ?evs))
            (if errstr None = [] then ErrEOF else ErrNew (errstr None)) cs)"
    by (rule stream_record_then_replay[where c = ?c and te = None])
      (use sample_open_ok(1) tree_world_ok u in \<open>simp_all add: NewSession_def sample_open_def tree_world_def field_names\<close>)
  then obtain r0 s1 r1 w1 y t1 where
    a: "OpenStreamRecord (NewSession ModeRecord (Some ?c)) sample_open = (Inr r0, s1)"
    "Finish 3 [] None (rec_run ?evs r0) tree_world = (None, r1, w1)"
    "OpenStreamReplay (NewSession ModeReplay (Some ?c)) sample_open w1 = (Inr y, t1)"
    and b: "\<forall>cs. honest [''a''] cs \<longrightarrow> rp_run cs y = expected [''b''] ErrEOF cs"
    by (auto simp: scrubFrame_def NewSession_def)
  have "rp_run [PRecv, PSend ''a'', PHalf, PRecv] y = [RGot (Inr ''b''), RSent None, RHalf None, RGot (Inl ErrEOF)]"
    using b[rule_format, of "[PRecv, PSend ''a'', PHalf, PRecv]"] by simp
  with a show ?thesis by blast
qed

text \<open>C7: Whatever calls a recording has seen, in whatever order and from however many goroutines,
  the numbers it handed out so far are used by exactly one event each, both logs ascend, and if
  it is finished now the pair it saves passes validation; once finished, no call changes the
  recording or the disk.\<close>

theorem recording_always_valid:
  assumes "OpenStreamRecord s op = (Inr r0, s1)" "rec_step\<^sup>*\<^sup>* (r0, w0) (r, w)"
  shows "distinct (rec_events r) \<and> set (rec_events r) = {0..<(if sg_finished r then sg_seq r - 1 else sg_seq r)}
    \<and> (\<not> sg_finished r \<longrightarrow> stream_type_ok (sg_typ r) \<longrightarrow> ValidateStreamPair (finished_pair r ms pl te) = None)
    \<and> (sg_finished r \<longrightarrow> rec_step\<^sup>*\<^sup>* (r, w) (r', w') \<longrightarrow> r' = r \<and> w' = w)"
proof -
  have inv: "rec_inv r"
    using rec_inv_steps[OF assms(2)] rec_fresh_inv[OF OpenStreamRecord_fresh(1)[OF assms(1)]] by simp
  moreover have "sg_finished r \<longrightarrow> rec_step\<^sup>*\<^sup>* (r, w) (r', w') \<longrightarrow> r' = r \<and> w' = w"
    using finished_steps[of "(r, w)" "(r', w')"] by auto
  ultimately show ?thesis
    by (auto simp: rec_inv_def ValidateStreamPair_iff rec_inv_valid)
qed

theorem recording_always_valid_witness:
  "\<exists>r0 s1. OpenStreamRecord (NewSession ModeRecord (Some (NewFileCassette ''d''))) sample_open = (Inr r0, s1)
     \<and> set (rec_events (RecordSend ''x'' 0 r0)) = {0..<sg_seq (RecordSend ''x'' 0 r0)}"
proof -
  obtain r0 s1 where r0: "OpenStreamRecord (NewSession ModeRecord (Some (NewFileCassette ''d''))) sample_open = (Inr r0, s1)"
    by (rule OpenStreamRecord_succeeds[of "NewSession ModeRecord (Some (NewFileCassette ''d''))" "NewFileCassette ''d''" sample_open])
      (use sample_open_ok in \<open>simp_all add: NewSession_def sample_open_def\<close>)
  have "rec_step (r0, tree_world) (rec_apply (ESend ''x'' 0) r0, tree_world)" by (rule rec_event)
  then have "rec_step\<^sup>*\<^sup>* (r0, tree_world) (RecordSend ''x'' 0 r0, tree_world)" by simp
  from recording_always_valid[OF r0 this] have
    "set (rec_events (RecordSend ''x'' 0 r0)) = {0..<(if sg_finished (RecordSend ''x'' 0 r0) then sg_seq (RecordSend ''x'' 0 r0) - 1 else sg_seq (RecordSend ''x'' 0 r0))}"
    by blast
  moreover have "\<not> sg_finished (RecordSend ''x'' 0 r0)"
    using OpenStreamRecord_fresh(1)[OF r0] by (simp add: rec_fresh_def RecordSend_def Let_def)
  ultimately show ?thesis using r0 by auto
qed

text \<open>C34: A divergent message is caught at once and is terminal: sending octets whose scrubbed form
  differs from the recorded frame at the client's position fails with a stream mismatch that
  names the position, and from then on every call, sends and receives alike, fails with that
  same error.\<close>

theorem divergent_send_is_terminal:
  assumes "sy_mismatch r = None" "sy_sendIdx r < length (rq_Frames (p_Req (sy_pair r)))"
    and "scrubFrame (sy_scrub r) StreamSend (sy_info r) m \<noteq> f_Message (rq_Frames (p_Req (sy_pair r)) ! sy_sendIdx r)"
  shows "\<exists>e. is_stream_mismatch e \<and> (\<exists>d. e = StreamMismatchError ''send'' (int (sy_sendIdx r)) d)
    \<and> list_all (failed_with e) (rp_run (PSend m # cs) r)"
proof -
  obtain e d where e: "e = StreamMismatchError ''send'' (int (sy_sendIdx r)) d"
    "replay_Send m r = (Some e, r\<lparr>sy_mismatch := Some e\<rparr>)"
    using assms by (simp add: replay_Send_def Let_def)
  then show ?thesis
    using mismatch_run[of "r\<lparr>sy_mismatch := Some e\<rparr>" e cs] by auto
qed

theorem divergent_send_is_terminal_witness:
  "let r = \<lparr>sy_fingerprint = [], sy_pair = sample_pair, sy_scrub = None,
            sy_info = \<lparr>info_AdapterID = ''grpc'', info_Type = ''bidi''\<rparr>, sy_sendIdx = 0, sy_recvIdx = 0, sy_mismatch = None\<rparr>
   in \<exists>e. is_stream_mismatch e \<and> list_all (failed_with e) (rp_run [PSend ''other'', PRecv, PHalf] r)"
proof -
  let ?r = "\<lparr>sy_fingerprint = [], sy_pair = sample_pair, sy_scrub = None,
            sy_info = \<lparr>info_AdapterID = ''grpc'', info_Type = ''bidi''\<rparr>, sy_sendIdx = 0, sy_recvIdx = 0, sy_mismatch = None\<rparr>"
  have "sy_mismatch ?r = None" "sy_sendIdx ?r < length (rq_Frames (p_Req (sy_pair ?r)))"
    "scrubFrame (sy_scrub ?r) StreamSend (sy_info ?r) ''other'' \<noteq> f_Message (rq_Frames (p_Req (sy_pair ?r)) ! sy_sendIdx ?r)"
    by (simp_all add: sample_pair_def scrubFrame_def)
  from divergent_send_is_terminal[OF this, of "[PRecv, PHalf]"] show ?thesis
    unfolding Let_def by blast
qed

text \<open>C37: Occurrences are counted from zero: in a session that has opened some counter-addressed
  streams, the next open is fingerprinted with the number of earlier opens that had the same
  adapter, stream type and identity, and with nothing else.\<close>

theorem occurrence_is_number_of_earlier_opens:
  assumes "list_all counted ops" "counted op" "s_streamN s = (\<lambda>_. None)"
  shows "fst (streamOpenFingerprint (fold (\<lambda>p s. snd (streamOpenFingerprint s p)) ops s) op)
    = (let n = int (length (filter (same_identity op) ops)) in map_sum id (\<lambda>fp. (fp, n)) (StreamFingerprint op n))"
proof -
  obtain base where b: "streamCanonical op (-1) = Inr base" "open_key op = [stream_key op base]"
    by (rule counted_key[OF assms(2)])
  have "stream_count (fold (\<lambda>p s. snd (streamOpenFingerprint s p)) ops s) (stream_key op base)
      = stream_count s (stream_key op base) + int (count_list (concat (map open_key ops)) (stream_key op base))"
    unfolding streamOpenFingerprint_states by (rule streamN.count_ticks)
  also have "\<dots> = int (length (filter (same_identity op) ops))"
    using count_keys[OF assms(2,1) b(2)] assms(3) by simp
  finally show ?thesis
    using assms(2) by (simp add: streamOpenFingerprint_value[OF _ b(1)] counted_def Let_def)
qed

theorem occurrence_is_number_of_earlier_opens_witness:
  "fst (streamOpenFingerprint (snd (streamOpenFingerprint (NewSession ModeReplay None) sample_open)) sample_open)
   = map_sum id (\<lambda>fp. (fp, 1)) (StreamFingerprint sample_open 1)"
  using occurrence_is_number_of_earlier_opens[of "[sample_open]" sample_open "NewSession ModeReplay None"] sample_open_ok(2)
  by (simp add: NewSession_def same_identity_def Let_def)

text \<open>Recording and replaying stay in step: a record session and a replay session that start
  with the same counters and open the same streams, whether the replayed opens hit or miss, end
  with the same counters, so the next open is fingerprinted alike in both.\<close>

theorem record_replay_lockstep:
  assumes "s_mode s = ModeRecord" "s_cassette s = Some c" "s_mode t = ModeReplay" "s_cassette t = Some d"
    and "s_streamN s = s_streamN t" "list_all (\<lambda>op. so_AdapterID op \<noteq> []) ops"
  shows "s_streamN (fold (\<lambda>p s. snd (OpenStreamRecord s p)) ops s) = s_streamN (fold (\<lambda>p t. snd (OpenStreamReplay t p w)) ops t)
    \<and> fst (streamOpenFingerprint (fold (\<lambda>p s. snd (OpenStreamRecord s p)) ops s) op)
      = fst (streamOpenFingerprint (fold (\<lambda>p t. snd (OpenStreamReplay t p w)) ops t) op)"
proof -
  have step: "snd (OpenStreamRecord s p) = snd (streamOpenFingerprint s p)"
    if "s_mode s = ModeRecord" "s_cassette s = Some c" "so_AdapterID p \<noteq> []" for s p
    using that by (auto simp: OpenStreamRecord_def checkStreamOpen_def split: sum.splits prod.splits)
  have step': "snd (OpenStreamReplay t p w) = snd (streamOpenFingerprint t p)"
    if "s_mode t = ModeReplay" "s_cassette t = Some d" "so_AdapterID p \<noteq> []" for t p
    using that by (auto simp: OpenStreamReplay_def checkStreamOpen_def split: sum.splits prod.splits)
  have keep: "s_mode (snd (streamOpenFingerprint s p)) = s_mode s \<and> s_cassette (snd (streamOpenFingerprint s p)) = s_cassette s" for s p
    by (auto simp: streamOpenFingerprint_def nextStreamN_def Let_def split: sum.splits)
  have "s_streamN (fold (\<lambda>p s. snd (OpenStreamRecord s p)) ops s) = s_streamN (fold (\<lambda>p t. snd (OpenStreamReplay t p w)) ops t)"
    using assms
  proof (induction ops arbitrary: s t)
    case (Cons p ops)
    have "s_streamN (snd (streamOpenFingerprint s p)) = s_streamN (snd (streamOpenFingerprint t p))"
      using Cons.prems(5) by (rule streamOpenFingerprint_same(2))
    then show ?case
      using Cons.IH[of "snd (streamOpenFingerprint s p)" "snd (streamOpenFingerprint t p)"] Cons.prems
      by (simp add: step step' keep)
  qed simp
  then show ?thesis
    using streamOpenFingerprint_same(1) by blast
qed

theorem record_replay_lockstep_witness:
  "s_streamN (snd (OpenStreamRecord (NewSession ModeRecord (Some (NewFileCassette ''d''))) sample_open))
   = s_streamN (snd (OpenStreamReplay (NewSession ModeReplay (Some (NewFileCassette ''d''))) sample_open tree_world))"
  using record_replay_lockstep[of "NewSession ModeRecord (Some (NewFileCassette ''d''))" "NewFileCassette ''d''"
      "NewSession ModeReplay (Some (NewFileCassette ''d''))" "NewFileCassette ''d''" "[sample_open]" tree_world sample_open]
  by (simp add: NewSession_def sample_open_def)

text \<open>Two calls that a hook makes the same.\<close>

fun same_scrubbed :: "StreamScrubFunc option \<Rightarrow> StreamScrubInfo \<Rightarrow> rec_event \<Rightarrow> rec_event \<Rightarrow> bool" where
  "same_scrubbed f i (ESend m t) (ESend m' t') \<longleftrightarrow> t = t' \<and> scrubFrame f StreamSend i m = scrubFrame f StreamSend i m'"
| "same_scrubbed f i (ERecv m t) (ERecv m' t') \<longleftrightarrow> t = t' \<and> scrubFrame f StreamRecv i m = scrubFrame f StreamRecv i m'"
| "same_scrubbed f i (EHalf t) (EHalf t') \<longleftrightarrow> t = t'"
| "same_scrubbed f i _ _ \<longleftrightarrow> False"

text \<open>Frame scrubbing hides what it scrubs: two conversations whose messages have the same
  scrubbed form, and the same timing, leave the same recording, hence the same files.\<close>

theorem scrubbed_recordings_agree:
  assumes "list_all2 (same_scrubbed (sg_scrub r) (scrubInfo r)) evs evs'"
  shows "rec_run evs r = rec_run evs' r
    \<and> Finish ms pl te (rec_run evs r) w = Finish ms pl te (rec_run evs' r) w"
proof -
  have step: "rec_apply e r = rec_apply e' r" if "same_scrubbed (sg_scrub r) (scrubInfo r) e e'" for e e' r
    using that by (cases "(sg_scrub r, scrubInfo r, e, e')" rule: same_scrubbed.cases)
      (auto simp: RecordSend_def RecordRecv_def)
  have "rec_run evs r = rec_run evs' r"
    using assms
  proof (induction evs arbitrary: evs' r)
    case (Cons e evs)
    then obtain e' es where e: "evs' = e' # es" "same_scrubbed (sg_scrub r) (scrubInfo r) e e'"
      "list_all2 (same_scrubbed (sg_scrub r) (scrubInfo r)) evs es"
      by (auto simp: list_all2_Cons1)
    then show ?case
      using Cons.IH[of "rec_apply e' r" es] step rec_apply_fixed[of e' r] by simp
  qed simp
  then show ?thesis by simp
qed

theorem scrubbed_recordings_agree_witness:
  "let hide = (\<lambda>dir info m. map (\<lambda>_. CHR ''x'') m);
       r = \<lparr>sg_cassette = NewFileCassette ''d'', sg_adapterID = ''grpc'', sg_fingerprint = ''0123abcd'', sg_typ = ''bidi'',
            sg_reqPayload = [], sg_scrub = Some hide, sg_seq = 0, sg_sends = [], sg_recvs = [], sg_halfClose = None,
            sg_finished = False\<rparr>
   in rec_run [ESend ''abc'' 0] r = rec_run [ESend ''def'' 0] r"
proof -
  let ?hide = "\<lambda>(dir :: string) (info :: StreamScrubInfo) m. map (\<lambda>_ :: char. CHR ''x'') m"
  let ?r = "\<lparr>sg_cassette = NewFileCassette ''d'', sg_adapterID = ''grpc'', sg_fingerprint = ''0123abcd'', sg_typ = ''bidi'',
            sg_reqPayload = [], sg_scrub = Some ?hide, sg_seq = 0, sg_sends = [], sg_recvs = [], sg_halfClose = None,
            sg_finished = False\<rparr>"
  have "list_all2 (same_scrubbed (sg_scrub ?r) (scrubInfo ?r)) [ESend ''abc'' 0] [ESend ''def'' 0]"
    by (simp add: scrubFrame_def)
  from scrubbed_recordings_agree[OF this] show ?thesis
    unfolding Let_def by blast
qed

end
