(* ===== verification/Grpc_Stream.thy ===== *)
theory Grpc_Stream
  imports Stream_Session
begin

section \<open>The streaming gRPC interceptor (adapters/grpc/stream.go)\<close>

text \<open>
  Records and replays server, client and bidirectional streams through an interceptor, on top of
  stream sessions. The gRPC runtime and the protobuf codec are third-party code: they are the
  record \<open>grpc_lib\<close>, with the laws the adapter relies on in \<open>grpc_lib_ok\<close>.
  The live stream is not modelled; every operation of a recording stream takes the result its
  live counterpart returned. The texts of errors leave out the quotes of \<^verbatim>\<open>%q\<close> and
  the type name of \<^verbatim>\<open>%T\<close>.
\<close>

subsection \<open>The gRPC runtime and messages\<close>

record 'p grpc_lib =
  float_int :: "string \<Rightarrow> int option"
  code_String :: "int \<Rightarrow> string"
  status_Code :: "goerr \<Rightarrow> int"
  status_Error :: "int \<Rightarrow> string \<Rightarrow> goerr"
  pb_marshal :: "'p \<Rightarrow> bytes res"
  pb_unmarshal :: "bytes \<Rightarrow> 'p res"

definition rpc_text :: "'p grpc_lib \<Rightarrow> int \<Rightarrow> string \<Rightarrow> string" where
  "rpc_text L c desc = ''rpc error: code = '' @ code_String L c @ '' desc = '' @ desc"

text \<open>A status error renders in the standard form and gives its code back; the codec decodes
  what it encoded. \<open>float_int\<close> converts the float a YAML scalar decoded to (an opaque value
  of the model) to an integer.\<close>

definition grpc_lib_ok :: "'p grpc_lib \<Rightarrow> bool" where
  "grpc_lib_ok L \<longleftrightarrow>
     (\<forall>c desc. c \<noteq> 0 \<longrightarrow> status_Error L c desc = StatusError c desc (rpc_text L c desc))
   \<and> (\<forall>c desc t. status_Code L (StatusError c desc t) = c)
   \<and> (\<forall>v b. pb_marshal L v = Inr b \<longrightarrow> pb_unmarshal L b = Inr v)"

text \<open>The dynamic types a message can have.\<close>

datatype 'p gmsg = ProtoMsg 'p | ProtoV1 'p | BytesPtr "bytes option" | BytesVal bytes | OtherMsg

fun marshalMessage :: "'p grpc_lib \<Rightarrow> 'p gmsg \<Rightarrow> bytes res" where
  "marshalMessage L (ProtoMsg v) = pb_marshal L v"
| "marshalMessage L (ProtoV1 v) = pb_marshal L v"
| "marshalMessage L (BytesPtr None) = Inl (ErrNew ''grpc: nil *[]byte message'')"
| "marshalMessage L (BytesPtr (Some b)) = Inr b"
| "marshalMessage L (BytesVal b) = Inr b"
| "marshalMessage L OtherMsg = Inl (ErrNew ''grpc: cannot marshal message type to wire bytes'')"

text \<open>The result is the caller's message after decoding.\<close>

fun unmarshalMessage :: "'p grpc_lib \<Rightarrow> bytes \<Rightarrow> 'p gmsg \<Rightarrow> 'p gmsg res" where
  "unmarshalMessage L data (ProtoMsg v) = map_sum id ProtoMsg (pb_unmarshal L data)"
| "unmarshalMessage L data (ProtoV1 v) = map_sum id ProtoV1 (pb_unmarshal L data)"
| "unmarshalMessage L data (BytesPtr None) = Inl (ErrNew ''grpc: nil *[]byte message'')"
| "unmarshalMessage L data (BytesPtr (Some b)) = Inr (BytesPtr (Some data))"
| "unmarshalMessage L data (BytesVal b) = Inl (ErrNew ''grpc: cannot unmarshal wire bytes into message type'')"
| "unmarshalMessage L data OtherMsg = Inl (ErrNew ''grpc: cannot unmarshal wire bytes into message type'')"

subsection \<open>Opening\<close>

record StreamDesc =
  d_StreamName :: string
  d_ServerStreams :: bool
  d_ClientStreams :: bool

definition streamTypeOf :: "StreamDesc \<Rightarrow> string res" where
  "streamTypeOf desc =
     (if d_ClientStreams desc \<and> d_ServerStreams desc then Inr StreamBidi
      else if d_ServerStreams desc then Inr StreamServer
      else if d_ClientStreams desc then Inr StreamClient
      else Inl (ErrNew (''grpc: '' @ d_StreamName desc
                 @ '' is unary-shaped (no stream direction); unary RPCs use the unary adapter path'')))"

definition grpc_streamOpen :: "FileSession \<Rightarrow> string \<Rightarrow> string \<Rightarrow> string \<Rightarrow> bytes \<Rightarrow> StreamOpen" where
  "grpc_streamOpen s typ0 service method msg =
     (let ident = [(''service'', GStr service), (''method'', GStr method)] in
      if typ0 = StreamServer then
        let scrubbed = ScrubStreamFrame s StreamSend \<lparr>info_AdapterID = ''grpc'', info_Type = typ0\<rparr> msg
        in \<lparr>so_AdapterID = ''grpc'', so_Type = typ0, so_Identity = ident @ [(''msg_hash'', GStr (sum4 scrubbed))],
            so_Counter = False, so_Payload = ident\<rparr>
      else \<lparr>so_AdapterID = ''grpc'', so_Type = typ0, so_Identity = ident, so_Counter = True, so_Payload = ident\<rparr>)"

definition splitFullMethod :: "string \<Rightarrow> (string \<times> string) res" where
  "splitFullMethod full =
     (let s = trim_prefix ''/'' full;
          bad = Inl (ErrNew (''grpc: malformed full method '' @ full @ '' (want /service/method)''))
      in case last_index slash s of
           None \<Rightarrow> bad
         | Some i \<Rightarrow> if i = 0 \<or> i = length s - 1 then bad else Inr (take i s, drop (i + 1) s))"

subsection \<open>Recording streams\<close>

record recordStream =
  rs_typ :: string
  rs_service :: string
  rs_method :: string
  rs_serverStreams :: bool
  rs_rec :: "StreamRecording option"
  rs_finished :: bool

text \<open>\<open>live\<close> is the error of opening the live stream, if any.\<close>

definition newRecordStream ::
  "FileSession \<Rightarrow> StreamDesc \<Rightarrow> string \<Rightarrow> goerr option \<Rightarrow> recordStream res \<times> FileSession" where
  "newRecordStream s desc method live =
     (case streamTypeOf desc of
        Inl e \<Rightarrow> (Inl e, s)
      | Inr typ0 \<Rightarrow>
          (case splitFullMethod method of
             Inl e \<Rightarrow> (Inl e, s)
           | Inr (service, mth) \<Rightarrow>
               let rs = \<lparr>rs_typ = typ0, rs_service = service, rs_method = mth,
                         rs_serverStreams = d_ServerStreams desc, rs_rec = None, rs_finished = False\<rparr>;
                   opened = (\<lambda>rs. case live of Some e \<Rightarrow> Inl e | None \<Rightarrow> Inr rs)
               in if typ0 \<noteq> StreamServer then
                    (case OpenStreamRecord s (grpc_streamOpen s typ0 service mth []) of
                       (Inl e, s') \<Rightarrow> (Inl e, s')
                     | (Inr r, s') \<Rightarrow> (opened (rs\<lparr>rs_rec := Some r\<rparr>), s'))
                  else (opened rs, s)))"

definition record_ensureOpen :: "bytes \<Rightarrow> recordStream \<Rightarrow> FileSession \<Rightarrow> StreamRecording res \<times> recordStream \<times> FileSession" where
  "record_ensureOpen openMsg rs s =
     (case rs_rec rs of
        Some r \<Rightarrow> (Inr r, rs, s)
      | None \<Rightarrow>
          (case OpenStreamRecord s (grpc_streamOpen s (rs_typ rs) (rs_service rs) (rs_method rs) openMsg) of
             (Inl e, s') \<Rightarrow> (Inl e, rs, s')
           | (Inr r, s') \<Rightarrow> (Inr r, rs\<lparr>rs_rec := Some r\<rparr>, s')))"

definition record_finish ::
  "int \<Rightarrow> int \<Rightarrow> goerr option \<Rightarrow> recordStream \<Rightarrow> 'd world \<Rightarrow> goerr option \<times> recordStream \<times> 'd world" where
  "record_finish ms code terminal rs w =
     (case rs_rec rs of
        None \<Rightarrow> (None, rs, w)
      | Some r \<Rightarrow>
          if rs_finished rs then (None, rs, w)
          else let code' = (if terminal \<noteq> None \<and> code = 0 then 2 else code)
               in (case Finish ms [(''status_code'', GInt code')] terminal r w of
                     (e, r', w') \<Rightarrow> (e, rs\<lparr>rs_finished := True, rs_rec := Some r'\<rparr>, w')))"

definition record_SendMsg ::
  "'p grpc_lib \<Rightarrow> 'p gmsg \<Rightarrow> goerr option \<Rightarrow> int \<Rightarrow> recordStream \<Rightarrow> FileSession
   \<Rightarrow> goerr option \<times> recordStream \<times> FileSession" where
  "record_SendMsg L m live ms rs s =
     (case marshalMessage L m of
        Inl e \<Rightarrow> (Some e, rs, s)
      | Inr b \<Rightarrow>
          (case record_ensureOpen b rs s of
             (Inl e, rs', s') \<Rightarrow> (Some e, rs', s')
           | (Inr r, rs', s') \<Rightarrow>
               (case live of
                  Some e \<Rightarrow> (Some e, rs', s')
                | None \<Rightarrow> (None, rs'\<lparr>rs_rec := Some (RecordSend b ms r)\<rparr>, s'))))"

text \<open>\<open>live\<close> is the error of the live receive; \<open>m\<close> the message it filled in.\<close>

definition record_RecvMsg ::
  "'p grpc_lib \<Rightarrow> 'p gmsg \<Rightarrow> goerr option \<Rightarrow> int \<Rightarrow> recordStream \<Rightarrow> 'd world
   \<Rightarrow> goerr option \<times> recordStream \<times> 'd world" where
  "record_RecvMsg L m live ms rs w =
     (case live of
        None \<Rightarrow>
          (case rs_rec rs of
             None \<Rightarrow> (None, rs, w)
           | Some r \<Rightarrow>
               (case marshalMessage L m of
                  Inl e \<Rightarrow> (Some e, rs, w)
                | Inr b \<Rightarrow>
                    let rs' = rs\<lparr>rs_rec := Some (RecordRecv b ms r)\<rparr>
                    in if \<not> rs_serverStreams rs then record_finish ms 0 None rs' w else (None, rs', w)))
      | Some err \<Rightarrow>
          if err_is err ErrEOF then
            (case record_finish ms 0 None rs w of
               (Some fe, rs', w') \<Rightarrow> (Some fe, rs', w')
             | (None, rs', w') \<Rightarrow> (Some err, rs', w'))
          else
            (case record_finish ms (status_Code L err) (Some err) rs w of
               (Some fe, rs', w') \<Rightarrow> (Some fe, rs', w')
             | (None, rs', w') \<Rightarrow> (Some err, rs', w')))"

definition record_CloseSend :: "goerr option \<Rightarrow> int \<Rightarrow> recordStream \<Rightarrow> goerr option \<times> recordStream" where
  "record_CloseSend live ms rs =
     (live, case (live, rs_rec rs) of (None, Some r) \<Rightarrow> rs\<lparr>rs_rec := Some (RecordHalfClose ms r)\<rparr> | _ \<Rightarrow> rs)"

subsection \<open>Replaying streams\<close>

record replayStream =
  ry_typ :: string
  ry_service :: string
  ry_method :: string
  ry_rp :: "StreamReplay option"
  ry_openErr :: "goerr option"

definition newReplayStream ::
  "FileSession \<Rightarrow> StreamDesc \<Rightarrow> string \<Rightarrow> 'd world \<Rightarrow> replayStream res \<times> FileSession" where
  "newReplayStream s desc method w =
     (case streamTypeOf desc of
        Inl e \<Rightarrow> (Inl e, s)
      | Inr typ0 \<Rightarrow>
          (case splitFullMethod method of
             Inl e \<Rightarrow> (Inl e, s)
           | Inr (service, mth) \<Rightarrow>
               let ry = \<lparr>ry_typ = typ0, ry_service = service, ry_method = mth, ry_rp = None, ry_openErr = None\<rparr>
               in if typ0 \<noteq> StreamServer then
                    (case OpenStreamReplay s (grpc_streamOpen s typ0 service mth []) w of
                       (Inl e, s') \<Rightarrow> (Inl e, s')
                     | (Inr y, s') \<Rightarrow> (Inr (ry\<lparr>ry_rp := Some y\<rparr>), s'))
                  else (Inr ry, s)))"

definition replay_ensureOpen ::
  "bytes \<Rightarrow> replayStream \<Rightarrow> FileSession \<Rightarrow> 'd world \<Rightarrow> StreamReplay res \<times> replayStream \<times> FileSession" where
  "replay_ensureOpen openMsg ry s w =
     (case ry_openErr ry of
        Some e \<Rightarrow> (Inl e, ry, s)
      | None \<Rightarrow>
          (case ry_rp ry of
             Some y \<Rightarrow> (Inr y, ry, s)
           | None \<Rightarrow>
               (case OpenStreamReplay s (grpc_streamOpen s (ry_typ ry) (ry_service ry) (ry_method ry) openMsg) w of
                  (Inl e, s') \<Rightarrow> (Inl e, ry\<lparr>ry_openErr := Some e\<rparr>, s')
                | (Inr y, s') \<Rightarrow> (Inr y, ry\<lparr>ry_rp := Some y\<rparr>, s'))))"

definition replay_handle :: "'p grpc_lib \<Rightarrow> replayStream \<Rightarrow> StreamReplay res" where
  "replay_handle L ry =
     (case ry_openErr ry of
        Some e \<Rightarrow> Inl e
      | None \<Rightarrow>
          (case ry_rp ry of
             None \<Rightarrow> Inl (status_Error L 9 (''xrr: server-stream operation before the request message ''
                        @ ''(replay locates the cassette by the open message)''))
           | Some y \<Rightarrow> Inr y))"

text \<open>\<^verbatim>\<open>int(v)\<close> keeps the low 64 bits of an unsigned number.\<close>

definition to_int64 :: "int \<Rightarrow> int" where
  "to_int64 v = (v + 2 ^ 63) mod 2 ^ 64 - 2 ^ 63"

definition statusCodeFrom :: "'p grpc_lib \<Rightarrow> (string \<times> gval) list \<Rightarrow> int" where
  "statusCodeFrom L payload =
     (case map_of payload ''status_code'' of
        Some (GInt v) \<Rightarrow> to_int64 v
      | Some (GOpaque t) \<Rightarrow> (case float_int L t of Some v \<Rightarrow> v | None \<Rightarrow> 2)
      | _ \<Rightarrow> 2)"

text \<open>\<^verbatim>\<open>codes.Code\<close> is an unsigned 32-bit number.\<close>

definition recordedStatusErr :: "'p grpc_lib \<Rightarrow> StreamReplay \<Rightarrow> string \<Rightarrow> goerr" where
  "recordedStatusErr L y msg =
     (let code0 = statusCodeFrom L (p_RespPayload (sy_pair y)) mod 2 ^ 32;
          code = (if code0 = 0 then 2 else code0)
      in case cut_prefix (''rpc error: code = '' @ code_String L code @ '' desc = '') msg of
           Some desc \<Rightarrow> status_Error L code desc
         | None \<Rightarrow> status_Error L code msg)"

definition mapErr :: "'p grpc_lib \<Rightarrow> StreamReplay \<Rightarrow> goerr option \<Rightarrow> goerr option" where
  "mapErr L y err =
     (case err of
        None \<Rightarrow> None
      | Some e \<Rightarrow>
          if err_is e ErrEOF then Some ErrEOF
          else if is_stream_mismatch e then Some e
          else Some (recordedStatusErr L y (err_text e)))"

definition replay_SendMsg ::
  "'p grpc_lib \<Rightarrow> 'p gmsg \<Rightarrow> replayStream \<Rightarrow> FileSession \<Rightarrow> 'd world \<Rightarrow> goerr option \<times> replayStream \<times> FileSession" where
  "replay_SendMsg L m ry s w =
     (case marshalMessage L m of
        Inl e \<Rightarrow> (Some e, ry, s)
      | Inr b \<Rightarrow>
          (case replay_ensureOpen b ry s w of
             (Inl e, ry', s') \<Rightarrow> (Some e, ry', s')
           | (Inr y, ry', s') \<Rightarrow>
               (case replay_Send b y of (e, y') \<Rightarrow> (mapErr L y' e, ry'\<lparr>ry_rp := Some y'\<rparr>, s'))))"

definition replay_RecvMsg :: "'p grpc_lib \<Rightarrow> 'p gmsg \<Rightarrow> replayStream \<Rightarrow> 'p gmsg res \<times> replayStream" where
  "replay_RecvMsg L m ry =
     (case replay_handle L ry of
        Inl e \<Rightarrow> (Inl e, ry)
      | Inr y \<Rightarrow>
          (case replay_Recv y of
             (Inl e, y') \<Rightarrow> (Inl (case mapErr L y' (Some e) of Some e' \<Rightarrow> e' | None \<Rightarrow> e), ry\<lparr>ry_rp := Some y'\<rparr>)
           | (Inr b, y') \<Rightarrow> (unmarshalMessage L b m, ry\<lparr>ry_rp := Some y'\<rparr>)))"

definition replay_CloseSend :: "'p grpc_lib \<Rightarrow> replayStream \<Rightarrow> goerr option \<times> replayStream" where
  "replay_CloseSend L ry =
     (case replay_handle L ry of
        Inl e \<Rightarrow> (Some e, ry)
      | Inr y \<Rightarrow> (case replay_HalfClose y of (e, y') \<Rightarrow> (mapErr L y' e, ry\<lparr>ry_rp := Some y'\<rparr>)))"

text \<open>What the interceptor hands back: the live stream itself, a recording or a replaying one.\<close>

datatype client_stream = LiveStream | RecordingStream recordStream | ReplayingStream replayStream

definition StreamClientInterceptor ::
  "FileSession \<Rightarrow> StreamDesc \<Rightarrow> string \<Rightarrow> goerr option \<Rightarrow> 'd world \<Rightarrow> client_stream res \<times> FileSession" where
  "StreamClientInterceptor s desc method live w =
     (if s_mode s = ModePassthrough then ((case live of Some e \<Rightarrow> Inl e | None \<Rightarrow> Inr LiveStream), s)
      else if s_mode s = ModeRecord then
        (case newRecordStream s desc method live of (r, s') \<Rightarrow> (map_sum id RecordingStream r, s'))
      else if s_mode s = ModeReplay then
        (case newReplayStream s desc method w of (r, s') \<Rightarrow> (map_sum id ReplayingStream r, s'))
      else (Inl (ErrNew (''grpc: unknown session mode '' @ s_mode s)), s))"

subsection \<open>Messages and method names\<close>

text \<open>Two messages of the same dynamic type.\<close>

fun same_kind :: "'p gmsg \<Rightarrow> 'p gmsg \<Rightarrow> bool" where
  "same_kind (ProtoMsg _) (ProtoMsg _) = True"
| "same_kind (ProtoV1 _) (ProtoV1 _) = True"
| "same_kind (BytesPtr (Some _)) (BytesPtr (Some _)) = True"
| "same_kind _ _ = False"

definition wire_bytes :: "'p grpc_lib \<Rightarrow> 'p gmsg \<Rightarrow> bytes" where
  "wire_bytes L m = (case marshalMessage L m of Inr b \<Rightarrow> b | Inl e \<Rightarrow> [])"

definition marshals :: "'p grpc_lib \<Rightarrow> 'p gmsg \<Rightarrow> bool" where
  "marshals L m \<longleftrightarrow> (\<exists>b. marshalMessage L m = Inr b)"

lemma marshals_bytes: "marshals L m \<Longrightarrow> marshalMessage L m = Inr (wire_bytes L m)"
  by (auto simp: marshals_def wire_bytes_def)

lemma unmarshal_wire_bytes:
  "grpc_lib_ok L \<Longrightarrow> marshals L m \<Longrightarrow> same_kind buf m \<Longrightarrow> unmarshalMessage L (wire_bytes L m) buf = Inr m"
  by (cases "(buf, m)" rule: same_kind.cases) (auto simp: marshals_def wire_bytes_def grpc_lib_ok_def)

lemma splitFullMethod_Inr:
  "splitFullMethod full = Inr (service, mth) \<longleftrightarrow>
     trim_prefix ''/'' full = service @ slash # mth \<and> service \<noteq> [] \<and> mth \<noteq> [] \<and> slash \<notin> set mth"
proof -
  let ?s = "trim_prefix ''/'' full"
  show ?thesis
  proof (cases "last_index slash ?s")
    case None
    then have "slash \<notin> set ?s" by (simp add: last_index_None)
    then have "?s \<noteq> service @ slash # mth" by (metis in_set_conv_decomp)
    with None show ?thesis by (simp add: splitFullMethod_def)
  next
    case (Some i)
    note i = last_index_Some[OF Some]
    obtain a b where ab: "?s = a @ slash # b" "length a = i" "slash \<notin> set b"
      using i id_take_nth_drop[of i ?s] by (intro that[of "take i ?s" "drop (Suc i) ?s"]) auto
    have "splitFullMethod full = Inr (service, mth) \<longleftrightarrow> a \<noteq> [] \<and> b \<noteq> [] \<and> a = service \<and> b = mth"
      using Some ab(1,2) by (auto simp: splitFullMethod_def Let_def)
    also have "\<dots> \<longleftrightarrow> service \<noteq> [] \<and> mth \<noteq> [] \<and> slash \<notin> set mth \<and> a @ slash # b = service @ slash # mth"
      using ab(3) last_index_append_sep[of slash b a] last_index_append_sep[of slash mth service]
      by (metis append_eq_append_conv list.inject option.inject)
    finally show ?thesis using ab(1) by auto
  qed
qed

subsection \<open>Runs of the interceptor\<close>

text \<open>The successful calls of a live conversation, the message of a receive being the one the
  live stream delivered; \<open>record_run\<close> gives the error each call returned to the caller.\<close>

datatype 'p gop = GSend "'p gmsg" int | GRecv "'p gmsg" int | GClose int

fun record_run ::
  "'p grpc_lib \<Rightarrow> 'p gop list \<Rightarrow> recordStream \<Rightarrow> FileSession \<Rightarrow> 'd world
   \<Rightarrow> goerr option list \<times> recordStream \<times> FileSession \<times> 'd world" where
  "record_run L [] rs s w = ([], rs, s, w)"
| "record_run L (GSend m ms # ops) rs s w =
     (case record_SendMsg L m None ms rs s of (e, rs', s') \<Rightarrow>
      case record_run L ops rs' s' w of (es, r) \<Rightarrow> (e # es, r))"
| "record_run L (GRecv m ms # ops) rs s w =
     (case record_RecvMsg L m None ms rs w of (e, rs', w') \<Rightarrow>
      case record_run L ops rs' s w' of (es, r) \<Rightarrow> (e # es, r))"
| "record_run L (GClose ms # ops) rs s w =
     (case record_CloseSend None ms rs of (e, rs') \<Rightarrow>
      case record_run L ops rs' s w of (es, r) \<Rightarrow> (e # es, r))"

fun op_event :: "'p grpc_lib \<Rightarrow> 'p gop \<Rightarrow> rec_event" where
  "op_event L (GSend m ms) = ESend (wire_bytes L m) ms"
| "op_event L (GRecv m ms) = ERecv (wire_bytes L m) ms"
| "op_event L (GClose ms) = EHalf ms"

fun op_marshals :: "'p grpc_lib \<Rightarrow> 'p gop \<Rightarrow> bool" where
  "op_marshals L (GSend m ms) = marshals L m"
| "op_marshals L (GRecv m ms) = marshals L m"
| "op_marshals L (GClose ms) = True"

lemma record_run_opened:
  assumes "rs_rec rs = Some r" "rs_serverStreams rs" "list_all (op_marshals L) ops"
  shows "record_run L ops rs s w =
    (replicate (length ops) None, rs\<lparr>rs_rec := Some (rec_run (map (op_event L) ops) r)\<rparr>, s, w)"
  using assms
proof (induction ops arbitrary: rs r)
  case (Cons x ops)
  show ?case
  proof (cases x)
    case (GSend m ms)
    with Cons.prems Cons.IH[of "rs\<lparr>rs_rec := Some (RecordSend (wire_bytes L m) ms r)\<rparr>"] show ?thesis
      by (simp add: record_SendMsg_def record_ensureOpen_def marshals_bytes)
  next
    case (GRecv m ms)
    with Cons.prems Cons.IH[of "rs\<lparr>rs_rec := Some (RecordRecv (wire_bytes L m) ms r)\<rparr>"] show ?thesis
      by (simp add: record_RecvMsg_def marshals_bytes)
  next
    case (GClose ms)
    with Cons.prems Cons.IH[of "rs\<lparr>rs_rec := Some (RecordHalfClose ms r)\<rparr>"] show ?thesis
      by (simp add: record_CloseSend_def)
  qed
qed simp

text \<open>The deferred open of a server stream is invisible: the first send behaves as if the
  recording had been open before.\<close>

lemma record_run_deferred:
  assumes "rs_rec rs = None" "marshals L m"
    and "OpenStreamRecord s (grpc_streamOpen s (rs_typ rs) (rs_service rs) (rs_method rs) (wire_bytes L m)) = (Inr r, s')"
  shows "record_run L (GSend m ms # ops) rs s w = record_run L (GSend m ms # ops) (rs\<lparr>rs_rec := Some r\<rparr>) s' w"
  using assms by (simp add: record_SendMsg_def record_ensureOpen_def marshals_bytes)

text \<open>The calls of a replaying client, and what it observes.\<close>

datatype 'p gcall = CSend "'p gmsg" | CRecv "'p gmsg" | CClose

datatype 'p gobs = OSent "goerr option" | OGot "'p gmsg res" | OClosed "goerr option"

fun replay_run :: "'p grpc_lib \<Rightarrow> 'p gcall list \<Rightarrow> replayStream \<Rightarrow> FileSession \<Rightarrow> 'd world \<Rightarrow> 'p gobs list" where
  "replay_run L [] ry s w = []"
| "replay_run L (CSend m # cs) ry s w =
     (case replay_SendMsg L m ry s w of (e, ry', s') \<Rightarrow> OSent e # replay_run L cs ry' s' w)"
| "replay_run L (CRecv m # cs) ry s w =
     (case replay_RecvMsg L m ry of (x, ry') \<Rightarrow> OGot x # replay_run L cs ry' s w)"
| "replay_run L (CClose # cs) ry s w =
     (case replay_CloseSend L ry of (e, ry') \<Rightarrow> OClosed e # replay_run L cs ry' s w)"

fun call_wire :: "'p grpc_lib \<Rightarrow> 'p gcall \<Rightarrow> rp_call" where
  "call_wire L (CSend m) = PSend (wire_bytes L m)"
| "call_wire L (CRecv m) = PRecv"
| "call_wire L CClose = PHalf"

fun call_marshals :: "'p grpc_lib \<Rightarrow> 'p gcall \<Rightarrow> bool" where
  "call_marshals L (CSend m) = marshals L m"
| "call_marshals L _ = True"

text \<open>What the client of a recorded conversation observes: its sends accepted, the messages in
  order decoded into its buffers, then the terminal error for ever.\<close>

fun observed :: "'p grpc_lib \<Rightarrow> bytes list \<Rightarrow> goerr \<Rightarrow> 'p gcall list \<Rightarrow> 'p gobs list" where
  "observed L ys e [] = []"
| "observed L ys e (CSend m # cs) = OSent None # observed L ys e cs"
| "observed L ys e (CClose # cs) = OClosed None # observed L ys e cs"
| "observed L ys e (CRecv buf # cs) =
     (case ys of [] \<Rightarrow> OGot (Inl e) # observed L [] e cs
      | y # ys' \<Rightarrow> OGot (unmarshalMessage L y buf) # observed L ys' e cs)"

fun lift_result :: "'p grpc_lib \<Rightarrow> StreamReplay \<Rightarrow> 'p gcall \<Rightarrow> rp_result \<Rightarrow> 'p gobs" where
  "lift_result L y c (RSent e) = OSent (mapErr L y e)"
| "lift_result L y c (RHalf e) = OClosed (mapErr L y e)"
| "lift_result L y (CRecv buf) (RGot (Inr b)) = OGot (unmarshalMessage L b buf)"
| "lift_result L y c (RGot x) =
     OGot (Inl (case x of Inl e \<Rightarrow> (case mapErr L y (Some e) of Some e' \<Rightarrow> e' | None \<Rightarrow> e) | Inr b \<Rightarrow> ErrEOF))"

lemma mapErr_cong: "sy_pair y = sy_pair y' \<Longrightarrow> mapErr L y e = mapErr L y' e"
  by (simp add: mapErr_def recordedStatusErr_def split: option.split)

lemma replay_pair:
  "replay_Send b y = (e, y') \<Longrightarrow> sy_pair y' = sy_pair y"
  "replay_Recv y = (x, y') \<Longrightarrow> sy_pair y' = sy_pair y"
  "replay_HalfClose y = (e, y') \<Longrightarrow> sy_pair y' = sy_pair y"
  by (auto simp: replay_Send_def replay_Recv_def replay_HalfClose_def Let_def split: option.splits if_splits)

lemma lift_result_cong: "sy_pair y = sy_pair y' \<Longrightarrow> lift_result L y c x = lift_result L y' c x"
  using mapErr_cong[of y y' L] by (cases "(L, y, c, x)" rule: lift_result.cases) (simp_all split: sum.split)

lemma replay_run_opened:
  assumes "ry_rp ry = Some y" "ry_openErr ry = None" "list_all (call_marshals L) cs"
  shows "replay_run L cs ry s w = map2 (lift_result L y) cs (rp_run (map (call_wire L) cs) y)"
  using assms
proof (induction cs arbitrary: ry y)
  case (Cons c cs)
  have rest: "replay_run L cs (ry\<lparr>ry_rp := Some y'\<rparr>) s w = map2 (lift_result L y) cs (rp_run (map (call_wire L) cs) y')"
    if "sy_pair y' = sy_pair y" for y'
  proof -
    have "lift_result L y' = lift_result L y" by (intro ext lift_result_cong that)
    then show ?thesis using Cons.IH[of "ry\<lparr>ry_rp := Some y'\<rparr>" y'] Cons.prems by simp
  qed
  show ?case
  proof (cases c)
    case (CSend m)
    obtain e y' where s: "replay_Send (wire_bytes L m) y = (e, y')" by fastforce
    with CSend Cons.prems rest[OF replay_pair(1)[OF s]] mapErr_cong[OF replay_pair(1)[OF s]] show ?thesis
      by (simp add: replay_SendMsg_def replay_ensureOpen_def marshals_bytes)
  next
    case (CRecv m)
    obtain x y' where s: "replay_Recv y = (x, y')" by fastforce
    then have "mapErr L y' e = mapErr L y e" for e
      using mapErr_cong replay_pair(2) by metis
    with s CRecv Cons.prems rest[OF replay_pair(2)[OF s]] show ?thesis
      by (cases x) (simp_all add: replay_RecvMsg_def replay_handle_def)
  next
    case CClose
    obtain e y' where s: "replay_HalfClose y = (e, y')" by fastforce
    with CClose Cons.prems rest[OF replay_pair(3)[OF s]] mapErr_cong[OF replay_pair(3)[OF s]] show ?thesis
      by (simp add: replay_CloseSend_def replay_handle_def)
  qed
qed simp

lemma replay_run_deferred:
  assumes "ry_rp ry = None" "ry_openErr ry = None" "marshals L m"
    and "OpenStreamReplay s (grpc_streamOpen s (ry_typ ry) (ry_service ry) (ry_method ry) (wire_bytes L m)) w = (Inr y, s')"
  shows "replay_run L (CSend m # cs) ry s w = replay_run L (CSend m # cs) (ry\<lparr>ry_rp := Some y\<rparr>) s' w"
  using assms by (simp add: replay_SendMsg_def replay_ensureOpen_def marshals_bytes)

lemma rp_run_length: "length (rp_run cs y) = length cs"
  by (induction cs y rule: rp_run.induct) (auto split: prod.splits)

lemma lift_expected:
  assumes "mapErr L y (Some t) = Some e"
  shows "map2 (lift_result L y) cs (expected ys t (map (call_wire L) cs)) = observed L ys e cs"
proof (induction cs arbitrary: ys)
  case (Cons c cs)
  then show ?case
    using assms by (cases c) (auto simp: mapErr_def split: list.split)
qed simp

subsection \<open>Terminals\<close>

text \<open>The terminal a recording keeps, and what the replaying client is given for it: the
  end of the stream or the live status error itself.\<close>

definition terminal_payload :: "'p grpc_lib \<Rightarrow> goerr \<Rightarrow> (string \<times> gval) list" where
  "terminal_payload L err = [(''status_code'', GInt (if err_is err ErrEOF then 0 else status_Code L err))]"

definition live_status :: "'p grpc_lib \<Rightarrow> goerr \<Rightarrow> bool" where
  "live_status L err \<longleftrightarrow> err = ErrEOF
     \<or> (\<exists>c desc. err = StatusError c desc (rpc_text L c desc) \<and> 0 < c \<and> c < 2 ^ 32 \<and> utf8_valid (rpc_text L c desc))"

lemma to_int64_id: "- (2 ^ 63) \<le> v \<Longrightarrow> v < 2 ^ 63 \<Longrightarrow> to_int64 v = v"
  by (simp add: to_int64_def)

lemma rpc_text_ne: "rpc_text L c desc \<noteq> []"
  by (simp add: rpc_text_def)

lemma recordedStatusErr_live:
  assumes "grpc_lib_ok L" "map_of (p_RespPayload (sy_pair y)) ''status_code'' = Some (GInt c)" "0 < c" "c < 2 ^ 32"
  shows "recordedStatusErr L y (rpc_text L c desc) = StatusError c desc (rpc_text L c desc)"
proof -
  have "statusCodeFrom L (p_RespPayload (sy_pair y)) mod 2 ^ 32 = c"
    using assms(2-4) by (simp add: statusCodeFrom_def to_int64_id)
  moreover have "status_Error L c desc = StatusError c desc (rpc_text L c desc)"
    using assms(1,3) by (simp add: grpc_lib_ok_def)
  ultimately show ?thesis
    using assms(3) by (simp add: recordedStatusErr_def cut_prefix_def rpc_text_def Let_def)
qed

lemma singleton_payload:
  assumes "key_norm (GMap kvs) = key_norm (GMap [(k, GInt c)])"
  shows "map_of kvs k = Some (GInt c)"
proof -
  have m: "map (\<lambda>(k, v). (k, key_norm v)) (sort_key fst kvs) = [(k, GInt c)]"
    using assms by (simp only: key_norm_GMap) simp
  from arg_cong[OF this, of length] have "length kvs = 1" by simp
  then obtain k' v where "kvs = [(k', v)]" by (cases kvs) auto
  then show ?thesis using m by (cases v) auto
qed

lemma mapErr_terminal:
  assumes L: "grpc_lib_ok L" and live: "live_status L err"
    and pl: "key_norm (GMap (p_RespPayload (sy_pair y))) = key_norm (GMap (terminal_payload L err))"
    and te: "p_RecordedErr (sy_pair y) = errstr (if err_is err ErrEOF then None else Some err)"
  shows "mapErr L y (Some (terminalErr y)) = Some err"
proof (cases "err = ErrEOF")
  case True
  then show ?thesis using te by (simp add: terminalErr_def mapErr_def)
next
  case False
  then obtain c desc where e: "err = StatusError c desc (rpc_text L c desc)" "0 < c" "c < 2 ^ 32"
    using live by (auto simp: live_status_def)
  have "terminal_payload L err = [(''status_code'', GInt c)]"
    using e(1) L by (simp add: terminal_payload_def grpc_lib_ok_def)
  then have "map_of (p_RespPayload (sy_pair y)) ''status_code'' = Some (GInt c)"
    using singleton_payload pl by simp
  then have "recordedStatusErr L y (rpc_text L c desc) = err"
    unfolding e(1) by (rule recordedStatusErr_live[OF L _ e(2,3)])
  moreover have "terminalErr y = ErrNew (rpc_text L c desc)"
    using te e(1) rpc_text_ne by (simp add: terminalErr_def)
  ultimately show ?thesis by (simp add: mapErr_def)
qed

subsection \<open>Opening on both sides\<close>

lemma grpc_streamOpen_fields:
  "so_AdapterID (grpc_streamOpen s typ0 service mth b) = ''grpc''"
  "so_Type (grpc_streamOpen s typ0 service mth b) = typ0"
  "so_Payload (grpc_streamOpen s typ0 service mth b) = [(''service'', GStr service), (''method'', GStr mth)]"
  by (simp_all add: grpc_streamOpen_def Let_def)

lemma grpc_streamOpen_cong:
  "s_streamScrub s = s_streamScrub t \<Longrightarrow> grpc_streamOpen s typ0 service mth b = grpc_streamOpen t typ0 service mth b"
  by (simp add: grpc_streamOpen_def Let_def ScrubStreamFrame_def)

lemma grpc_streamOpen_ok:
  assumes "utf8_valid service" "utf8_valid mth" "stream_type_ok typ0"
  shows "open_ok (grpc_streamOpen s typ0 service mth b)"
  using assms ascii_hex
  by (auto simp: grpc_streamOpen_def Let_def open_ok_def reserved_def sum4_def field_names)

lemma streamTypeOf_ok: "streamTypeOf desc = Inr typ0 \<Longrightarrow> stream_type_ok typ0"
  by (auto simp: streamTypeOf_def stream_type_ok_def split: if_splits)

text \<open>The first request of a server stream addresses it; other streams are addressed by their
  occurrence.\<close>

definition open_msg :: "'p grpc_lib \<Rightarrow> string \<Rightarrow> 'p gop list \<Rightarrow> bytes" where
  "open_msg L typ0 ops = (if typ0 = StreamServer then hd (sent (map (op_event L) ops) @ [[]]) else [])"

fun starts_with_send :: "'p gop list \<Rightarrow> bool" where
  "starts_with_send (GSend m ms # ops) = True"
| "starts_with_send _ = False"

fun sends_first :: "'p gcall list \<Rightarrow> bool" where
  "sends_first (CRecv m # cs) = False"
| "sends_first (CClose # cs) = False"
| "sends_first _ = True"

lemma record_conversation:
  assumes desc: "streamTypeOf desc = Inr typ0" "d_ServerStreams desc" "splitFullMethod method = Inr (service, mth)"
    and ops: "list_all (op_marshals L) ops" "typ0 = StreamServer \<Longrightarrow> starts_with_send ops"
    and op: "OpenStreamRecord s (grpc_streamOpen s typ0 service mth (open_msg L typ0 ops)) = (Inr r, s1)"
  obtains rs s0 rs1 where "newRecordStream s desc method None = (Inr rs, s0)"
    "record_run L ops rs s0 w = (replicate (length ops) None, rs1, s1, w)"
    "rs_rec rs1 = Some (rec_run (map (op_event L) ops) r)" "\<not> rs_finished rs1"
proof -
  let ?rs = "\<lparr>rs_typ = typ0, rs_service = service, rs_method = mth,
    rs_serverStreams = d_ServerStreams desc, rs_rec = None, rs_finished = False\<rparr>"
  let ?rs1 = "?rs\<lparr>rs_rec := Some (rec_run (map (op_event L) ops) r)\<rparr>"
  have run: "record_run L ops (?rs\<lparr>rs_rec := Some r\<rparr>) s1 w = (replicate (length ops) None, ?rs1, s1, w)"
    using record_run_opened[of "?rs\<lparr>rs_rec := Some r\<rparr>" r L ops s1 w] desc(2) ops(1) by simp
  show thesis
  proof (cases "typ0 = StreamServer")
    case True
    obtain m ms ops' where o: "ops = GSend m ms # ops'"
      using ops(2)[OF True] by (cases ops rule: starts_with_send.cases) auto
    have "newRecordStream s desc method None = (Inr ?rs, s)"
      using True desc by (simp add: newRecordStream_def Let_def)
    moreover have "record_run L ops ?rs s w = record_run L ops (?rs\<lparr>rs_rec := Some r\<rparr>) s1 w"
      unfolding o using o ops(1) op True by (intro record_run_deferred) (simp_all add: open_msg_def)
    ultimately show thesis using run by (intro that[of ?rs s ?rs1]) simp_all
  next
    case False
    have "newRecordStream s desc method None = (Inr (?rs\<lparr>rs_rec := Some r\<rparr>), s1)"
      using False desc op by (simp add: newRecordStream_def Let_def open_msg_def)
    with run show thesis by (intro that[of "?rs\<lparr>rs_rec := Some r\<rparr>" s1 ?rs1]) simp_all
  qed
qed

lemma replay_conversation:
  assumes desc: "streamTypeOf desc = Inr typ0" "splitFullMethod method = Inr (service, mth)"
    and op: "OpenStreamReplay t (grpc_streamOpen t typ0 service mth b) w = (Inr y, t1)"
    and b: "typ0 \<noteq> StreamServer \<Longrightarrow> b = []"
  obtains ry t0 where "newReplayStream t desc method w = (Inr ry, t0)"
    "\<forall>cs. list_all (call_marshals L) cs \<longrightarrow>
       (typ0 = StreamServer \<longrightarrow> sends_first cs \<and> (\<forall>m. CSend m \<in> set (take 1 cs) \<longrightarrow> wire_bytes L m = b)) \<longrightarrow>
       replay_run L cs ry t0 w = map2 (lift_result L y) cs (rp_run (map (call_wire L) cs) y)"
proof -
  let ?ry = "\<lparr>ry_typ = typ0, ry_service = service, ry_method = mth, ry_rp = None, ry_openErr = None\<rparr>"
  have run: "replay_run L cs (?ry\<lparr>ry_rp := Some y\<rparr>) t1 w = map2 (lift_result L y) cs (rp_run (map (call_wire L) cs) y)"
    if "list_all (call_marshals L) cs" for cs
    using replay_run_opened[of "?ry\<lparr>ry_rp := Some y\<rparr>" y L cs t1 w] that by simp
  show thesis
  proof (cases "typ0 = StreamServer")
    case True
    have new: "newReplayStream t desc method w = (Inr ?ry, t)"
      using True desc by (simp add: newReplayStream_def Let_def)
    show thesis
    proof (intro that[OF new] allI impI)
      fix cs
      assume a: "list_all (call_marshals L) cs" "typ0 = StreamServer \<longrightarrow>
        sends_first cs \<and> (\<forall>m. CSend m \<in> set (take 1 cs) \<longrightarrow> wire_bytes L m = b)"
      show "replay_run L cs ?ry t w = map2 (lift_result L y) cs (rp_run (map (call_wire L) cs) y)"
      proof (cases cs)
        case (Cons c cs')
        then obtain m where c: "c = CSend m" using a(2) True by (cases c) auto
        have "replay_run L cs ?ry t w = replay_run L cs (?ry\<lparr>ry_rp := Some y\<rparr>) t1 w"
          unfolding Cons c using Cons c a op True by (intro replay_run_deferred) auto
        with run[OF a(1)] show ?thesis by simp
      qed simp
    qed
  next
    case False
    then have "newReplayStream t desc method w = (Inr (?ry\<lparr>ry_rp := Some y\<rparr>), t1)"
      using desc op b by (simp add: newReplayStream_def Let_def)
    with run show thesis by (intro that) auto
  qed
qed

text \<open>The last receive of a live conversation finishes the recording and hands the live error
  on.\<close>

definition terminal_cause :: "goerr \<Rightarrow> goerr option" where
  "terminal_cause err = (if err_is err ErrEOF then None else Some err)"

lemma record_terminal:
  assumes "grpc_lib_ok L" "live_status L err" "rs_rec rs = Some r" "\<not> rs_finished rs"
    and "Finish ms (terminal_payload L err) (terminal_cause err) r w = (None, r', w')"
  shows "record_RecvMsg L m (Some err) ms rs w = (Some err, rs\<lparr>rs_finished := True, rs_rec := Some r'\<rparr>, w')"
proof (cases "err = ErrEOF")
  case True
  with assms show ?thesis
    by (simp add: record_RecvMsg_def record_finish_def terminal_payload_def terminal_cause_def)
next
  case False
  then obtain c desc where "err = StatusError c desc (rpc_text L c desc)" "0 < c"
    using assms(2) by (auto simp: live_status_def)
  with assms show ?thesis
    by (simp add: record_RecvMsg_def record_finish_def terminal_payload_def terminal_cause_def grpc_lib_ok_def)
qed

lemma terminal_fits:
  assumes "live_status L err"
  shows "plain (GMap (terminal_payload L err))" "utf8_valid (errstr (terminal_cause err))"
  using assms by (auto simp: live_status_def terminal_payload_def terminal_cause_def field_names)

text \<open>What the client of a replayed stream observes, from what the replay session answers.\<close>

lemma replay_observed:
  assumes L: "grpc_lib_ok L" "live_status L err"
    and y: "p_RecordedErr (sy_pair y) = errstr (terminal_cause err)"
      "key_norm (GMap (p_RespPayload (sy_pair y))) = key_norm (GMap (terminal_payload L err))"
      "\<forall>cs. honest sends cs \<longrightarrow> rp_run cs y = expected got (terminalErr y) cs"
    and rep: "\<forall>cs. list_all (call_marshals L) cs \<longrightarrow>
       (typ0 = StreamServer \<longrightarrow> sends_first cs \<and> (\<forall>m. CSend m \<in> set (take 1 cs) \<longrightarrow> wire_bytes L m = b)) \<longrightarrow>
       replay_run L cs ry t0 w1 = map2 (lift_result L y) cs (rp_run (map (call_wire L) cs) y)"
    and first: "typ0 = StreamServer \<Longrightarrow> sends \<noteq> [] \<Longrightarrow> b = hd sends"
    and cs: "list_all (call_marshals L) cs" "honest sends (map (call_wire L) cs)" "typ0 = StreamServer \<longrightarrow> sends_first cs"
  shows "replay_run L cs ry t0 w1 = observed L got err cs"
proof -
  have "wire_bytes L m = b" if "typ0 = StreamServer" "CSend m \<in> set (take 1 cs)" for m
    using cs(2) first that by (cases cs; cases sends) auto
  then have "replay_run L cs ry t0 w1 = map2 (lift_result L y) cs (rp_run (map (call_wire L) cs) y)"
    using cs(1,3) rep by simp
  also have "rp_run (map (call_wire L) cs) y = expected got (terminalErr y) (map (call_wire L) cs)"
    using y(3) cs(2) by blast
  finally show ?thesis
    using lift_expected[OF mapErr_terminal[OF L y(2)]] y(1) by (simp add: terminal_cause_def)
qed

fun op_ms :: "'p gop \<Rightarrow> int" where
  "op_ms (GSend m ms) = ms"
| "op_ms (GRecv m ms) = ms"
| "op_ms (GClose ms) = ms"

lemma op_event_ms [simp]: "ev_ms (op_event L x) = op_ms x"
  by (cases x) simp_all

subsection \<open>Properties\<close>

text \<open>C6: A streamed RPC recorded through the interceptor replays to the client. Take a
  bidirectional RPC, or a server stream whose first call sends the request; let every live call
  of the conversation succeed until the terminal receive, which ends the stream or fails with a
  status error. Then recording returns to the caller exactly what the live stream returned and
  saves the pair, and through the interceptor of a replaying session any client that sends the
  same messages and half-closes after the last is accepted, is given the recorded messages in
  order, and then the very error the live stream ended with, for ever.\<close>

theorem grpc_stream_record_then_replay:
  assumes L: "grpc_lib_ok L" "live_status L err"
    and s: "s_mode s = ModeRecord" "s_cassette s = Some c" "\<And>k. 0 \<le> stream_count s k"
    and t: "s_mode t = ModeReplay" "s_cassette t = Some c" "s_streamN t = s_streamN s" "s_streamScrub t = s_streamScrub s"
    and desc: "streamTypeOf desc = Inr typ0" "d_ServerStreams desc" "splitFullMethod method = Inr (service, mth)"
      "utf8_valid service" "utf8_valid mth"
    and ops: "list_all (op_marshals L) ops" "typ0 = StreamServer \<Longrightarrow> starts_with_send ops"
    and fits: "int (length ops) < 2 ^ 63" "list_all (\<lambda>x. op_ms x < 2 ^ 63) ops" "ms < 2 ^ 63"
    and w: "store_ok c w" "\<And>p. w_write_fault w p = None"
  shows "\<exists>rs s0 rs1 s1 rs2 w1 ry t0.
      StreamClientInterceptor s desc method None w = (Inr (RecordingStream rs), s0)
    \<and> record_run L ops rs s0 w = (replicate (length ops) None, rs1, s1, w)
    \<and> record_RecvMsg L m (Some err) ms rs1 w = (Some err, rs2, w1)
    \<and> StreamClientInterceptor t desc method None w1 = (Inr (ReplayingStream ry), t0)
    \<and> (\<forall>cs. list_all (call_marshals L) cs \<longrightarrow> honest (sent (map (op_event L) ops)) (map (call_wire L) cs) \<longrightarrow>
          (typ0 = StreamServer \<longrightarrow> sends_first cs) \<longrightarrow>
          replay_run L cs ry t0 w1 = observed L
            (map (ScrubStreamFrame s StreamRecv \<lparr>info_AdapterID = ''grpc'', info_Type = typ0\<rparr>)
              (received (map (op_event L) ops))) err cs)"
proof -
  let ?b = "open_msg L typ0 ops" and ?evs = "map (op_event L) ops"
  let ?op = "grpc_streamOpen s typ0 service mth ?b"
  let ?pl = "terminal_payload L err" and ?te = "terminal_cause err"
  note op = grpc_streamOpen_ok[OF desc(4,5) streamTypeOf_ok[OF desc(1)], of s ?b]
  have a: "so_AdapterID ?op \<noteq> []" "slash \<notin> set (so_AdapterID ?op)" "utf8_valid (so_AdapterID ?op)"
    by (simp_all add: grpc_streamOpen_fields field_names)
  have pay: "plain (GMap (so_Payload ?op))" "plain (GMap ?pl)" "utf8_valid (errstr ?te)"
    using desc(4,5) terminal_fits[OF L(2)] by (simp_all add: grpc_streamOpen_fields field_names)
  have fit: "int (length ?evs) < 2 ^ 63" "list_all (\<lambda>ev. ev_ms ev < 2 ^ 63) ?evs"
    using fits(1,2) by (simp_all add: list_all_iff)
  obtain r0 s1 where rec: "OpenStreamRecord s ?op = (Inr r0, s1)" "sg_cassette r0 = c"
    by (rule OpenStreamRecord_succeeds[OF s op a(1)])
  have w': "store_ok (sg_cassette r0) w" using w(1) rec(2) by simp
  obtain r1 w1 where fin: "Finish ms ?pl ?te (rec_run ?evs r0) w = (None, r1, w1)"
    using Finish_succeeds[OF rec(1) w' w(2) a(2,3) fit fits(3) pay] by blast
  obtain rs s0 rs1 where new: "newRecordStream s desc method None = (Inr rs, s0)"
    and run: "record_run L ops rs s0 w = (replicate (length ops) None, rs1, s1, w)"
    and rs1: "rs_rec rs1 = Some (rec_run ?evs r0)" "\<not> rs_finished rs1"
    by (rule record_conversation[OF desc(1-3) ops rec(1), of w])
  have t': "s_cassette t = s_cassette s" using s(2) t(2) by simp
  obtain y t1 where y: "OpenStreamReplay t ?op w1 = (Inr y, t1)" "s_streamN t1 = s_streamN s1"
    "p_RecordedErr (sy_pair y) = errstr ?te" "key_norm (GMap (p_RespPayload (sy_pair y))) = key_norm (GMap ?pl)"
    "\<forall>cs. honest (sent ?evs) cs \<longrightarrow> rp_run cs y = expected
       (map (scrubFrame (s_streamScrub s) StreamRecv \<lparr>info_AdapterID = so_AdapterID ?op, info_Type = so_Type ?op\<rparr>)
         (received ?evs)) (terminalErr y) cs"
    by (rule replay_of_recording[OF rec(1) fin t(1) t' t(3,4) w' a(2,3) fit fits(3) pay])
  have yop: "OpenStreamReplay t (grpc_streamOpen t typ0 service mth ?b) w1 = (Inr y, t1)"
    using y(1) grpc_streamOpen_cong[OF t(4)] by metis
  have nb: "typ0 \<noteq> StreamServer \<Longrightarrow> ?b = []" by (simp add: open_msg_def)
  obtain ry t0 where ry: "newReplayStream t desc method w1 = (Inr ry, t0)"
    and rep: "\<forall>cs. list_all (call_marshals L) cs \<longrightarrow>
       (typ0 = StreamServer \<longrightarrow> sends_first cs \<and> (\<forall>m. CSend m \<in> set (take 1 cs) \<longrightarrow> wire_bytes L m = ?b)) \<longrightarrow>
       replay_run L cs ry t0 w1 = map2 (lift_result L y) cs (rp_run (map (call_wire L) cs) y)"
    by (rule replay_conversation[OF desc(1,3) yop nb])
  let ?got = "map (scrubFrame (s_streamScrub s) StreamRecv \<lparr>info_AdapterID = so_AdapterID ?op, info_Type = so_Type ?op\<rparr>)
    (received ?evs)"
  have "\<forall>cs. list_all (call_marshals L) cs \<longrightarrow> honest (sent ?evs) (map (call_wire L) cs) \<longrightarrow>
      (typ0 = StreamServer \<longrightarrow> sends_first cs) \<longrightarrow> replay_run L cs ry t0 w1 = observed L ?got err cs"
    using replay_observed[OF L y(3,4,5) rep] by (auto simp: open_msg_def)
  moreover have "?got = map (ScrubStreamFrame s StreamRecv \<lparr>info_AdapterID = ''grpc'', info_Type = typ0\<rparr>) (received ?evs)"
    by (simp add: ScrubStreamFrame_def scrubFrame_def grpc_streamOpen_fields)
  moreover note record_terminal[OF L rs1 fin]
  ultimately show ?thesis
    using new run ry s(1) t(1) by (auto simp: StreamClientInterceptor_def mode_defs)
qed

definition sample_lib :: "bytes grpc_lib" where
  "sample_lib = \<lparr>float_int = (\<lambda>_. None), code_String = show_int,
     status_Code = (\<lambda>e. case e of StatusError c desc t \<Rightarrow> c | _ \<Rightarrow> 2),
     status_Error = (\<lambda>c desc. StatusError c desc (''rpc error: code = '' @ show_int c @ '' desc = '' @ desc)),
     pb_marshal = Inr, pb_unmarshal = Inr\<rparr>"

lemma sample_lib_ok: "grpc_lib_ok sample_lib"
  by (simp add: grpc_lib_ok_def sample_lib_def rpc_text_def)

definition sample_live :: goerr where
  "sample_live = StatusError 5 ''gone'' ''rpc error: code = 5 desc = gone''"

lemma sample_live_ok: "live_status sample_lib sample_live"
proof -
  have "rpc_text sample_lib 5 ''gone'' = ''rpc error: code = 5 desc = gone''"
    by code_simp
  then show ?thesis by (simp add: live_status_def sample_live_def field_names)
qed

theorem grpc_stream_record_then_replay_witness:
  "let s = NewSession ModeRecord (Some (NewFileCassette ''d''));
       t = NewSession ModeReplay (Some (NewFileCassette ''d''));
       desc = \<lparr>d_StreamName = ''Watch'', d_ServerStreams = True, d_ClientStreams = False\<rparr>;
       ops = [GSend (ProtoMsg ''q'') 0, GClose 1, GRecv (ProtoMsg ''r'') 2]
   in \<exists>rs s0 rs1 s1 rs2 w1 ry t0.
      StreamClientInterceptor s desc ''/pkg.Svc/Watch'' None tree_world = (Inr (RecordingStream rs), s0)
    \<and> record_run sample_lib ops rs s0 tree_world = ([None, None, None], rs1, s1, tree_world)
    \<and> record_RecvMsg sample_lib OtherMsg (Some sample_live) 3 rs1 tree_world = (Some sample_live, rs2, w1)
    \<and> StreamClientInterceptor t desc ''/pkg.Svc/Watch'' None w1 = (Inr (ReplayingStream ry), t0)
    \<and> replay_run sample_lib [CSend (ProtoMsg ''q''), CRecv (ProtoMsg []), CClose, CRecv (ProtoMsg []), CRecv OtherMsg] ry t0 w1
        = [OSent None, OGot (Inr (ProtoMsg ''r'')), OClosed None, OGot (Inl sample_live), OGot (Inl sample_live)]"
proof -
  let ?s = "NewSession ModeRecord (Some (NewFileCassette ''d''))" and ?t = "NewSession ModeReplay (Some (NewFileCassette ''d''))"
  let ?d = "\<lparr>d_StreamName = ''Watch'', d_ServerStreams = True, d_ClientStreams = False\<rparr>"
  let ?ops = "[GSend (ProtoMsg ''q'') 0, GClose 1, GRecv (ProtoMsg ''r'') 2]"
  have split: "splitFullMethod ''/pkg.Svc/Watch'' = Inr (''pkg.Svc'', ''Watch'')"
    by (simp add: splitFullMethod_Inr trim_prefix_def)
  have typ0: "streamTypeOf ?d = Inr StreamServer" by (simp add: streamTypeOf_def)
  have u: "utf8_valid ''pkg.Svc''" "utf8_valid ''Watch''" by (simp_all add: field_names)
  have ops: "list_all (op_marshals sample_lib) ?ops" by (simp add: marshals_def sample_lib_def)
  note main = grpc_stream_record_then_replay[OF sample_lib_ok sample_live_ok, of ?s "NewFileCassette ''d''" ?t ?d StreamServer
      "''/pkg.Svc/Watch''" "''pkg.Svc''" "''Watch''" ?ops 3 tree_world OtherMsg]
  obtain rs s0 rs1 s1 rs2 w1 ry t0 where a:
    "StreamClientInterceptor ?s ?d ''/pkg.Svc/Watch'' None tree_world = (Inr (RecordingStream rs), s0)"
    "record_run sample_lib ?ops rs s0 tree_world = ([None, None, None], rs1, s1, tree_world)"
    "record_RecvMsg sample_lib OtherMsg (Some sample_live) 3 rs1 tree_world = (Some sample_live, rs2, w1)"
    "StreamClientInterceptor ?t ?d ''/pkg.Svc/Watch'' None w1 = (Inr (ReplayingStream ry), t0)"
    and b: "\<forall>cs. list_all (call_marshals sample_lib) cs \<longrightarrow> honest [''q''] (map (call_wire sample_lib) cs) \<longrightarrow>
          sends_first cs \<longrightarrow> replay_run sample_lib cs ry t0 w1 = observed sample_lib [''r''] sample_live cs"
    using main split typ0 u ops tree_world_ok
    by (auto simp: NewSession_def tree_world_def ScrubStreamFrame_def wire_bytes_def sample_lib_def numeral_3_eq_3)
  have "replay_run sample_lib [CSend (ProtoMsg ''q''), CRecv (ProtoMsg []), CClose, CRecv (ProtoMsg []), CRecv OtherMsg] ry t0 w1
      = [OSent None, OGot (Inr (ProtoMsg ''r'')), OClosed None, OGot (Inl sample_live), OGot (Inl sample_live)]"
    by (subst b[rule_format]) (simp_all add: marshals_def wire_bytes_def sample_lib_def)
  with a show ?thesis by (auto simp: Let_def)
qed

text \<open>The recorded status and error agree. When a receive fails, the pair written holds a
  single status code, and its error text is empty exactly when that code is OK, even for a live
  error whose own code is OK; afterwards the stream is finished and no later receive writes
  anything again, so the pair is persisted once.\<close>

theorem recorded_status_invariant:
  assumes "rs_rec rs = Some r" "\<not> rs_finished rs" "\<not> sg_finished r" "err_is err ErrEOF \<or> err_text err \<noteq> []"
  shows "\<exists>p k rs'. p_RespPayload p = [(''status_code'', GInt k)] \<and> (p_RecordedErr p = [] \<longleftrightarrow> k = 0)
    \<and> record_RecvMsg L m (Some err) ms rs w =
        (case SaveStream (sg_cassette r) (sg_adapterID r) (sg_fingerprint r) (Some p) w of
           (None, w') \<Rightarrow> (Some err, rs', w')
         | (Some e, w') \<Rightarrow> (Some (ErrWrap ''xrr: save stream'' e), rs', w'))
    \<and> (\<forall>m2 err2 ms2 w2. record_RecvMsg L m2 (Some err2) ms2 rs' (w2 :: 'd world) = (Some err2, rs', w2))"
proof -
  define k where "k = (if err_is err ErrEOF then 0 else if status_Code L err = 0 then 2 else status_Code L err)"
  define p where "p = finished_pair r ms [(''status_code'', GInt k)] (terminal_cause err)"
  define rs' where "rs' = rs\<lparr>rs_finished := True, rs_rec := Some (r\<lparr>sg_finished := True, sg_seq := sg_seq r + 1\<rparr>)\<rparr>"
  have "p_RespPayload p = [(''status_code'', GInt k)]" "p_RecordedErr p = [] \<longleftrightarrow> k = 0"
    using assms(4) by (auto simp: p_def finished_pair_def k_def terminal_cause_def)
  moreover have "record_RecvMsg L m (Some err) ms rs w =
      (case SaveStream (sg_cassette r) (sg_adapterID r) (sg_fingerprint r) (Some p) w of
         (None, w') \<Rightarrow> (Some err, rs', w')
       | (Some e, w') \<Rightarrow> (Some (ErrWrap ''xrr: save stream'' e), rs', w'))"
    using assms(1-3)
    by (auto simp: record_RecvMsg_def record_finish_def Finish_def p_def k_def terminal_cause_def rs'_def
        split: prod.splits option.splits)
  moreover have "record_RecvMsg L m2 (Some err2) ms2 rs' w2 = (Some err2, rs', w2)" for m2 err2 ms2 and w2 :: "'d world"
    by (simp add: record_RecvMsg_def record_finish_def rs'_def)
  ultimately show ?thesis by blast
qed

definition sample_recording :: recordStream where
  "sample_recording = \<lparr>rs_typ = ''bidi'', rs_service = ''s'', rs_method = ''m'', rs_serverStreams = True,
     rs_rec = Some \<lparr>sg_cassette = NewFileCassette ''d'', sg_adapterID = ''grpc'', sg_fingerprint = ''0123abcd'',
       sg_typ = ''bidi'', sg_reqPayload = [], sg_scrub = None, sg_seq = 0, sg_sends = [], sg_recvs = [],
       sg_halfClose = None, sg_finished = False\<rparr>, rs_finished = False\<rparr>"

theorem recorded_status_invariant_witness:
  "\<exists>p k rs'. p_RespPayload p = [(''status_code'', GInt k)] \<and> (p_RecordedErr p = [] \<longleftrightarrow> k = 0)
    \<and> record_RecvMsg sample_lib OtherMsg (Some (ErrNew ''reset'')) 1 sample_recording tree_world =
        (case SaveStream (NewFileCassette ''d'') ''grpc'' ''0123abcd'' (Some p) tree_world of
           (None, w') \<Rightarrow> (Some (ErrNew ''reset''), rs', w')
         | (Some e, w') \<Rightarrow> (Some (ErrWrap ''xrr: save stream'' e), rs', w'))
    \<and> record_RecvMsg sample_lib OtherMsg (Some sample_live) 2 rs' tree_world = (Some sample_live, rs', tree_world)"
proof -
  let ?r = "\<lparr>sg_cassette = NewFileCassette ''d'', sg_adapterID = ''grpc'', sg_fingerprint = ''0123abcd'',
       sg_typ = ''bidi'', sg_reqPayload = [], sg_scrub = None, sg_seq = 0, sg_sends = [], sg_recvs = [],
       sg_halfClose = None, sg_finished = False\<rparr>"
  have "rs_rec sample_recording = Some ?r" "\<not> rs_finished sample_recording" "\<not> sg_finished ?r"
    "err_is (ErrNew ''reset'') ErrEOF \<or> err_text (ErrNew ''reset'') \<noteq> []"
    by (simp_all add: sample_recording_def)
  from recorded_status_invariant[OF this, of sample_lib OtherMsg 1 tree_world] show ?thesis
    by (simp only: StreamRecording.simps) blast
qed

end
