(* ===== verification/Grpc_Wire.thy ===== *)
theory Grpc_Wire
  imports Grpc_Stream
begin

section \<open>The wire of the gRPC transport adapter (adapters/grpctransport/demux.go, headers.go)\<close>

text \<open>
  HTTP/2 frames of one direction of a connection are decoded into events per stream: header
  blocks, whole gRPC messages, resets. The framer and the header decompression are third-party
  code; what they read off the wire is the input of the model, a list of frames followed by the
  error that ends it. Shown here: messages are reassembled whatever the split into frames, the
  streams of a connection do not influence each other, and the loops end.
\<close>

subsection \<open>Frames and events\<close>

type_synonym stream_id = nat
type_synonym header = "string \<times> string"

datatype h2frame =
    MetaHeadersFrame stream_id "header list" bool
  | DataFrame stream_id bytes bool
  | RSTStreamFrame stream_id
  | GoAwayFrame
  | SettingsFrame bool
  | PingFrame bool bytes
  | OtherFrame

datatype wireEventKind = wireHeaders | wireMessage | wireReset | wireGoAway

text \<open>A nil message differs from an empty one.\<close>

record wireEvent =
  ev_streamID :: stream_id
  ev_kind :: wireEventKind
  ev_headers :: "header list"
  ev_message :: "bytes option"
  ev_endStream :: bool

subsection \<open>Reassembly of messages\<close>

definition grpcMsgPrefixLen :: nat where "grpcMsgPrefixLen = 5"

definition maxGRPCMessageSize :: nat where "maxGRPCMessageSize = 64 * 2 ^ 20"

text \<open>\<^verbatim>\<open>binary.BigEndian.Uint32\<close>.\<close>

definition be32 :: "bytes \<Rightarrow> nat" where
  "be32 b = foldl (\<lambda>a c. a * 256 + of_char c) 0 (take 4 b)"

definition too_long :: "nat \<Rightarrow> goerr" where
  "too_long n = ErrNew (''grpctransport: gRPC message length '' @ show_nat n @ '' exceeds cap ''
     @ show_nat maxGRPCMessageSize)"

text \<open>The loop: whole messages off the front of the buffer, and what stays buffered.\<close>

function feed_loop :: "bytes \<Rightarrow> bytes list res \<times> bytes" where
  "feed_loop buf =
     (if length buf < grpcMsgPrefixLen then (Inr [], buf)
      else let n = be32 (drop 1 buf) in
        if n > maxGRPCMessageSize then (Inl (too_long n), buf)
        else let total = grpcMsgPrefixLen + n in
          if length buf < total then (Inr [], buf)
          else (case feed_loop (drop total buf) of
                  (Inl e, rest) \<Rightarrow> (Inl e, rest)
                | (Inr msgs, rest) \<Rightarrow> (Inr (take n (drop grpcMsgPrefixLen buf) # msgs), rest)))"
  by pat_completeness auto
termination by (relation "measure length") (auto simp: grpcMsgPrefixLen_def)

declare feed_loop.simps [simp del]

record streamDecoder =
  sd_buf :: bytes

definition feed :: "bytes \<Rightarrow> streamDecoder \<Rightarrow> bytes list res \<times> streamDecoder" where
  "feed data d = (case feed_loop (sd_buf d @ data) of (r, buf) \<Rightarrow> (r, \<lparr>sd_buf = buf\<rparr>))"

subsection \<open>Headers\<close>

definition sanitizeHeaders :: "redactor \<Rightarrow> header list \<Rightarrow> header list" where
  "sanitizeHeaders r hfs =
     map (\<lambda>(name, value).
       if prefix '':'' name then (name, value)
       else (case RedactField r name value of (v, redacted) \<Rightarrow> (name, if redacted then v else value))) hfs"

fun headerValue :: "header list \<Rightarrow> string \<Rightarrow> string" where
  "headerValue [] name = []"
| "headerValue ((n, v) # hfs) name = (if n = name then v else headerValue hfs name)"

fun hasHeader :: "header list \<Rightarrow> string \<Rightarrow> bool" where
  "hasHeader [] name = False"
| "hasHeader ((n, v) # hfs) name = (n = name \<or> hasHeader hfs name)"

definition splitPath :: "string \<Rightarrow> (string \<times> string) option" where
  "splitPath path =
     (let s = trim_prefix ''/'' path
      in case last_index slash s of
           None \<Rightarrow> None
         | Some i \<Rightarrow> if i = 0 \<or> i = length s - 1 then None else Some (take i s, drop (i + 1) s))"

text \<open>\<^verbatim>\<open>strconv.Atoi\<close>: an optional sign, decimal digits, within 64 bits.\<close>

definition Atoi :: "string \<Rightarrow> int option" where
  "Atoi s =
     (let neg = prefix ''-'' s; ds = (if neg \<or> prefix ''+'' s then drop 1 s else s);
          v = (if neg then - int (read_nat ds) else int (read_nat ds))
      in if ds \<noteq> [] \<and> list_all is_digit ds \<and> - (2 ^ 63) \<le> v \<and> v < 2 ^ 63 then Some v else None)"

text \<open>\<^verbatim>\<open>strconv.ParseUint(s, 16, 8)\<close> of two octets is two digits of \<^const>\<open>hex_val\<close>.\<close>

fun percent_decode :: "string \<Rightarrow> string" where
  "percent_decode [] = []"
| "percent_decode (c # s) =
     (case s of
        h # l # rest \<Rightarrow>
          (if c = CHR ''%''
           then (case (hex_val h, hex_val l) of
                   (Some x, Some y) \<Rightarrow> char_of (16 * x + y) # percent_decode rest
                 | _ \<Rightarrow> c # percent_decode s)
           else c # percent_decode s)
      | _ \<Rightarrow> c # percent_decode s)"

definition decodeGRPCMessage :: "string \<Rightarrow> string" where
  "decodeGRPCMessage s = (if CHR ''%'' \<notin> set s then s else percent_decode s)"

text \<open>\<^verbatim>\<open>codes.Code\<close> is an unsigned 32-bit number.\<close>

definition to_code :: "int \<Rightarrow> int" where "to_code n = n mod 2 ^ 32"

definition grpcStatus :: "header list \<Rightarrow> (int \<times> string) option" where
  "grpcStatus hfs =
     (let raw = headerValue hfs ''grpc-status'' in
      if raw = [] \<and> \<not> hasHeader hfs ''grpc-status'' then None
      else (case Atoi raw of
              None \<Rightarrow> Some (2, headerValue hfs ''grpc-message'')
            | Some n \<Rightarrow> Some (to_code n, decodeGRPCMessage (headerValue hfs ''grpc-message''))))"

definition isCompressed :: "header list \<Rightarrow> bool" where
  "isCompressed hfs =
     (let enc = headerValue hfs ''grpc-encoding'' in enc \<noteq> [] \<and> enc \<noteq> ''identity'')"

definition hexDigitsUpper :: string where "hexDigitsUpper = ''0123456789ABCDEF''"

definition encode_octet :: "char \<Rightarrow> string" where
  "encode_octet c =
     (if in_range CHR 0x20 CHR 0x7E c \<and> c \<noteq> CHR ''%'' then [c]
      else [CHR ''%'', hexDigitsUpper ! (of_char c div 16), hexDigitsUpper ! (of_char c mod 16)])"

definition encodeGRPCMessage :: "string \<Rightarrow> string" where
  "encodeGRPCMessage s = concat (map encode_octet s)"

subsection \<open>The decoder of one direction\<close>

record pendingMsgs =
  pm_streamID :: stream_id
  pm_msgs :: "bytes list"
  pm_endStream :: bool

record connDecoder =
  cd_streams :: "stream_id \<rightharpoonup> streamDecoder"
  cd_redact :: redactor
  cd_queued :: pendingMsgs

definition newConnDecoder :: "redactor \<Rightarrow> connDecoder" where
  "newConnDecoder r = \<lparr>cd_streams = Map.empty, cd_redact = r,
     cd_queued = \<lparr>pm_streamID = 0, pm_msgs = [], pm_endStream = False\<rparr>\<rparr>"

definition message_event :: "stream_id \<Rightarrow> bytes option \<Rightarrow> bool \<Rightarrow> wireEvent" where
  "message_event i m ended =
     \<lparr>ev_streamID = i, ev_kind = wireMessage, ev_headers = [], ev_message = m, ev_endStream = ended\<rparr>"

definition drainQueued :: "connDecoder \<Rightarrow> (wireEvent \<times> connDecoder) option" where
  "drainQueued c =
     (case pm_msgs (cd_queued c) of
        [] \<Rightarrow> None
      | msg # later \<Rightarrow>
          Some (message_event (pm_streamID (cd_queued c)) (Some msg) (later = [] \<and> pm_endStream (cd_queued c)),
                c\<lparr>cd_queued := (cd_queued c)\<lparr>pm_msgs := later\<rparr>\<rparr>))"

definition feedData :: "stream_id \<Rightarrow> bytes \<Rightarrow> bool \<Rightarrow> connDecoder \<Rightarrow> wireEvent option res \<times> connDecoder" where
  "feedData i data ended c =
     (let sd = (case cd_streams c i of None \<Rightarrow> \<lparr>sd_buf = []\<rparr> | Some sd \<Rightarrow> sd)
      in case feed data sd of
           (Inl e, sd') \<Rightarrow> (Inl e, c\<lparr>cd_streams := (cd_streams c)(i \<mapsto> sd')\<rparr>)
         | (Inr msgs, sd') \<Rightarrow>
             let c' = c\<lparr>cd_streams := (cd_streams c)(i \<mapsto> sd')\<rparr>
             in (case msgs of
                   [] \<Rightarrow> (Inr None, c')
                 | msg # later \<Rightarrow>
                     (Inr (Some (message_event i (Some msg) (later = [] \<and> ended))),
                      c'\<lparr>cd_queued := \<lparr>pm_streamID = i, pm_msgs = later, pm_endStream = ended\<rparr>\<rparr>)))"

text \<open>\<open>fs\<close> is what the framer still has to deliver, \<open>e\<close> the error it ends with.\<close>

fun conn_next :: "h2frame list \<Rightarrow> goerr \<Rightarrow> connDecoder \<Rightarrow> wireEvent res \<times> h2frame list \<times> connDecoder" where
  "conn_next fs e c =
     (case drainQueued c of
        Some (ev, c') \<Rightarrow> (Inr ev, fs, c')
      | None \<Rightarrow>
          (case fs of
             [] \<Rightarrow> (Inl e, [], c)
           | f # fs' \<Rightarrow>
               (case f of
                  MetaHeadersFrame i hfs ended \<Rightarrow>
                    (Inr \<lparr>ev_streamID = i, ev_kind = wireHeaders, ev_headers = sanitizeHeaders (cd_redact c) hfs,
                          ev_message = None, ev_endStream = ended\<rparr>, fs', c)
                | DataFrame i data ended \<Rightarrow>
                    (case feedData i data ended c of
                       (Inl err, c') \<Rightarrow> (Inl err, fs', c')
                     | (Inr (Some ev), c') \<Rightarrow> (Inr ev, fs', c')
                     | (Inr None, c') \<Rightarrow>
                         if ended then (Inr (message_event i None True), fs', c') else conn_next fs' e c')
                | RSTStreamFrame i \<Rightarrow>
                    (Inr \<lparr>ev_streamID = i, ev_kind = wireReset, ev_headers = [], ev_message = None, ev_endStream = False\<rparr>,
                     fs', c\<lparr>cd_streams := (cd_streams c)(i := None)\<rparr>)
                | GoAwayFrame \<Rightarrow>
                    (Inr \<lparr>ev_streamID = 0, ev_kind = wireGoAway, ev_headers = [], ev_message = None, ev_endStream = False\<rparr>,
                     fs', c)
                | _ \<Rightarrow> conn_next fs' e c)))"

declare conn_next.simps [simp del]

subsection \<open>Framing of messages (replay.go, writeMessage)\<close>

text \<open>\<^verbatim>\<open>byte(x)\<close> keeps the low eight bits.\<close>

definition to_byte :: "nat \<Rightarrow> char" where "to_byte n = char_of (n mod 256)"

definition frame_message :: "bytes \<Rightarrow> bytes" where
  "frame_message msg =
     (let n = length msg
      in [CHR 0x00, to_byte (n div 2 ^ 24), to_byte (n div 2 ^ 16), to_byte (n div 2 ^ 8), to_byte n] @ msg)"

definition chunk_size :: nat where "chunk_size = 16 * 2 ^ 10"

function chunks :: "bytes \<Rightarrow> bytes list" where
  "chunks payload =
     (if payload = [] then []
      else let n = min (length payload) chunk_size in take n payload # chunks (drop n payload))"
  by pat_completeness auto
termination by (relation "measure length") (auto simp: chunk_size_def)

declare chunks.simps [simp del]

subsection \<open>Reassembly is independent of the split\<close>

lemma be32_append: "4 \<le> length x \<Longrightarrow> be32 (x @ y) = be32 x"
  by (simp add: be32_def)

lemma feed_loop_short: "length buf < grpcMsgPrefixLen \<Longrightarrow> feed_loop buf = (Inr [], buf)"
  by (simp add: feed_loop.simps)

definition then_feed :: "bytes list \<Rightarrow> bytes list res \<times> bytes \<Rightarrow> bytes list res \<times> bytes" where
  "then_feed msgs x = (case x of (Inl e, rest) \<Rightarrow> (Inl e, rest) | (Inr later, rest) \<Rightarrow> (Inr (msgs @ later), rest))"

lemma then_feed_simps [simp]:
  "then_feed msgs (Inl e, rest) = (Inl e, rest)" "then_feed msgs (Inr later, rest) = (Inr (msgs @ later), rest)"
  by (simp_all add: then_feed_def)

lemma then_feed_Nil [simp]: "then_feed [] x = x"
  by (auto simp: then_feed_def split: prod.splits sum.splits)

lemma then_feed_comp [simp]: "then_feed a (then_feed b x) = then_feed (a @ b) x"
  by (auto simp: then_feed_def split: prod.splits sum.splits)

text \<open>One whole message at the front of the buffer.\<close>

lemma feed_loop_message:
  assumes "grpcMsgPrefixLen \<le> length buf" "be32 (drop 1 buf) \<le> maxGRPCMessageSize"
    and "grpcMsgPrefixLen + be32 (drop 1 buf) \<le> length buf"
  shows "feed_loop buf = then_feed [take (be32 (drop 1 buf)) (drop grpcMsgPrefixLen buf)]
    (feed_loop (drop (grpcMsgPrefixLen + be32 (drop 1 buf)) buf))"
  using assms by (subst feed_loop.simps) (auto simp: then_feed_def Let_def split: prod.split sum.split)

lemma feed_loop_partial:
  assumes "grpcMsgPrefixLen \<le> length buf" "be32 (drop 1 buf) \<le> maxGRPCMessageSize"
    and "length buf < grpcMsgPrefixLen + be32 (drop 1 buf)"
  shows "feed_loop buf = (Inr [], buf)"
  using assms by (subst feed_loop.simps) (simp add: Let_def)

lemma feed_loop_excess:
  assumes "grpcMsgPrefixLen \<le> length buf" "maxGRPCMessageSize < be32 (drop 1 buf)"
  shows "feed_loop buf = (Inl (too_long (be32 (drop 1 buf))), buf)"
  using assms by (subst feed_loop.simps) (simp add: Let_def)

lemma feed_loop_cases:
  obtains (short) "length buf < grpcMsgPrefixLen"
  | (excess) "grpcMsgPrefixLen \<le> length buf" "maxGRPCMessageSize < be32 (drop 1 buf)"
  | (partial) "grpcMsgPrefixLen \<le> length buf" "be32 (drop 1 buf) \<le> maxGRPCMessageSize"
      "length buf < grpcMsgPrefixLen + be32 (drop 1 buf)"
  | (whole) "grpcMsgPrefixLen \<le> length buf" "be32 (drop 1 buf) \<le> maxGRPCMessageSize"
      "grpcMsgPrefixLen + be32 (drop 1 buf) \<le> length buf"
  by linarith

lemmas feed_loop_ends = feed_loop_short feed_loop_excess feed_loop_partial

lemma prefix_stays:
  assumes "grpcMsgPrefixLen \<le> length a"
  shows "be32 (drop 1 (a @ b)) = be32 (drop 1 a)"
  using assms be32_append[of "drop 1 a" b] by (simp add: grpcMsgPrefixLen_def)

lemma whole_append:
  assumes "grpcMsgPrefixLen \<le> length a" "be32 (drop 1 a) \<le> maxGRPCMessageSize" "grpcMsgPrefixLen + be32 (drop 1 a) \<le> length a"
  shows "feed_loop (a @ b) = then_feed [take (be32 (drop 1 a)) (drop grpcMsgPrefixLen a)]
    (feed_loop (drop (grpcMsgPrefixLen + be32 (drop 1 a)) a @ b))"
  using feed_loop_message[of "a @ b"] prefix_stays[OF assms(1), of b] assms by simp

text \<open>More input after a buffer: the loop goes on where it stopped; an error stays.\<close>

lemma feed_loop_append:
  "feed_loop (a @ b) = (case feed_loop a of
     (Inr msgs, rest) \<Rightarrow> then_feed msgs (feed_loop (rest @ b)) | (Inl e, rest) \<Rightarrow> (Inl e, rest @ b))"
proof (induction "length a" arbitrary: a rule: less_induct)
  case less
  show ?case
  proof (cases a rule: feed_loop_cases)
    case whole
    let ?n = "be32 (drop 1 a)" and ?rest = "drop (grpcMsgPrefixLen + be32 (drop 1 a)) a"
    have "length ?rest < length a" using whole(1) by (simp add: grpcMsgPrefixLen_def)
    note IH = less.hyps[OF this]
    show ?thesis
      unfolding whole_append[OF whole] feed_loop_message[OF whole] IH
      by (cases "feed_loop ?rest") (auto split: sum.split)
  next
    case excess
    then show ?thesis
      using feed_loop_excess[of "a @ b"] prefix_stays[of a b] by (simp add: feed_loop_excess)
  qed (simp_all add: feed_loop_ends)
qed

lemma feed_loop_Nil [simp]: "feed_loop [] = (Inr [], [])"
  by (simp add: feed_loop_short grpcMsgPrefixLen_def)

lemma feed_loop_drained: "feed_loop a = (Inr msgs, rest) \<Longrightarrow> feed_loop rest = (Inr [], rest)"
  using feed_loop_append[of a "[]"] by (cases "feed_loop rest") (auto simp: then_feed_def split: sum.splits)

text \<open>Feeding a decoder piece by piece.\<close>

fun feed_all :: "bytes list \<Rightarrow> streamDecoder \<Rightarrow> bytes list res \<times> streamDecoder" where
  "feed_all [] d = (Inr [], d)"
| "feed_all (data # ds) d =
     (case feed data d of
        (Inl e, d') \<Rightarrow> (Inl e, d')
      | (Inr msgs, d') \<Rightarrow>
          (case feed_all ds d' of (Inl e, d'') \<Rightarrow> (Inl e, d'') | (Inr later, d'') \<Rightarrow> (Inr (msgs @ later), d'')))"

lemma feed_all_pieces:
  assumes "feed_loop (sd_buf d) = (Inr [], sd_buf d)"
  shows "fst (feed_all ds d) = fst (feed (concat ds) d)
    \<and> (\<forall>msgs. fst (feed (concat ds) d) = Inr msgs \<longrightarrow> snd (feed_all ds d) = snd (feed (concat ds) d))"
  using assms
proof (induction ds arbitrary: d)
  case Nil
  then show ?case by (cases d) (simp add: feed_def)
next
  case (Cons data ds)
  obtain r x where f: "feed_loop (sd_buf d @ data) = (r, x)" by fastforce
  have a: "feed_loop (sd_buf d @ data @ concat ds) = (case r of
      Inr msgs \<Rightarrow> then_feed msgs (feed_loop (x @ concat ds)) | Inl e \<Rightarrow> (Inl e, x @ concat ds))"
    using feed_loop_append[of "sd_buf d @ data" "concat ds"] f by simp
  show ?case
  proof (cases r)
    case (Inr msgs)
    note IH = Cons.IH[of "\<lparr>sd_buf = x\<rparr>"]
    then show ?thesis
      using f a Inr feed_loop_drained[of "sd_buf d @ data" msgs x]
      by (cases "feed_loop (x @ concat ds)"; cases "feed_all ds \<lparr>sd_buf = x\<rparr>")
        (auto simp: feed_def split: sum.splits)
  qed (use f a in \<open>simp add: feed_def\<close>)
qed

subsection \<open>Framing round trips\<close>

lemma of_to_byte [simp]: "of_char (to_byte n) = n mod 256"
  by (simp add: to_byte_def)

lemma to_byte_eq: "c = to_byte n \<longleftrightarrow> of_char c = n mod 256"
  by (metis of_to_byte of_char_eq_iff)

lemma be32_frame:
  assumes "length msg < 2 ^ 32"
  shows "be32 (drop 1 (frame_message msg @ x)) = length msg"
proof -
  have "n div 2 ^ 24 mod 256 * 256 + n div 2 ^ 16 mod 256 = n div 2 ^ 16" if "n < 2 ^ 32" for n :: nat
  proof -
    have "n div 2 ^ 24 = n div 2 ^ 16 div 256" "n div 2 ^ 24 < 256" using that by (simp_all flip: div_mult2_eq)
    then show ?thesis by simp
  qed
  moreover have "n div 2 ^ 16 * 256 + n div 2 ^ 8 mod 256 = n div 2 ^ 8" for n :: nat
    using div_mult_mod_eq[of "n div 2 ^ 8" 256] by (simp flip: div_mult2_eq)
  moreover have "n div 2 ^ 8 * 256 + n mod 256 = n" for n :: nat
    using div_mult_mod_eq[of n 256] by simp
  ultimately show ?thesis
    using assms by (simp add: be32_def frame_message_def Let_def)
qed

definition sendable :: "bytes \<Rightarrow> bool" where
  "sendable msg \<longleftrightarrow> length msg \<le> maxGRPCMessageSize"

lemma frame_message_length [simp]: "length (frame_message msg) = grpcMsgPrefixLen + length msg"
  by (simp add: frame_message_def grpcMsgPrefixLen_def Let_def)

lemma frame_message_body: "drop grpcMsgPrefixLen (frame_message msg @ x) = msg @ x"
  by (simp add: frame_message_def grpcMsgPrefixLen_def Let_def)

lemma feed_loop_frame:
  assumes "sendable msg"
  shows "feed_loop (frame_message msg @ rest) = then_feed [msg] (feed_loop rest)"
proof -
  have "be32 (drop 1 (frame_message msg @ rest)) = length msg"
    using assms be32_frame[of msg rest] by (simp add: sendable_def maxGRPCMessageSize_def)
  then show ?thesis
    using feed_loop_message[of "frame_message msg @ rest"] assms frame_message_body[of msg rest]
      drop_drop[of "length msg" grpcMsgPrefixLen "frame_message msg @ rest"]
    by (simp add: sendable_def add.commute)
qed

text \<open>A wire of framed messages can be cut up in one way only.\<close>

interpretation framing: prefix_code sendable frame_message
proof unfold_locales
  fix x y r s
  assume a: "sendable x" "sendable y" "frame_message x @ r = frame_message y @ s"
  have n: "be32 (drop 1 (frame_message x @ r)) = length x" "be32 (drop 1 (frame_message y @ s)) = length y"
    using a(1,2) be32_frame[of x r] be32_frame[of y s] by (simp_all add: sendable_def maxGRPCMessageSize_def)
  have "x @ r = y @ s" using frame_message_body a(3) by metis
  then show "x = y" using n a(3) by simp
qed

lemma concat_chunks: "concat (chunks payload) = payload"
  by (induction payload rule: chunks.induct) (subst chunks.simps, simp add: Let_def)

lemma chunks_bound: "c \<in> set (chunks payload) \<Longrightarrow> c \<noteq> [] \<and> length c \<le> chunk_size"
proof (induction payload rule: chunks.induct)
  case (1 payload)
  then show ?case
    by (subst (asm) (2) chunks.simps) (auto simp: Let_def chunk_size_def min_def split: if_splits)
qed

lemma feed_loop_frames:
  "list_all sendable msgs \<Longrightarrow> feed_loop (concat (map frame_message msgs)) = (Inr msgs, [])"
  by (induction msgs) (simp_all add: feed_loop_frame feed_loop_short grpcMsgPrefixLen_def)

text \<open>Every octet fed is in a delivered message, its prefix, or the rest.\<close>

lemma feed_loop_bounds:
  "feed_loop buf = (Inr msgs, rest) \<Longrightarrow>
   list_all sendable msgs \<and> length rest < grpcMsgPrefixLen + maxGRPCMessageSize
   \<and> length buf = (\<Sum>m\<leftarrow>msgs. grpcMsgPrefixLen + length m) + length rest"
proof (induction "length buf" arbitrary: buf msgs rule: less_induct)
  case less
  show ?case
  proof (cases buf rule: feed_loop_cases)
    case whole
    let ?n = "be32 (drop 1 buf)"
    let ?later = "drop (grpcMsgPrefixLen + ?n) buf"
    obtain more where later: "feed_loop ?later = (Inr more, rest)"
      and msgs: "msgs = take ?n (drop grpcMsgPrefixLen buf) # more"
      using less.prems feed_loop_message[OF whole] by (auto simp: then_feed_def split: prod.splits sum.splits)
    have "length ?later < length buf" using whole by (simp add: grpcMsgPrefixLen_def)
    from less.hyps[OF this later]
    have "list_all sendable more \<and> length rest < grpcMsgPrefixLen + maxGRPCMessageSize
      \<and> length buf = grpcMsgPrefixLen + ?n + (\<Sum>m\<leftarrow>more. grpcMsgPrefixLen + length m) + length rest"
      using whole(3) by (metis add.assoc le_add_diff_inverse length_drop)
    then show ?thesis using whole msgs by (simp add: sendable_def)
  qed (use less.prems in \<open>auto simp: feed_loop_ends\<close>)
qed

subsection \<open>Status messages\<close>

lemma hex_val_upper: "i < 16 \<Longrightarrow> hex_val (hexDigitsUpper ! i) = Some i"
proof -
  have "\<forall>i \<in> set [0..<16]. hex_val (hexDigitsUpper ! i) = Some i"
    by code_simp
  then show "i < 16 \<Longrightarrow> ?thesis" by simp
qed

lemma percent_decode_other: "c \<noteq> CHR ''%'' \<Longrightarrow> percent_decode (c # s) = c # percent_decode s"
  by (simp split: list.split)

lemma percent_decode_hex:
  "hex_val h = Some x \<Longrightarrow> hex_val l = Some y \<Longrightarrow>
   percent_decode (CHR ''%'' # h # l # s) = char_of (16 * x + y) # percent_decode s"
  by simp

declare percent_decode.simps(2) [simp del]

lemma percent_decode_octet: "percent_decode (encode_octet c @ s) = c # percent_decode s"
proof (cases "in_range CHR 0x20 CHR 0x7E c \<and> c \<noteq> CHR ''%''")
  case True
  then show ?thesis by (simp add: encode_octet_def percent_decode_other)
next
  case False
  have "16 * (of_char c div 16) + of_char c mod 16 = (of_char c :: nat)" by simp
  moreover have "encode_octet c = [CHR ''%'', hexDigitsUpper ! (of_char c div 16), hexDigitsUpper ! (of_char c mod 16)]"
    using False by (simp only: encode_octet_def if_False)
  ultimately show ?thesis
    using percent_decode_hex[OF hex_val_upper[OF nibble_bounds(1)] hex_val_upper[OF nibble_bounds(2)], of c c s] by simp
qed

lemma percent_decode_encode: "percent_decode (encodeGRPCMessage s) = s"
  by (induction s) (simp_all add: encodeGRPCMessage_def percent_decode_octet)

lemma percent_decode_plain: "CHR ''%'' \<notin> set s \<Longrightarrow> percent_decode s = s"
  by (induction s) (auto simp: percent_decode_other)

interpretation grpc_message: codec "\<lambda>_. True" encodeGRPCMessage "\<lambda>s. Some (decodeGRPCMessage s)"
  by unfold_locales (metis decodeGRPCMessage_def percent_decode_encode percent_decode_plain)

lemma encodeGRPCMessage_printable: "list_all (in_range CHR 0x20 CHR 0x7E) (encodeGRPCMessage s)"
proof -
  have "\<forall>i \<in> set [0..<16]. in_range CHR 0x20 CHR 0x7E (hexDigitsUpper ! i)" by code_simp
  then have "i < 16 \<Longrightarrow> in_range CHR 0x20 CHR 0x7E (hexDigitsUpper ! i)" for i by simp
  moreover have "in_range CHR 0x20 CHR 0x7E CHR ''%''" by code_simp
  ultimately have "list_all (in_range CHR 0x20 CHR 0x7E) (encode_octet c)" for c
    by (simp add: encode_octet_def nibble_bounds)
  then show ?thesis by (auto simp: encodeGRPCMessage_def list_all_iff)
qed

lemma Atoi_show_int: "- (2 ^ 63) \<le> i \<Longrightarrow> i < 2 ^ 63 \<Longrightarrow> Atoi (show_int i) = Some i"
proof -
  assume i: "- (2 ^ 63) \<le> i" "i < 2 ^ 63"
  obtain d ds where d: "show_nat (nat i) = d # ds" by (cases "show_nat (nat i)") auto
  have "is_digit d" using show_nat_digits[of "nat i"] d by simp
  then have "d \<noteq> CHR ''-''" "d \<noteq> CHR ''+''" by (auto simp: is_digit_def)
  then show ?thesis
    using i d show_nat_digits[of "nat i"] show_nat_digits[of "nat (- i)"] read_show_nat[of "nat i"]
    by (auto simp: Atoi_def show_int_def Let_def)
qed

subsection \<open>All events of a direction\<close>

lemma conn_next_queued:
  "pm_msgs (cd_queued c) = msg # later \<Longrightarrow> conn_next fs e c =
   (Inr (message_event (pm_streamID (cd_queued c)) (Some msg) (later = [] \<and> pm_endStream (cd_queued c))), fs,
    c\<lparr>cd_queued := (cd_queued c)\<lparr>pm_msgs := later\<rparr>\<rparr>)"
  by (simp add: conn_next.simps drainQueued_def)

lemma conn_next_Nil: "pm_msgs (cd_queued c) = [] \<Longrightarrow> conn_next [] e c = (Inl e, [], c)"
  by (simp add: conn_next.simps drainQueued_def)

definition header_event :: "redactor \<Rightarrow> stream_id \<Rightarrow> header list \<Rightarrow> bool \<Rightarrow> wireEvent" where
  "header_event r i hfs ended = \<lparr>ev_streamID = i, ev_kind = wireHeaders, ev_headers = sanitizeHeaders r hfs,
     ev_message = None, ev_endStream = ended\<rparr>"

definition reset_event :: "stream_id \<Rightarrow> wireEvent" where
  "reset_event i = \<lparr>ev_streamID = i, ev_kind = wireReset, ev_headers = [], ev_message = None, ev_endStream = False\<rparr>"

definition goaway_event :: wireEvent where
  "goaway_event = \<lparr>ev_streamID = 0, ev_kind = wireGoAway, ev_headers = [], ev_message = None, ev_endStream = False\<rparr>"

lemma conn_next_Cons:
  assumes "pm_msgs (cd_queued c) = []"
  shows
    "conn_next (MetaHeadersFrame i hfs ended # fs) e c = (Inr (header_event (cd_redact c) i hfs ended), fs, c)"
    "conn_next (RSTStreamFrame i # fs) e c = (Inr (reset_event i), fs, c\<lparr>cd_streams := (cd_streams c)(i := None)\<rparr>)"
    "conn_next (GoAwayFrame # fs) e c = (Inr goaway_event, fs, c)"
    "conn_next (SettingsFrame a # fs) e c = conn_next fs e c"
    "conn_next (PingFrame a p # fs) e c = conn_next fs e c"
    "conn_next (OtherFrame # fs) e c = conn_next fs e c"
    "conn_next (DataFrame i data ended # fs) e c = (case feedData i data ended c of
       (Inl err, c') \<Rightarrow> (Inl err, fs, c')
     | (Inr (Some ev), c') \<Rightarrow> (Inr ev, fs, c')
     | (Inr None, c') \<Rightarrow> if ended then (Inr (message_event i None True), fs, c') else conn_next fs e c')"
  using assms
  by (subst conn_next.simps, simp add: drainQueued_def header_event_def reset_event_def goaway_event_def
      cong: sum.case_cong option.case_cong)+

text \<open>What a data frame leaves: its decoder advanced, every other one as it was.\<close>

definition decoder_of :: "(stream_id \<rightharpoonup> streamDecoder) \<Rightarrow> stream_id \<Rightarrow> streamDecoder" where
  "decoder_of st i = (case st i of None \<Rightarrow> \<lparr>sd_buf = []\<rparr> | Some d \<Rightarrow> d)"

lemma feedData_eq:
  "feedData i data ended c =
     (case feed data (decoder_of (cd_streams c) i) of
        (Inl e, d) \<Rightarrow> (Inl e, c\<lparr>cd_streams := (cd_streams c)(i \<mapsto> d)\<rparr>)
      | (Inr [], d) \<Rightarrow> (Inr None, c\<lparr>cd_streams := (cd_streams c)(i \<mapsto> d)\<rparr>)
      | (Inr (msg # later), d) \<Rightarrow>
          (Inr (Some (message_event i (Some msg) (later = [] \<and> ended))),
           c\<lparr>cd_streams := (cd_streams c)(i \<mapsto> d), cd_queued := \<lparr>pm_streamID = i, pm_msgs = later, pm_endStream = ended\<rparr>\<rparr>))"
  by (auto simp: feedData_def decoder_of_def Let_def split: prod.split sum.split list.split)

lemma feedData_queue:
  "feedData i data ended c = (Inr None, c') \<Longrightarrow> pm_msgs (cd_queued c') = pm_msgs (cd_queued c)"
  by (auto simp: feedData_eq split: prod.splits sum.splits list.splits)

text \<open>Every event takes a frame off the wire or a message off the queue.\<close>

lemma conn_next_shrinks:
  "conn_next fs e c = (Inr ev, fs', c') \<Longrightarrow>
   length fs' < length fs \<or> fs' = fs \<and> length (pm_msgs (cd_queued c')) < length (pm_msgs (cd_queued c))"
proof (induction fs arbitrary: c)
  case Nil
  then show ?case
    by (cases "pm_msgs (cd_queued c)") (auto simp: conn_next_queued conn_next_Nil)
next
  case (Cons f fs)
  show ?case
  proof (cases "pm_msgs (cd_queued c)")
    case (Cons m later)
    with Cons.prems show ?thesis by (auto simp: conn_next_queued)
  next
    case Nil
    have skip: "length fs' < length (f # fs)"
      if "conn_next fs e d = (Inr ev, fs', c')" for d
      using Cons.IH[OF that] by auto
    show ?thesis
    proof (cases f)
      case (DataFrame i data ended)
      then show ?thesis
        using Cons.prems skip Nil
        by (auto simp: conn_next_Cons split: prod.splits sum.splits option.splits if_splits)
    qed (use Cons.prems skip Nil in \<open>auto simp: conn_next_Cons\<close>)
  qed
qed

function decode_events :: "h2frame list \<Rightarrow> goerr \<Rightarrow> connDecoder \<Rightarrow> wireEvent list \<times> goerr" where
  "decode_events fs e c =
     (case conn_next fs e c of
        (Inl err, fs', c') \<Rightarrow> ([], err)
      | (Inr ev, fs', c') \<Rightarrow> (case decode_events fs' e c' of (evs, err) \<Rightarrow> (ev # evs, err)))"
  by pat_completeness auto
termination
  by (relation "measures [\<lambda>(fs, e, c). length fs, \<lambda>(fs, e, c). length (pm_msgs (cd_queued c))]")
    (auto dest: conn_next_shrinks[OF sym])

declare decode_events.simps [simp del]

subsection \<open>Events frame by frame\<close>

text \<open>The reference decoder: no queue, each frame turned into its events at once.\<close>

fun data_events :: "stream_id \<Rightarrow> bytes list \<Rightarrow> bool \<Rightarrow> wireEvent list" where
  "data_events i [] ended = []"
| "data_events i [msg] ended = [message_event i (Some msg) ended]"
| "data_events i (msg # later) ended = message_event i (Some msg) False # data_events i later ended"

definition frame_data_events :: "stream_id \<Rightarrow> bytes list \<Rightarrow> bool \<Rightarrow> wireEvent list" where
  "frame_data_events i msgs ended =
     (if msgs = [] then (if ended then [message_event i None True] else []) else data_events i msgs ended)"

definition before :: "wireEvent list \<Rightarrow> wireEvent list \<times> goerr \<Rightarrow> wireEvent list \<times> goerr" where
  "before evs x = (evs @ fst x, snd x)"

lemma before_simps [simp]:
  "before [] x = x" "before a (before b x) = before (a @ b) x" "fst (before a x) = a @ fst x" "snd (before a x) = snd x"
  by (simp_all add: before_def)

fun plain_events :: "redactor \<Rightarrow> h2frame list \<Rightarrow> goerr \<Rightarrow> (stream_id \<rightharpoonup> streamDecoder) \<Rightarrow> wireEvent list \<times> goerr" where
  "plain_events r [] e st = ([], e)"
| "plain_events r (MetaHeadersFrame i hfs ended # fs) e st = before [header_event r i hfs ended] (plain_events r fs e st)"
| "plain_events r (DataFrame i data ended # fs) e st =
     (case feed data (decoder_of st i) of
        (Inl err, d) \<Rightarrow> ([], err)
      | (Inr msgs, d) \<Rightarrow> before (frame_data_events i msgs ended) (plain_events r fs e (st(i \<mapsto> d))))"
| "plain_events r (RSTStreamFrame i # fs) e st = before [reset_event i] (plain_events r fs e (st(i := None)))"
| "plain_events r (GoAwayFrame # fs) e st = before [goaway_event] (plain_events r fs e st)"
| "plain_events r (SettingsFrame a # fs) e st = plain_events r fs e st"
| "plain_events r (PingFrame a p # fs) e st = plain_events r fs e st"
| "plain_events r (OtherFrame # fs) e st = plain_events r fs e st"

lemma decode_event:
  "conn_next fs e c = (Inr ev, fs', c') \<Longrightarrow> decode_events fs e c = before [ev] (decode_events fs' e c')"
  by (subst decode_events.simps) (simp add: before_def split: prod.split)

lemma decode_stop: "conn_next fs e c = (Inl err, fs', c') \<Longrightarrow> decode_events fs e c = ([], err)"
  by (subst decode_events.simps) simp

lemma decode_skip: "conn_next fs e c = conn_next fs' e c' \<Longrightarrow> decode_events fs e c = decode_events fs' e c'"
  by (subst (1 2) decode_events.simps) simp

lemma decode_queue:
  "pm_msgs (cd_queued c) = msgs \<Longrightarrow> decode_events fs e c =
   before (data_events (pm_streamID (cd_queued c)) msgs (pm_endStream (cd_queued c)))
     (decode_events fs e (c\<lparr>cd_queued := (cd_queued c)\<lparr>pm_msgs := []\<rparr>\<rparr>))"
proof (induction msgs arbitrary: c)
  case (Cons m later)
  have "decode_events fs e c = before [message_event (pm_streamID (cd_queued c)) (Some m) (later = [] \<and> pm_endStream (cd_queued c))]
      (decode_events fs e (c\<lparr>cd_queued := (cd_queued c)\<lparr>pm_msgs := later\<rparr>\<rparr>))"
    by (rule decode_event[OF conn_next_queued[OF Cons.prems]])
  with Cons.IH[of "c\<lparr>cd_queued := (cd_queued c)\<lparr>pm_msgs := later\<rparr>\<rparr>"] show ?case
    by (cases later) simp_all
next
  case Nil
  obtain st r q where "c = \<lparr>cd_streams = st, cd_redact = r, cd_queued = q\<rparr>" by (cases c)
  with Nil show ?case by (cases q) simp
qed

lemma decode_data:
  assumes q: "pm_msgs (cd_queued c) = []"
    and IH: "\<And>c. pm_msgs (cd_queued c) = [] \<Longrightarrow> decode_events fs e c = plain_events (cd_redact c) fs e (cd_streams c)"
  shows "decode_events (DataFrame i data ended # fs) e c = plain_events (cd_redact c) (DataFrame i data ended # fs) e (cd_streams c)"
proof -
  note step = conn_next_Cons(7)[OF q, of i data ended fs e]
  obtain x d where x: "feed data (decoder_of (cd_streams c) i) = (x, d)" by fastforce
  let ?c = "c\<lparr>cd_streams := (cd_streams c)(i \<mapsto> d)\<rparr>"
  consider err where "x = Inl err" | "x = Inr []" "ended" | "x = Inr []" "\<not> ended" | m later where "x = Inr (m # later)"
    by (metis list.exhaust sum.exhaust)
  then show ?thesis
  proof cases
    case 1
    with x step show ?thesis by (simp add: feedData_eq decode_stop)
  next
    case 2
    with x step IH[of ?c] q show ?thesis
      by (simp add: feedData_eq decode_event frame_data_events_def fun_upd_def)
  next
    case 3
    with x step IH[of ?c] q decode_skip[of "DataFrame i data ended # fs" e c fs ?c] show ?thesis
      by (simp add: feedData_eq frame_data_events_def fun_upd_def)
  next
    case 4
    let ?d = "?c\<lparr>cd_queued := \<lparr>pm_streamID = i, pm_msgs = later, pm_endStream = ended\<rparr>\<rparr>"
    have "decode_events (DataFrame i data ended # fs) e c
        = before [message_event i (Some m) (later = [] \<and> ended)] (decode_events fs e ?d)"
      using 4 x step by (intro decode_event) (simp add: feedData_eq)
    moreover have "decode_events fs e ?d = before (data_events i later ended)
        (plain_events (cd_redact c) fs e ((cd_streams c)(i \<mapsto> d)))"
      using decode_queue[of ?d later fs e] IH[of "?c\<lparr>cd_queued := \<lparr>pm_streamID = i, pm_msgs = [], pm_endStream = ended\<rparr>\<rparr>"]
      by (simp add: fun_upd_def)
    ultimately show ?thesis
      using x 4 by (cases later) (simp_all add: frame_data_events_def)
  qed
qed

lemma decode_plain:
  "pm_msgs (cd_queued c) = [] \<Longrightarrow> decode_events fs e c = plain_events (cd_redact c) fs e (cd_streams c)"
proof (induction fs arbitrary: c)
  case Nil
  then show ?case using decode_stop[OF conn_next_Nil] by simp
next
  case (Cons f fs)
  note step = conn_next_Cons[OF Cons.prems]
  show ?case
  proof (cases f)
    case (MetaHeadersFrame i hfs ended)
    with decode_event[OF step(1)] Cons.IH[OF Cons.prems] show ?thesis by simp
  next
    case (RSTStreamFrame i)
    with decode_event[OF step(2)] Cons.IH Cons.prems show ?thesis by (simp add: fun_upd_def)
  next
    case GoAwayFrame
    with decode_event[OF step(3)] Cons.IH[OF Cons.prems] show ?thesis by simp
  next
    case (SettingsFrame a)
    with decode_skip[OF step(4)] Cons.IH[OF Cons.prems] show ?thesis by simp
  next
    case (PingFrame a p)
    with decode_skip[OF step(5)] Cons.IH[OF Cons.prems] show ?thesis by simp
  next
    case OtherFrame
    with decode_skip[OF step(6)] Cons.IH[OF Cons.prems] show ?thesis by simp
  next
    case (DataFrame i data ended)
    then show ?thesis using decode_data[OF Cons.prems Cons.IH] by simp
  qed
qed

subsection \<open>Streams do not influence each other\<close>

fun frame_on :: "stream_id \<Rightarrow> h2frame \<Rightarrow> bool" where
  "frame_on i (MetaHeadersFrame j hfs ended) = (j = i)"
| "frame_on i (DataFrame j data ended) = (j = i)"
| "frame_on i (RSTStreamFrame j) = (j = i)"
| "frame_on i _ = False"

abbreviation event_on :: "stream_id \<Rightarrow> wireEvent \<Rightarrow> bool" where
  "event_on i ev \<equiv> ev_streamID ev = i"

lemma event_ids [simp]:
  "ev_streamID (header_event r i hfs ended) = i" "ev_streamID (reset_event i) = i"
  "ev_streamID goaway_event = 0" "ev_streamID (message_event i m ended) = i"
  by (simp_all add: header_event_def reset_event_def goaway_event_def message_event_def)

lemma frame_data_events_on:
  "filter (event_on i) (frame_data_events j msgs ended) = (if j = i then frame_data_events j msgs ended else [])"
proof -
  have "\<forall>ev \<in> set (data_events j msgs ended). ev_streamID ev = j"
    by (induction j msgs ended rule: data_events.induct) auto
  then show ?thesis
    by (auto simp: frame_data_events_def filter_id_conv filter_empty_conv)
qed

lemma decoder_of_upd [simp]:
  "decoder_of (st(i \<mapsto> d)) j = (if j = i then d else decoder_of st j)"
  "decoder_of (st(i := None)) j = (if j = i then \<lparr>sd_buf = []\<rparr> else decoder_of st j)"
  by (simp_all add: decoder_of_def)

lemma feed_error: "feed data d = (Inl err, d') \<Longrightarrow> err \<noteq> ErrEOF"
proof -
  have "feed_loop buf = (Inl err, rest) \<Longrightarrow> err \<noteq> ErrEOF" for buf rest
  proof (induction buf rule: feed_loop.induct)
    case (1 buf)
    then show ?case
      by (cases buf rule: feed_loop_cases)
        (auto simp: feed_loop_ends feed_loop_message too_long_def then_feed_def Let_def split: prod.splits sum.splits)
  qed
  then show "feed data d = (Inl err, d') \<Longrightarrow> ?thesis"
    by (auto simp: feed_def split: prod.splits)
qed

lemma plain_events_stream:
  assumes "plain_events r fs ErrEOF st = (evs, ErrEOF)" "i \<noteq> 0" "decoder_of st i = decoder_of st' i"
  shows "plain_events r (filter (frame_on i) fs) ErrEOF st' = (filter (event_on i) evs, ErrEOF)"
  using assms
proof (induction r fs "ErrEOF :: goerr" st arbitrary: evs st' rule: plain_events.induct)
  case (3 r j data ended fs st)
  obtain msgs d rest where f: "feed data (decoder_of st j) = (Inr msgs, d)"
    "plain_events r fs ErrEOF (st(j \<mapsto> d)) = (rest, ErrEOF)" "evs = frame_data_events j msgs ended @ rest"
    using "3.prems"(1) feed_error
    by (cases "feed data (decoder_of st j)"; cases "fst (feed data (decoder_of st j))")
      (fastforce simp: before_def prod_eq_iff)+
  show ?case
  proof (cases "j = i")
    case True
    have "plain_events r (filter (frame_on i) fs) ErrEOF (st'(j \<mapsto> d)) = (filter (event_on i) rest, ErrEOF)"
      using f "3.prems" True by (intro "3.hyps") simp_all
    with f "3.prems"(3) True show ?thesis by (simp add: frame_data_events_on before_def)
  next
    case False
    have "plain_events r (filter (frame_on i) fs) ErrEOF st' = (filter (event_on i) rest, ErrEOF)"
      using f "3.prems" False by (intro "3.hyps") simp_all
    with f False show ?thesis by (simp add: frame_data_events_on)
  qed
qed (auto simp: before_def prod_eq_iff)

text \<open>The payload octets of one stream, and the messages its events carry.\<close>

fun payload_of :: "stream_id \<Rightarrow> h2frame list \<Rightarrow> bytes" where
  "payload_of i [] = []"
| "payload_of i (DataFrame j data ended # fs) = (if j = i then data else []) @ payload_of i fs"
| "payload_of i (_ # fs) = payload_of i fs"

definition messages_of :: "stream_id \<Rightarrow> wireEvent list \<Rightarrow> bytes list" where
  "messages_of i evs = concat (map (\<lambda>ev. if event_on i ev then (case ev_message ev of None \<Rightarrow> [] | Some m \<Rightarrow> [m]) else []) evs)"

lemma messages_of_simps [simp]:
  "messages_of i [] = []" "messages_of i (xs @ ys) = messages_of i xs @ messages_of i ys"
  "messages_of i (header_event r j hfs ended # evs) = messages_of i evs"
  "messages_of i (reset_event j # evs) = messages_of i evs" "messages_of i (goaway_event # evs) = messages_of i evs"
  by (simp_all add: messages_of_def header_event_def reset_event_def goaway_event_def)

lemma messages_of_data: "messages_of i (frame_data_events j msgs ended) = (if j = i then msgs else [])"
proof -
  have "messages_of i (data_events j msgs ended) = (if j = i then msgs else [])"
    by (induction j msgs ended rule: data_events.induct) (auto simp: messages_of_def message_event_def)
  then show ?thesis by (auto simp: frame_data_events_def messages_of_def message_event_def)
qed

lemma plain_events_messages:
  assumes "plain_events r fs ErrEOF st = (evs, ErrEOF)" "RSTStreamFrame i \<notin> set fs"
    and "feed_loop (sd_buf (decoder_of st i)) = (Inr [], sd_buf (decoder_of st i))"
  shows "\<exists>rest. feed_loop (sd_buf (decoder_of st i) @ payload_of i fs) = (Inr (messages_of i evs), rest)"
  using assms
proof (induction r fs "ErrEOF :: goerr" st arbitrary: evs rule: plain_events.induct)
  case (3 r j data ended fs st)
  obtain msgs d rest where f: "feed data (decoder_of st j) = (Inr msgs, d)"
    "plain_events r fs ErrEOF (st(j \<mapsto> d)) = (rest, ErrEOF)" "evs = frame_data_events j msgs ended @ rest"
    using "3.prems"(1) feed_error
    by (cases "feed data (decoder_of st j)"; cases "fst (feed data (decoder_of st j))")
      (fastforce simp: before_def prod_eq_iff)+
  show ?case
  proof (cases "j = i")
    case True
    have l: "feed_loop (sd_buf (decoder_of st i) @ data) = (Inr msgs, sd_buf d)"
      using f(1) True by (auto simp: feed_def split: prod.splits)
    have "\<exists>x. feed_loop (sd_buf d @ payload_of i fs) = (Inr (messages_of i rest), x)"
      using "3.hyps"[OF f(1)[symmetric] refl f(2)] "3.prems"(2) feed_loop_drained[OF l] True by simp
    with f(3) True show ?thesis
      using feed_loop_append[of "sd_buf (decoder_of st i) @ data" "payload_of i fs"] l
      by (auto simp: messages_of_data)
  next
    case False
    have "\<exists>x. feed_loop (sd_buf (decoder_of st i) @ payload_of i fs) = (Inr (messages_of i rest), x)"
      using "3.hyps"[OF f(1)[symmetric] refl f(2)] "3.prems"(2,3) False by simp
    with f(3) False show ?thesis by (simp add: messages_of_data)
  qed
qed (auto simp: before_def prod_eq_iff)

lemma newConnDecoder_plain:
  "decode_events fs e (newConnDecoder r) = plain_events r fs e Map.empty"
  by (simp add: decode_plain newConnDecoder_def)

subsection \<open>Properties\<close>

text \<open>C27: Messages survive any segmentation. Frame any messages of at most 64 MiB, cut the
  octets into pieces anywhere, also inside a length prefix, and feed the pieces one by one: the
  decoder returns exactly the messages, in order, and has nothing left over. The pieces the
  replay side writes are such a cut, and none of them is empty or above 16 KiB.\<close>

theorem reassembly_round_trip:
  assumes "list_all sendable msgs" "concat pieces = concat (map frame_message msgs)"
  shows "feed_all pieces \<lparr>sd_buf = []\<rparr> = (Inr msgs, \<lparr>sd_buf = []\<rparr>)
    \<and> concat (concat (map chunks (map frame_message msgs))) = concat pieces
    \<and> (\<forall>c \<in> set (concat (map chunks (map frame_message msgs))). 0 < length c \<and> length c \<le> 16384)"
proof -
  have "feed (concat pieces) \<lparr>sd_buf = []\<rparr> = (Inr msgs, \<lparr>sd_buf = []\<rparr>)"
    using assms by (simp add: feed_def feed_loop_frames)
  then have f: "feed_all pieces \<lparr>sd_buf = []\<rparr> = (Inr msgs, \<lparr>sd_buf = []\<rparr>)"
    using feed_all_pieces[of "\<lparr>sd_buf = []\<rparr>" pieces] by (simp add: prod_eq_iff)
  have c: "concat (concat (map chunks xs)) = concat xs" for xs
    by (induction xs) (simp_all add: concat_chunks)
  have b: "\<forall>c \<in> set (concat (map chunks xs)). 0 < length c \<and> length c \<le> 16384" for xs
    using chunks_bound by (fastforce simp: chunk_size_def)
  show ?thesis
    using f b[of "map frame_message msgs"] assms(2) by (simp only: c)
qed

theorem reassembly_round_trip_witness:
  "feed_all [[CHR 0x00], [CHR 0x00, CHR 0x00, CHR 0x00, CHR 0x02, CHR ''a''], [CHR ''b'', CHR 0x00, CHR 0x00, CHR 0x00, CHR 0x00, CHR 0x00]] \<lparr>sd_buf = []\<rparr>
     = (Inr [''ab'', []], \<lparr>sd_buf = []\<rparr>)"
proof -
  have "list_all sendable [''ab'', []]" by (simp add: sendable_def maxGRPCMessageSize_def)
  moreover have "concat [[CHR 0x00], [CHR 0x00, CHR 0x00, CHR 0x00, CHR 0x02, CHR ''a''], [CHR ''b'', CHR 0x00, CHR 0x00, CHR 0x00, CHR 0x00, CHR 0x00]]
      = concat (map frame_message [''ab'', []])"
    by (simp add: frame_message_def Let_def to_byte_eq)
  ultimately show ?thesis using reassembly_round_trip by blast
qed

text \<open>C26: A peer cannot make the decoder hold or deliver more than the limit. However the octets
  of a direction arrive, as long as they decode, every delivered message is at most 64 MiB, the
  decoder holds back less than one message of that size with its prefix, and no octet is lost or
  made up: those fed are the delivered messages, five octets for each, and those held back.\<close>

theorem decoder_memory_bounded:
  assumes "feed_all pieces \<lparr>sd_buf = []\<rparr> = (Inr msgs, d)"
  shows "(\<forall>m \<in> set msgs. length m \<le> 64 * 2 ^ 20)
    \<and> length (sd_buf d) < 5 + 64 * 2 ^ 20
    \<and> length (concat pieces) = (\<Sum>m\<leftarrow>msgs. 5 + length m) + length (sd_buf d)"
proof -
  have "feed (concat pieces) \<lparr>sd_buf = []\<rparr> = (Inr msgs, d)"
    using feed_all_pieces[of "\<lparr>sd_buf = []\<rparr>" pieces] assms by (metis feed_loop_Nil fst_conv prod.collapse snd_conv streamDecoder.select_convs(1))
  then have "feed_loop (concat pieces) = (Inr msgs, sd_buf d)"
    by (auto simp: feed_def split: prod.splits)
  from feed_loop_bounds[OF this] show ?thesis
    by (simp add: list_all_iff sendable_def maxGRPCMessageSize_def grpcMsgPrefixLen_def)
qed

theorem decoder_memory_bounded_witness:
  "feed_all [[CHR 0x00, CHR 0x00], [CHR 0x00, CHR 0x00, CHR 0x01, CHR ''a'', CHR 0x00]] \<lparr>sd_buf = []\<rparr>
     = (Inr [''a''], \<lparr>sd_buf = [CHR 0x00]\<rparr>)
   \<and> length (concat [[CHR 0x00, CHR 0x00], [CHR 0x00, CHR 0x00, CHR 0x01, CHR ''a'', CHR 0x00]]) = 5 + 1 + 1"
proof -
  have *: "feed_all [[CHR 0x00, CHR 0x00], [CHR 0x00, CHR 0x00, CHR 0x01, CHR ''a'', CHR 0x00]] \<lparr>sd_buf = []\<rparr>
     = (Inr [''a''], \<lparr>sd_buf = [CHR 0x00]\<rparr>)"
    by (simp add: feed_def feed_loop.simps be32_def grpcMsgPrefixLen_def maxGRPCMessageSize_def)
  show ?thesis using * decoder_memory_bounded[OF *] by simp
qed

text \<open>C30: Multiplexing is transparent. When the frames of a connection are decoded to the end,
  the events of any one stream are exactly those its own frames give when it has the
  connection to itself, whatever is interleaved with them; and unless it is reset, its messages
  are the ones its payload octets reassemble to.\<close>

theorem multiplexing_is_transparent:
  assumes "decode_events fs ErrEOF (newConnDecoder r) = (evs, ErrEOF)" "i \<noteq> 0"
  shows "decode_events (filter (frame_on i) fs) ErrEOF (newConnDecoder r) = (filter (event_on i) evs, ErrEOF)
    \<and> (RSTStreamFrame i \<notin> set fs \<longrightarrow> (\<exists>rest. feed_loop (payload_of i fs) = (Inr (messages_of i evs), rest)))"
proof -
  have p: "plain_events r fs ErrEOF Map.empty = (evs, ErrEOF)"
    using assms(1) by (simp add: newConnDecoder_plain)
  have "decoder_of Map.empty i = \<lparr>sd_buf = []\<rparr>" by (simp add: decoder_of_def)
  then show ?thesis
    using plain_events_stream[OF p assms(2) refl] plain_events_messages[OF p, of i] by (simp add: newConnDecoder_plain)
qed

definition sample_frames :: "h2frame list" where
  "sample_frames =
     [DataFrame 1 [CHR 0x00, CHR 0x00, CHR 0x00] False,
      DataFrame 3 [CHR 0x00, CHR 0x00, CHR 0x00, CHR 0x00, CHR 0x01, CHR ''x''] True,
      SettingsFrame False,
      DataFrame 1 [CHR 0x00, CHR 0x01, CHR ''y''] True]"

lemma feed_loop_sample:
  "feed_loop [CHR 0x00, CHR 0x00, CHR 0x00] = (Inr [], [CHR 0x00, CHR 0x00, CHR 0x00])"
  "feed_loop [CHR 0x00, CHR 0x00, CHR 0x00, CHR 0x00, CHR 0x01, CHR ''x''] = (Inr [''x''], [])"
  "feed_loop [CHR 0x00, CHR 0x00, CHR 0x00, CHR 0x00, CHR 0x01, CHR ''y''] = (Inr [''y''], [])"
proof -
  have "feed_loop [CHR 0x00, CHR 0x00, CHR 0x00, CHR 0x00, CHR 0x01, c] = (Inr [[c]], [])" for c
  proof -
    have "[CHR 0x00, CHR 0x00, CHR 0x00, CHR 0x00, CHR 0x01, c] = concat (map frame_message [[c]])"
      by (simp add: frame_message_def Let_def to_byte_eq)
    then show ?thesis
      using feed_loop_frames[of "[[c]]"] by (simp add: sendable_def maxGRPCMessageSize_def)
  qed
  then show "feed_loop [CHR 0x00, CHR 0x00, CHR 0x00, CHR 0x00, CHR 0x01, CHR ''x''] = (Inr [''x''], [])"
    "feed_loop [CHR 0x00, CHR 0x00, CHR 0x00, CHR 0x00, CHR 0x01, CHR ''y''] = (Inr [''y''], [])" by simp_all
qed (simp add: feed_loop_short grpcMsgPrefixLen_def)

theorem multiplexing_is_transparent_witness:
  "decode_events sample_frames ErrEOF (newConnDecoder default_redactor)
     = ([message_event 3 (Some ''x'') True, message_event 1 (Some ''y'') True], ErrEOF)
   \<and> decode_events (filter (frame_on 1) sample_frames) ErrEOF (newConnDecoder default_redactor)
     = ([message_event 1 (Some ''y'') True], ErrEOF)"
proof -
  have d: "decode_events sample_frames ErrEOF (newConnDecoder default_redactor)
     = ([message_event 3 (Some ''x'') True, message_event 1 (Some ''y'') True], ErrEOF)"
    by (simp add: newConnDecoder_plain sample_frames_def feed_def decoder_of_def feed_loop_sample frame_data_events_def before_def)
  with multiplexing_is_transparent[OF d, of 1] show ?thesis by simp
qed

end
