(* ===== verification/Grpc_Tap.thy ===== *)
theory Grpc_Tap
  imports Grpc_Wire
begin

section \<open>Recording at the transport (adapters/grpctransport/record.go)\<close>

text \<open>
  A tap on a live connection: two decoders, one per direction, feed one tracker, which keeps a
  log per stream and writes a cassette pair when the stream ends. The decoders run concurrently
  and the tracker handles one event at a time, so a run of the tap is a sequence of handled
  events; what is proved of every sequence holds for every schedule.
\<close>

subsection \<open>Opens\<close>

definition msgHash :: "bytes \<Rightarrow> string" where
  "msgHash b = hex_encode (take 4 (sha256 b))"

definition streamOpenFor :: "FileSession \<Rightarrow> string \<Rightarrow> string \<Rightarrow> string \<Rightarrow> bytes \<Rightarrow> StreamOpen" where
  "streamOpenFor s typ0 service mth openMsg =
     (let op = \<lparr>so_AdapterID = ''grpc'', so_Type = typ0,
                so_Identity = [(''service'', GStr service), (''method'', GStr mth)],
                so_Counter = False,
                so_Payload = [(''service'', GStr service), (''method'', GStr mth)]\<rparr>
      in if typ0 = StreamServer
         then let scrubbed = ScrubStreamFrame s StreamSend \<lparr>info_AdapterID = ''grpc'', info_Type = typ0\<rparr> openMsg
              in op\<lparr>so_Identity := so_Identity op @ [(''msg_hash'', GStr (msgHash scrubbed))]\<rparr>
         else op\<lparr>so_Counter := True\<rparr>)"

subsection \<open>Per-stream state\<close>

datatype direction = dirClientToServer | dirServerToClient

datatype recEvent = evSend bytes | evRecv bytes | evHalfClose

record recStream =
  st_service :: string
  st_method :: string
  st_events :: "recEvent list"
  st_sends :: "bytes list"
  st_sentCount :: nat
  st_recvCount :: nat
  st_sawHalfClose :: bool
  st_halfCloseAfterFirstSend :: bool
  st_compressed :: bool
  st_finished :: bool

definition new_recStream :: recStream where
  "new_recStream = \<lparr>st_service = [], st_method = [], st_events = [], st_sends = [], st_sentCount = 0, st_recvCount = 0,
     st_sawHalfClose = False, st_halfCloseAfterFirstSend = False, st_compressed = False, st_finished = False\<rparr>"

record streamTracker =
  tk_session :: FileSession
  tk_streams :: "stream_id \<rightharpoonup> recStream"

definition newStreamTracker :: "FileSession \<Rightarrow> streamTracker" where
  "newStreamTracker s = \<lparr>tk_session = s, tk_streams = Map.empty\<rparr>"

definition tracker_get :: "stream_id \<Rightarrow> streamTracker \<Rightarrow> recStream \<times> streamTracker" where
  "tracker_get i t =
     (case tk_streams t i of
        Some s \<Rightarrow> (s, t)
      | None \<Rightarrow> (new_recStream, t\<lparr>tk_streams := (tk_streams t)(i \<mapsto> new_recStream)\<rparr>))"

definition noteHalfClose :: "recStream \<Rightarrow> recStream" where
  "noteHalfClose s =
     (if st_sawHalfClose s then s
      else s\<lparr>st_sawHalfClose := True, st_halfCloseAfterFirstSend := (st_sentCount s = 1),
             st_events := st_events s @ [evHalfClose]\<rparr>)"

definition firstOrNil :: "bytes list \<Rightarrow> bytes" where
  "firstOrNil msgs = (case msgs of [] \<Rightarrow> [] | m # _ \<Rightarrow> m)"

definition inferStreamType :: "recStream \<Rightarrow> string" where
  "inferStreamType s =
     (if st_sentCount s = 1 \<and> st_sawHalfClose s \<and> st_halfCloseAfterFirstSend s then StreamServer
      else if st_recvCount s \<le> 1 then StreamClient
      else StreamBidi)"

text \<open>The buffered events go into the recording in their observed order; \<open>clock\<close> is the
  time each call reads.\<close>

fun replay_log :: "(nat \<Rightarrow> int) \<Rightarrow> recEvent list \<Rightarrow> StreamRecording \<Rightarrow> StreamRecording" where
  "replay_log clock [] r = r"
| "replay_log clock (ev # evs) r =
     replay_log (\<lambda>k. clock (Suc k)) evs
       (case ev of
          evSend m \<Rightarrow> RecordSend m (clock 0) r
        | evRecv m \<Rightarrow> RecordRecv m (clock 0) r
        | evHalfClose \<Rightarrow> RecordHalfClose (clock 0) r)"

definition tracker_finish ::
  "'p grpc_lib \<Rightarrow> (nat \<Rightarrow> int) \<Rightarrow> stream_id \<Rightarrow> recStream \<Rightarrow> int \<Rightarrow> string \<Rightarrow> streamTracker \<Rightarrow> 'd world
   \<Rightarrow> streamTracker \<times> 'd world" where
  "tracker_finish L clock i s code msg t w =
     (let t' = t\<lparr>tk_streams := (tk_streams t)(i := None)\<rparr> in
      if st_finished s \<or> st_service s = [] \<or> st_compressed s then (t', w)
      else
        let op = streamOpenFor (tk_session t) (inferStreamType s) (st_service s) (st_method s) (firstOrNil (st_sends s))
        in case OpenStreamRecord (tk_session t) op of
             (Inl e, ss) \<Rightarrow> (t'\<lparr>tk_session := ss\<rparr>, w)
           | (Inr r, ss) \<Rightarrow>
               let termErr = (if code \<noteq> 0 then Some (status_Error L code msg) else None)
               in (case Finish (clock (length (st_events s))) [(''status_code'', GInt code)] termErr
                          (replay_log clock (st_events s) r) w of
                     (e, r', w') \<Rightarrow> (t'\<lparr>tk_session := ss\<rparr>, w')))"

definition put_stream :: "stream_id \<Rightarrow> recStream \<Rightarrow> streamTracker \<Rightarrow> streamTracker" where
  "put_stream i s t = t\<lparr>tk_streams := (tk_streams t)(i \<mapsto> s)\<rparr>"

definition tracker_handle ::
  "'p grpc_lib \<Rightarrow> (nat \<Rightarrow> int) \<Rightarrow> direction \<Rightarrow> wireEvent \<Rightarrow> streamTracker \<Rightarrow> 'd world
   \<Rightarrow> goerr option \<times> streamTracker \<times> 'd world" where
  "tracker_handle L clock dir ev t0 w =
     (if ev_kind ev = wireGoAway \<or> ev_streamID ev = 0 then (None, t0, w)
      else case tracker_get (ev_streamID ev) t0 of (s, t) \<Rightarrow>
        let i = ev_streamID ev in
        if ev_kind ev = wireReset then (None, tracker_finish L clock i s 1 ''stream reset'' t w)
        else if dir = dirClientToServer \<and> ev_kind ev = wireHeaders then
          (case splitPath (headerValue (ev_headers ev) '':path'') of
             None \<Rightarrow> (None, t, w)
           | Some (service, mth) \<Rightarrow>
               let s1 = s\<lparr>st_service := service, st_method := mth\<rparr> in
               if isCompressed (ev_headers ev)
               then (Some (ErrNew (''grpctransport: '' @ service @ ''/'' @ mth @ '' negotiates grpc-encoding ''
                       @ headerValue (ev_headers ev) ''grpc-encoding''
                       @ ''; transport capture records decoded message bytes and cannot record compressed streams'')),
                     put_stream i (s1\<lparr>st_compressed := True\<rparr>) t, w)
               else (None, put_stream i (if ev_endStream ev then noteHalfClose s1 else s1) t, w))
        else if dir = dirClientToServer \<and> ev_kind ev = wireMessage then
          (if st_service s = [] then (None, t, w)
           else let s1 = (case ev_message ev of
                            None \<Rightarrow> s
                          | Some m \<Rightarrow> s\<lparr>st_sends := st_sends s @ [m], st_sentCount := st_sentCount s + 1,
                                        st_events := st_events s @ [evSend m]\<rparr>)
                in (None, put_stream i (if ev_endStream ev then noteHalfClose s1 else s1) t, w))
        else if dir = dirServerToClient \<and> ev_kind ev = wireHeaders then
          (if st_service s = [] then (None, t, w)
           else if isCompressed (ev_headers ev)
           then (Some (ErrNew (''grpctransport: '' @ st_service s @ ''/'' @ st_method s
                   @ '' response negotiates grpc-encoding '' @ headerValue (ev_headers ev) ''grpc-encoding''
                   @ ''; cannot record compressed streams'')), t, w)
           else (case grpcStatus (ev_headers ev) of
                   None \<Rightarrow> (None, t, w)
                 | Some (code, msg) \<Rightarrow> (None, tracker_finish L clock i s code msg t w)))
        else
          (case ev_message ev of
             None \<Rightarrow> (None, t, w)
           | Some m \<Rightarrow>
               if st_service s = [] then (None, t, w)
               else (None, put_stream i (s\<lparr>st_recvCount := st_recvCount s + 1,
                                           st_events := st_events s @ [evRecv m]\<rparr>) t, w)))"

definition abandonAll :: "streamTracker \<Rightarrow> streamTracker" where
  "abandonAll t = t\<lparr>tk_streams := Map.empty\<rparr>"

subsection \<open>The connection\<close>

text \<open>
  The mirrored octets of each direction; the framer turns them into frames (a parameter of the
  decoding loop below). Reads and writes return what the live connection returned.
\<close>

record recordConn =
  rn_toServer :: bytes
  rn_toClient :: bytes
  rn_closed :: bool
  rn_tracker :: streamTracker
  rn_firstErr :: "goerr option"

definition newRecordConn :: "FileSession \<Rightarrow> recordConn" where
  "newRecordConn s = \<lparr>rn_toServer = [], rn_toClient = [], rn_closed = False, rn_tracker = newStreamTracker s, rn_firstErr = None\<rparr>"

text \<open>\<open>RecordDialer\<close>: the live dial's error, or the live connection wrapped.\<close>

definition RecordDialer :: "FileSession \<Rightarrow> goerr option \<Rightarrow> recordConn res" where
  "RecordDialer s dial = (case dial of Some e \<Rightarrow> Inl e | None \<Rightarrow> Inr (newRecordConn s))"

definition tap_Read :: "bytes \<times> goerr option \<Rightarrow> recordConn \<Rightarrow> (bytes \<times> goerr option) \<times> recordConn" where
  "tap_Read live c = (live, c\<lparr>rn_toClient := rn_toClient c @ fst live\<rparr>)"

definition tap_Write :: "bytes \<Rightarrow> nat \<times> goerr option \<Rightarrow> recordConn \<Rightarrow> (nat \<times> goerr option) \<times> recordConn" where
  "tap_Write b live c = (live, c\<lparr>rn_toServer := rn_toServer c @ take (fst live) b\<rparr>)"

definition noteErr :: "goerr \<Rightarrow> recordConn \<Rightarrow> recordConn" where
  "noteErr e c = (case rn_firstErr c of None \<Rightarrow> c\<lparr>rn_firstErr := Some e\<rparr> | Some _ \<Rightarrow> c)"

definition ErrClosedPipe :: goerr where "ErrClosedPipe = ErrNew ''io: read/write on closed pipe''"

text \<open>One turn of the decoding loop of a direction. What is left of the direction is
  returned, or nothing when its loop has ended.\<close>

definition decode_turn ::
  "'p grpc_lib \<Rightarrow> (nat \<Rightarrow> int) \<Rightarrow> direction \<Rightarrow> goerr \<Rightarrow> h2frame list \<times> connDecoder \<Rightarrow> recordConn \<Rightarrow> 'd world
   \<Rightarrow> (h2frame list \<times> connDecoder) option \<times> recordConn \<times> 'd world" where
  "decode_turn L clock dir e0 d c w =
     (case conn_next (fst d) e0 (snd d) of
        (Inl err, fs', cd') \<Rightarrow>
          (None, if \<not> err_is err ErrEOF \<and> \<not> err_is err ErrClosedPipe then noteErr err c else c, w)
      | (Inr ev, fs', cd') \<Rightarrow>
          (case tracker_handle L clock dir ev (rn_tracker c) w of
             (Some err, t', w') \<Rightarrow> (None, noteErr err (c\<lparr>rn_tracker := t'\<rparr>), w')
           | (None, t', w') \<Rightarrow> (Some (fs', cd'), c\<lparr>rn_tracker := t'\<rparr>, w')))"

definition record_Close :: "goerr option \<Rightarrow> recordConn \<Rightarrow> goerr option \<times> recordConn" where
  "record_Close live c =
     (if rn_closed c then (live, c)
      else let c' = c\<lparr>rn_closed := True, rn_tracker := abandonAll (rn_tracker c)\<rparr>
           in (case (live, rn_firstErr c) of
                 (None, Some e) \<Rightarrow> (Some (ErrWrap ''grpctransport: recording incomplete'' e), c')
               | _ \<Rightarrow> (live, c')))"

subsection \<open>The log of a stream\<close>

text \<open>What the tap can see of a call between its opening and its end: a request message, which
  may carry the half-close, a response message, a bare half-close.\<close>

datatype seen = SSend bytes bool | SRecv bytes | SHalf

fun seen_event :: "stream_id \<Rightarrow> seen \<Rightarrow> direction \<times> wireEvent" where
  "seen_event i (SSend m ended) = (dirClientToServer, message_event i (Some m) ended)"
| "seen_event i (SRecv m) = (dirServerToClient, message_event i (Some m) False)"
| "seen_event i SHalf = (dirClientToServer, message_event i None True)"

fun seen_log :: "seen list \<Rightarrow> recEvent list" where
  "seen_log [] = []"
| "seen_log (SSend m ended # xs) = evSend m # (if ended then [evHalfClose] else []) @ seen_log xs"
| "seen_log (SRecv m # xs) = evRecv m # seen_log xs"
| "seen_log (SHalf # xs) = evHalfClose # seen_log xs"

fun log_sends :: "recEvent list \<Rightarrow> bytes list" where
  "log_sends [] = []"
| "log_sends (evSend m # evs) = m # log_sends evs"
| "log_sends (_ # evs) = log_sends evs"

fun log_recvs :: "recEvent list \<Rightarrow> bytes list" where
  "log_recvs [] = []"
| "log_recvs (evRecv m # evs) = m # log_recvs evs"
| "log_recvs (_ # evs) = log_recvs evs"

lemma log_append [simp]:
  "log_sends (a @ b) = log_sends a @ log_sends b" "log_recvs (a @ b) = log_recvs a @ log_recvs b"
  by (induction a rule: log_sends.induct) simp_all

text \<open>The abstract state: the log determines every counter and flag.\<close>

definition stream_of :: "string \<Rightarrow> string \<Rightarrow> recEvent list \<Rightarrow> recStream" where
  "stream_of service mth lg =
     \<lparr>st_service = service, st_method = mth, st_events = lg, st_sends = log_sends lg,
      st_sentCount = length (log_sends lg), st_recvCount = length (log_recvs lg),
      st_sawHalfClose = (evHalfClose \<in> set lg),
      st_halfCloseAfterFirstSend = (evHalfClose \<in> set lg \<and> length (log_sends (takeWhile (\<lambda>e. e \<noteq> evHalfClose) lg)) = 1),
      st_compressed = False, st_finished = False\<rparr>"

definition half_closed_once :: "recEvent list \<Rightarrow> bool" where
  "half_closed_once lg \<longleftrightarrow> count_list lg evHalfClose \<le> 1"

lemma half_closed_onceD: "half_closed_once (lg @ evHalfClose # l2) \<Longrightarrow> evHalfClose \<notin> set lg"
  by (simp add: half_closed_once_def count_list_0_iff)

lemma takeWhile_other: "evHalfClose \<notin> set lg \<Longrightarrow> takeWhile (\<lambda>e. e \<noteq> evHalfClose) lg = lg"
  by (induction lg) auto

lemma takeWhile_upto: "evHalfClose \<notin> set lg \<Longrightarrow> takeWhile (\<lambda>e. e \<noteq> evHalfClose) (lg @ evHalfClose # r) = lg"
  by (induction lg) auto

lemma noteHalfClose_log:
  "evHalfClose \<notin> set lg \<Longrightarrow> noteHalfClose (stream_of service mth lg) = stream_of service mth (lg @ [evHalfClose])"
  by (simp add: noteHalfClose_def stream_of_def takeWhile_upto)

lemma stream_of_send:
  "(stream_of service mth lg)\<lparr>st_sends := log_sends lg @ [m], st_sentCount := length (log_sends lg) + 1, st_events := lg @ [evSend m]\<rparr>
   = stream_of service mth (lg @ [evSend m])"
  by (auto simp: stream_of_def takeWhile_append)

lemma stream_of_recv:
  "(stream_of service mth lg)\<lparr>st_recvCount := length (log_recvs lg) + 1, st_events := lg @ [evRecv m]\<rparr>
   = stream_of service mth (lg @ [evRecv m])"
  by (auto simp: stream_of_def takeWhile_append)

text \<open>One event of the stream extends its log by what was seen.\<close>

lemma handle_seen:
  assumes "tk_streams t i = Some (stream_of service mth lg)" "service \<noteq> []" "i \<noteq> 0"
    and "half_closed_once (lg @ seen_log [x])" "seen_event i x = (dir, ev)"
  shows "tracker_handle L clock dir ev t w = (None, put_stream i (stream_of service mth (lg @ seen_log [x])) t, w)"
proof -
  have get: "tracker_get i t = (stream_of service mth lg, t)"
    using assms(1) by (simp add: tracker_get_def)
  have sv: "st_service (stream_of service mth lg) = service" by (simp add: stream_of_def)
  show ?thesis
  proof (cases x)
    case (SSend m ended)
    let ?s1 = "(stream_of service mth lg)\<lparr>st_sends := st_sends (stream_of service mth lg) @ [m],
        st_sentCount := st_sentCount (stream_of service mth lg) + 1, st_events := st_events (stream_of service mth lg) @ [evSend m]\<rparr>"
    have s1: "?s1 = stream_of service mth (lg @ [evSend m])"
      using stream_of_send[where service = service and mth = mth and lg = lg and m = m] by (simp add: stream_of_def)
    have "evHalfClose \<notin> set (lg @ [evSend m])" if ended
      using assms(4) SSend that half_closed_onceD[of "lg @ [evSend m]" "[]"] by simp
    then have "(if ended then noteHalfClose ?s1 else ?s1) = stream_of service mth (lg @ seen_log [x])"
      unfolding s1 using noteHalfClose_log[of "lg @ [evSend m]" service mth] SSend by simp
    moreover have "tracker_handle L clock dir ev t w = (None, put_stream i (if ended then noteHalfClose ?s1 else ?s1) t, w)"
      using assms(2,3,5) SSend get sv by (auto simp: tracker_handle_def message_event_def Let_def)
    ultimately show ?thesis by simp
  next
    case (SRecv m)
    then show ?thesis
      using assms(2,3,5) get sv stream_of_recv[where service = service and mth = mth and lg = lg and m = m]
      by (auto simp: tracker_handle_def message_event_def Let_def stream_of_def)
  next
    case SHalf
    then have "evHalfClose \<notin> set lg" using assms(4) half_closed_onceD[of lg "[]"] by simp
    then show ?thesis
      using assms(2,3,5) get sv SHalf noteHalfClose_log[of lg service mth]
      by (auto simp: tracker_handle_def message_event_def Let_def)
  qed
qed

text \<open>An event of another stream leaves it alone.\<close>

lemma finish_other:
  "i \<noteq> j \<Longrightarrow> tk_streams (fst (tracker_finish L clock j s code msg t w)) i = tk_streams t i"
  by (auto simp: tracker_finish_def Let_def split: sum.splits prod.splits)

lemma handle_other:
  assumes "tracker_handle L clock dir ev t w = (e, t', w')" "ev_streamID ev \<noteq> i"
  shows "tk_streams t' i = tk_streams t i"
proof -
  obtain s t1 where get: "tracker_get (ev_streamID ev) t = (s, t1)" by fastforce
  then have t1: "tk_streams t1 i = tk_streams t i"
    using assms(2) by (auto simp: tracker_get_def split: option.splits)
  have fin: "tk_streams (fst (tracker_finish L clock (ev_streamID ev) s code msg t1 w)) i = tk_streams t i" for code msg
    using assms(2) t1 by (simp add: finish_other)
  have "tk_streams (fst (snd (tracker_handle L clock dir ev t w))) i = tk_streams t i"
    using assms(2) unfolding tracker_handle_def get
    by (simp add: t1 fin put_stream_def Let_def split: option.split)
  then show ?thesis using assms(1) by simp
qed

fun tracker_run ::
  "'p grpc_lib \<Rightarrow> (nat \<Rightarrow> nat \<Rightarrow> int) \<Rightarrow> (direction \<times> wireEvent) list \<Rightarrow> streamTracker \<Rightarrow> 'd world \<Rightarrow> streamTracker \<times> 'd world" where
  "tracker_run L clock [] t w = (t, w)"
| "tracker_run L clock ((dir, ev) # evs) t w =
     (case tracker_handle L (clock 0) dir ev t w of (e, t', w') \<Rightarrow> tracker_run L (\<lambda>k. clock (Suc k)) evs t' w')"

lemma run_log:
  assumes "tk_streams t i = Some (stream_of service mth lg)" "service \<noteq> []" "i \<noteq> 0"
    and "filter (\<lambda>(dir, ev). event_on i ev) evs = map (seen_event i) xs" "half_closed_once (lg @ seen_log xs)"
  shows "tk_streams (fst (tracker_run L clock evs t w)) i = Some (stream_of service mth (lg @ seen_log xs))"
  using assms
proof (induction evs arbitrary: t w clock lg xs)
  case (Cons e evs)
  obtain dir ev where e: "e = (dir, ev)" by fastforce
  show ?case
  proof (cases "event_on i ev")
    case True
    then obtain x xs' where x: "xs = x # xs'" "seen_event i x = (dir, ev)"
      and rest: "filter (\<lambda>(dir, ev). event_on i ev) evs = map (seen_event i) xs'"
      using Cons.prems(4) e by (cases xs) auto
    have lg: "seen_log xs = seen_log [x] @ seen_log xs'" using x(1) by (cases x) simp_all
    have "half_closed_once (lg @ seen_log [x])"
      using Cons.prems(5) lg by (simp add: half_closed_once_def)
    note step = handle_seen[OF Cons.prems(1-3) this x(2), of L "clock 0" w]
    show ?thesis
      using Cons.IH[of "put_stream i (stream_of service mth (lg @ seen_log [x])) t" "lg @ seen_log [x]" xs'] Cons.prems rest lg step e
      by (simp add: put_stream_def)
  next
    case False
    obtain err t' w' where h: "tracker_handle L (clock 0) dir ev t w = (err, t', w')" by (metis prod_cases3)
    then show ?thesis
      using Cons.IH[of t' lg xs] Cons.prems handle_other[OF h False] False e by simp
  qed
qed simp

subsection \<open>Writing the pair\<close>

fun timed :: "(nat \<Rightarrow> int) \<Rightarrow> recEvent list \<Rightarrow> rec_event list" where
  "timed clock [] = []"
| "timed clock (ev # evs) =
     (case ev of evSend m \<Rightarrow> ESend m (clock 0) | evRecv m \<Rightarrow> ERecv m (clock 0) | evHalfClose \<Rightarrow> EHalf (clock 0))
     # timed (\<lambda>k. clock (Suc k)) evs"

lemma replay_log_run: "replay_log clock evs r = rec_run (timed clock evs) r"
  by (induction evs arbitrary: clock r) (auto split: recEvent.split)

lemma timed_messages [simp]:
  "sent (timed clock evs) = log_sends evs" "received (timed clock evs) = log_recvs evs" "length (timed clock evs) = length evs"
  by (induction evs arbitrary: clock) (auto split: recEvent.split)

lemma timed_ms: "(\<And>k. clock k < b) \<Longrightarrow> list_all (\<lambda>ev. ev_ms ev < b) (timed clock evs)"
  by (induction evs arbitrary: clock) (auto split: recEvent.split)

text \<open>Both gRPC adapters address a call alike.\<close>

lemma streamOpenFor_eq: "streamOpenFor s typ0 service mth b = grpc_streamOpen s typ0 service mth b"
  by (simp add: streamOpenFor_def grpc_streamOpen_def msgHash_def sum4_def Let_def)

lemma splitPath_eq: "splitPath path = Some x \<longleftrightarrow> splitFullMethod path = Inr x"
  by (auto simp: splitPath_def splitFullMethod_def Let_def split: option.splits)

lemma inferStreamType_ok: "stream_type_ok (inferStreamType s)"
  by (simp add: inferStreamType_def stream_type_ok_def)

definition terminal_of :: "'p grpc_lib \<Rightarrow> int \<Rightarrow> string \<Rightarrow> goerr" where
  "terminal_of L code msg = (if code = 0 then ErrEOF else ErrNew (rpc_text L code msg))"

lemma handle_trailers:
  assumes "tk_streams t i = Some s" "st_service s \<noteq> []" "i \<noteq> 0" "\<not> isCompressed hfs" "grpcStatus hfs = Some (code, msg)"
  shows "tracker_handle L clock dirServerToClient
      \<lparr>ev_streamID = i, ev_kind = wireHeaders, ev_headers = hfs, ev_message = None, ev_endStream = True\<rparr> t w
    = (None, tracker_finish L clock i s code msg t w)"
  using assms by (simp add: tracker_handle_def tracker_get_def Let_def)

lemma finish_saves:
  assumes s: "s_mode (tk_session t) = ModeRecord" "s_cassette (tk_session t) = Some c" "\<And>k. 0 \<le> stream_count (tk_session t) k"
    and st: "st_service s \<noteq> []" "\<not> st_finished s" "\<not> st_compressed s" "utf8_valid (st_service s)" "utf8_valid (st_method s)"
    and w: "store_ok c w" "\<And>p. w_write_fault w p = None"
    and fits: "int (length (st_events s)) < 2 ^ 63" "\<And>k. clock k < 2 ^ 63"
    and L: "grpc_lib_ok L" "code \<noteq> 0 \<Longrightarrow> utf8_valid (rpc_text L code msg)"
  obtains r0 s1 r1 w1 where
    "OpenStreamRecord (tk_session t) (grpc_streamOpen (tk_session t) (inferStreamType s) (st_service s) (st_method s)
       (firstOrNil (st_sends s))) = (Inr r0, s1)" "sg_cassette r0 = c"
    "Finish (clock (length (st_events s))) [(''status_code'', GInt code)]
       (if code \<noteq> 0 then Some (status_Error L code msg) else None) (rec_run (timed clock (st_events s)) r0) w = (None, r1, w1)"
    "tracker_finish L clock i s code msg t w = (t\<lparr>tk_session := s1, tk_streams := (tk_streams t)(i := None)\<rparr>, w1)"
proof -
  let ?op = "grpc_streamOpen (tk_session t) (inferStreamType s) (st_service s) (st_method s) (firstOrNil (st_sends s))"
  let ?te = "if code \<noteq> 0 then Some (status_Error L code msg) else None"
  have a: "so_AdapterID ?op \<noteq> []" "slash \<notin> set (so_AdapterID ?op)" "utf8_valid (so_AdapterID ?op)"
    by (simp_all add: grpc_streamOpen_fields field_names)
  have pay: "plain (GMap (so_Payload ?op))" "plain (GMap [(''status_code'', GInt code)])" "utf8_valid (errstr ?te)"
    using st(4,5) L by (auto simp: grpc_streamOpen_fields field_names grpc_lib_ok_def)
  obtain r0 s1 where rec: "OpenStreamRecord (tk_session t) ?op = (Inr r0, s1)" "sg_cassette r0 = c"
    by (rule OpenStreamRecord_succeeds[OF s grpc_streamOpen_ok[OF st(4,5) inferStreamType_ok] a(1)])
  have w': "store_ok (sg_cassette r0) w" using w(1) rec(2) by simp
  have fit: "int (length (timed clock (st_events s))) < 2 ^ 63"
    "list_all (\<lambda>ev. ev_ms ev < 2 ^ 63) (timed clock (st_events s))"
    using fits timed_ms by simp_all
  obtain r1 w1 where fin: "Finish (clock (length (st_events s))) [(''status_code'', GInt code)] ?te
      (rec_run (timed clock (st_events s)) r0) w = (None, r1, w1)"
    using Finish_succeeds[OF rec(1) w' w(2) a(2,3) fit fits(2) pay] by blast
  have "tracker_finish L clock i s code msg t w = (t\<lparr>tk_session := s1, tk_streams := (tk_streams t)(i := None)\<rparr>, w1)"
    using st(1-3) rec(1) fin by (simp add: tracker_finish_def Let_def streamOpenFor_eq replay_log_run)
  with rec fin show thesis by (rule that)
qed

text \<open>What a replaying session opens after the stream was finished.\<close>

lemma finished_stream_opens:
  assumes tk: "service \<noteq> []" "utf8_valid service" "utf8_valid mth"
    and s: "s_mode (tk_session t) = ModeRecord" "s_cassette (tk_session t) = Some c" "\<And>k. 0 \<le> stream_count (tk_session t) k"
    and u: "s_mode u = ModeReplay" "s_cassette u = Some c" "s_streamN u = s_streamN (tk_session t)"
      "s_streamScrub u = s_streamScrub (tk_session t)"
    and L: "grpc_lib_ok L" "code \<noteq> 0 \<Longrightarrow> utf8_valid (rpc_text L code msg)"
    and w: "store_ok c w" "\<And>p. w_write_fault w p = None"
    and fits: "int (length lg) < 2 ^ 63" "\<And>k. clock k < 2 ^ 63"
  obtains t1 w1 y u1 where
    "tracker_finish L clock i (stream_of service mth lg) code msg t w = (t1, w1)" "tk_streams t1 = (tk_streams t)(i := None)"
    "OpenStreamReplay u (grpc_streamOpen u (inferStreamType (stream_of service mth lg)) service mth (firstOrNil (log_sends lg))) w1
      = (Inr y, u1)" "s_streamN u1 = s_streamN (tk_session t1)"
    "sy_mismatch y = None" "sy_sendIdx y = 0" "sy_recvIdx y = 0" "sy_scrub y = s_streamScrub u"
    "sy_info y = \<lparr>info_AdapterID = ''grpc'', info_Type = inferStreamType (stream_of service mth lg)\<rparr>"
    "map f_Message (rq_Frames (p_Req (sy_pair y))) = map (scrubFrame (sy_scrub y) StreamSend (sy_info y)) (log_sends lg)"
    "map f_Message (rp_Frames (p_Resp (sy_pair y))) = map (scrubFrame (sy_scrub y) StreamRecv (sy_info y)) (log_recvs lg)"
    "p_RecordedErr (sy_pair y) = (if code = 0 then [] else rpc_text L code msg)"
    "key_norm (GMap (p_RespPayload (sy_pair y))) = key_norm (GMap [(''status_code'', GInt code)])"
proof -
  let ?s = "stream_of service mth lg"
  let ?op = "grpc_streamOpen (tk_session t) (inferStreamType ?s) service mth (firstOrNil (log_sends lg))"
  let ?te = "if code \<noteq> 0 then Some (status_Error L code msg) else None"
  have sf: "st_service ?s = service" "st_method ?s = mth" "st_events ?s = lg" "st_sends ?s = log_sends lg"
    "\<not> st_finished ?s" "\<not> st_compressed ?s"
    by (simp_all add: stream_of_def)
  have svc: "st_service ?s \<noteq> []" "utf8_valid (st_service ?s)" "utf8_valid (st_method ?s)" "int (length (st_events ?s)) < 2 ^ 63"
    using sf tk fits(1) by simp_all
  obtain r0 s1 r1 w1 where rec: "OpenStreamRecord (tk_session t) ?op = (Inr r0, s1)" "sg_cassette r0 = c"
    and fin: "Finish (clock (length lg)) [(''status_code'', GInt code)] ?te (rec_run (timed clock lg) r0) w = (None, r1, w1)"
    and tf: "tracker_finish L clock i ?s code msg t w = (t\<lparr>tk_session := s1, tk_streams := (tk_streams t)(i := None)\<rparr>, w1)"
    by (rule finish_saves[OF s svc(1) sf(5,6) svc(2,3) w svc(4) fits(2) L, unfolded sf(1-4)])
  have a: "slash \<notin> set (so_AdapterID ?op)" "utf8_valid (so_AdapterID ?op)"
    by (simp_all add: grpc_streamOpen_fields field_names)
  have pay: "plain (GMap (so_Payload ?op))" "plain (GMap [(''status_code'', GInt code)])" "utf8_valid (errstr ?te)"
    using tk(2,3) L by (auto simp: grpc_streamOpen_fields field_names grpc_lib_ok_def)
  have fit: "int (length (timed clock lg)) < 2 ^ 63" "list_all (\<lambda>ev. ev_ms ev < 2 ^ 63) (timed clock lg)"
    using fits timed_ms by simp_all
  have w': "store_ok (sg_cassette r0) w" and u': "s_cassette u = s_cassette (tk_session t)"
    using w(1) rec(2) s(2) u(2) by simp_all
  obtain y u1 where y: "OpenStreamReplay u ?op w1 = (Inr y, u1)" "s_streamN u1 = s_streamN s1"
    "sy_mismatch y = None" "sy_sendIdx y = 0" "sy_recvIdx y = 0" "sy_scrub y = s_streamScrub (tk_session t)"
    "sy_info y = \<lparr>info_AdapterID = so_AdapterID ?op, info_Type = so_Type ?op\<rparr>"
    "map f_Message (rq_Frames (p_Req (sy_pair y))) = map f_Message (sg_sends (rec_run (timed clock lg) r0))"
    "map f_Message (rp_Frames (p_Resp (sy_pair y))) = map f_Message (sg_recvs (rec_run (timed clock lg) r0))"
    "p_RecordedErr (sy_pair y) = errstr ?te"
    "key_norm (GMap (p_RespPayload (sy_pair y))) = key_norm (GMap [(''status_code'', GInt code)])"
    by (rule replay_opens_recording[OF rec(1) fin u(1) u' u(3,4) w' a fit fits(2) pay])
  note o = OpenStreamRecord_fresh[OF rec(1)]
  have "map f_Message (sg_sends (rec_run (timed clock lg) r0)) = map (scrubFrame (sy_scrub y) StreamSend (sy_info y)) (log_sends lg)"
    "map f_Message (sg_recvs (rec_run (timed clock lg) r0)) = map (scrubFrame (sy_scrub y) StreamRecv (sy_info y)) (log_recvs lg)"
    using rec_run_messages[of r0 "timed clock lg"] o(1-4) y(6,7) by (simp_all add: rec_fresh_def scrubInfo_def)
  moreover have "p_RecordedErr (sy_pair y) = (if code = 0 then [] else rpc_text L code msg)"
    using y(10) L(1) by (simp add: grpc_lib_ok_def)
  ultimately show thesis
    using y grpc_streamOpen_cong[OF u(4)] u(4) by (intro that[OF tf, of y u1]) (simp_all add: grpc_streamOpen_fields)
qed

subsection \<open>Properties\<close>


definition sample_seen :: "seen list" where
  "sample_seen = [SSend ''q'' True, SRecv ''r'', SRecv ''s'']"


text \<open>C29: A call recorded at the transport replays through the core stream API under the
  address the interceptor adapter gives it. When the trailers of a logged stream arrive, the
  pair is saved and the stream forgotten; a replaying session with the same counters, directory
  and scrub hook opens it with the interceptor's open value, and a client that sends the logged
  messages sees the logged responses in order and then the end of the stream, or the text of the
  recorded status.\<close>

theorem transport_recording_replays:
  assumes tk: "tk_streams t i = Some (stream_of service mth lg)" "i \<noteq> 0" "service \<noteq> []" "utf8_valid service" "utf8_valid mth"
    and s: "s_mode (tk_session t) = ModeRecord" "s_cassette (tk_session t) = Some c" "\<And>k. 0 \<le> stream_count (tk_session t) k"
    and u: "s_mode u = ModeReplay" "s_cassette u = Some c" "s_streamN u = s_streamN (tk_session t)"
      "s_streamScrub u = s_streamScrub (tk_session t)"
    and hd: "\<not> isCompressed hfs" "grpcStatus hfs = Some (code, msg)"
    and L: "grpc_lib_ok L" "code \<noteq> 0 \<Longrightarrow> utf8_valid (rpc_text L code msg)"
    and w: "store_ok c w" "\<And>p. w_write_fault w p = None"
    and fits: "int (length lg) < 2 ^ 63" "\<And>k. clock k < 2 ^ 63"
  shows "\<exists>t1 w1 y u1. tracker_handle L clock dirServerToClient
        \<lparr>ev_streamID = i, ev_kind = wireHeaders, ev_headers = hfs, ev_message = None, ev_endStream = True\<rparr> t w = (None, t1, w1)
    \<and> tk_streams t1 = (tk_streams t)(i := None)
    \<and> OpenStreamReplay u (grpc_streamOpen u (inferStreamType (stream_of service mth lg)) service mth (firstOrNil (log_sends lg))) w1
        = (Inr y, u1)
    \<and> s_streamN u1 = s_streamN (tk_session t1)
    \<and> (\<forall>cs. honest (log_sends lg) cs \<longrightarrow>
          rp_run cs y = expected
            (map (ScrubStreamFrame u StreamRecv
                \<lparr>info_AdapterID = ''grpc'', info_Type = inferStreamType (stream_of service mth lg)\<rparr>) (log_recvs lg))
            (terminal_of L code msg) cs)"
proof -
  let ?s = "stream_of service mth lg"
  obtain t1 w1 y u1 where o: "tracker_finish L clock i ?s code msg t w = (t1, w1)" "tk_streams t1 = (tk_streams t)(i := None)"
    "OpenStreamReplay u (grpc_streamOpen u (inferStreamType ?s) service mth (firstOrNil (log_sends lg))) w1 = (Inr y, u1)"
    "s_streamN u1 = s_streamN (tk_session t1)"
    and y: "sy_mismatch y = None" "sy_sendIdx y = 0" "sy_recvIdx y = 0" "sy_scrub y = s_streamScrub u"
    "sy_info y = \<lparr>info_AdapterID = ''grpc'', info_Type = inferStreamType ?s\<rparr>"
    "map f_Message (rq_Frames (p_Req (sy_pair y))) = map (scrubFrame (sy_scrub y) StreamSend (sy_info y)) (log_sends lg)"
    "map f_Message (rp_Frames (p_Resp (sy_pair y))) = map (scrubFrame (sy_scrub y) StreamRecv (sy_info y)) (log_recvs lg)"
    "p_RecordedErr (sy_pair y) = (if code = 0 then [] else rpc_text L code msg)"
    by (rule finished_stream_opens[OF tk(3-5) s u L w fits])
  have h: "tracker_handle L clock dirServerToClient
      \<lparr>ev_streamID = i, ev_kind = wireHeaders, ev_headers = hfs, ev_message = None, ev_endStream = True\<rparr> t w = (None, t1, w1)"
    using handle_trailers[OF tk(1) _ tk(2) hd, of L clock w] tk(3) o(1) by (simp add: stream_of_def)
  have "rp_run cs y = expected (map (scrubFrame (sy_scrub y) StreamRecv (sy_info y)) (log_recvs lg)) (terminalErr y) cs"
    if "honest (log_sends lg) cs" for cs
    using honest_run[OF y(1) that] y(2,3,6,7) by simp
  moreover have "terminalErr y = terminal_of L code msg"
    using y(8) rpc_text_ne[of L code msg] by (simp add: terminalErr_def terminal_of_def)
  moreover have "scrubFrame (sy_scrub y) = ScrubStreamFrame u"
    using y(4) by (intro ext) (simp add: ScrubStreamFrame_def scrubFrame_def)
  ultimately show ?thesis using h o(2-4) y(5) by auto
qed

theorem transport_recording_replays_witness:
  "let lg = [evSend ''q'', evHalfClose, evRecv ''r''];
       t = \<lparr>tk_session = NewSession ModeRecord (Some (NewFileCassette ''d'')), tk_streams = [1 \<mapsto> stream_of ''pkg.Svc'' ''Watch'' lg]\<rparr>;
       u = NewSession ModeReplay (Some (NewFileCassette ''d''))
   in \<exists>t1 w1 y u1. tracker_handle sample_lib (\<lambda>_. 0) dirServerToClient
        \<lparr>ev_streamID = 1, ev_kind = wireHeaders, ev_headers = [(''grpc-status'', ''0'')], ev_message = None, ev_endStream = True\<rparr>
        t tree_world = (None, t1, w1)
    \<and> OpenStreamReplay u (grpc_streamOpen u StreamServer ''pkg.Svc'' ''Watch'' ''q'') w1 = (Inr y, u1)
    \<and> rp_run [PSend ''q'', PRecv, PHalf, PRecv] y = [RSent None, RGot (Inr ''r''), RHalf None, RGot (Inl ErrEOF)]"
proof -
  let ?lg = "[evSend ''q'', evHalfClose, evRecv ''r'']"
  let ?t = "\<lparr>tk_session = NewSession ModeRecord (Some (NewFileCassette ''d'')), tk_streams = [1 \<mapsto> stream_of ''pkg.Svc'' ''Watch'' ?lg]\<rparr>"
  let ?u = "NewSession ModeReplay (Some (NewFileCassette ''d''))"
  have h: "\<not> isCompressed [(''grpc-status'', ''0'')]" "grpcStatus [(''grpc-status'', ''0'')] = Some (0, [])"
    by code_simp+
  have ty: "inferStreamType (stream_of ''pkg.Svc'' ''Watch'' ?lg) = StreamServer"
    by (simp add: inferStreamType_def stream_of_def)
  have v: "utf8_valid ''pkg.Svc''" "utf8_valid ''Watch''" by (simp_all add: field_names)
  note main = transport_recording_replays[of ?t 1 "''pkg.Svc''" "''Watch''" ?lg "NewFileCassette ''d''" ?u
      "[(''grpc-status'', ''0'')]" 0 "[]" sample_lib tree_world "\<lambda>_. 0", OF _ _ _ v _ _ _ _ _ _ _ h sample_lib_ok]
  obtain t1 w1 y u1 where a: "tracker_handle sample_lib (\<lambda>_. 0) dirServerToClient
        \<lparr>ev_streamID = 1, ev_kind = wireHeaders, ev_headers = [(''grpc-status'', ''0'')], ev_message = None, ev_endStream = True\<rparr>
        ?t tree_world = (None, t1, w1)"
    "OpenStreamReplay ?u (grpc_streamOpen ?u StreamServer ''pkg.Svc'' ''Watch'' ''q'') w1 = (Inr y, u1)"
    and b: "\<forall>cs. honest [''q''] cs \<longrightarrow> rp_run cs y = expected [''r''] ErrEOF cs"
    using main tree_world_ok
    by (auto simp: ty NewSession_def tree_world_def ScrubStreamFrame_def firstOrNil_def terminal_of_def)
  have "rp_run [PSend ''q'', PRecv, PHalf, PRecv] y = [RSent None, RGot (Inr ''r''), RHalf None, RGot (Inl ErrEOF)]"
    by (subst b[rule_format]) simp_all
  with a show ?thesis by (auto simp: Let_def)
qed

subsection \<open>Both directions together\<close>

text \<open>The state of a tap: what is left of each direction, the connection and the world. A step is
  one turn of either loop.\<close>

type_synonym dir_state = "(h2frame list \<times> connDecoder) option"

inductive tap_step ::
  "'p grpc_lib \<Rightarrow> goerr \<Rightarrow> dir_state \<times> dir_state \<times> recordConn \<times> 'd world \<Rightarrow> dir_state \<times> dir_state \<times> recordConn \<times> 'd world \<Rightarrow> bool"
  for L :: "'p grpc_lib" and e0 :: goerr where
  client: "decode_turn L clock dirClientToServer e0 d c w = (d', c', w') \<Longrightarrow>
    tap_step L e0 (Some d, sd, c, w) (d', sd, c', w')"
| server: "decode_turn L clock dirServerToClient e0 d c w = (d', c', w') \<Longrightarrow>
    tap_step L e0 (cd, Some d, c, w) (cd, d', c', w')"

inductive_simps tap_step_simps: "tap_step L e0 (cd, sd, c, w) x"

definition frames_left :: "dir_state \<Rightarrow> nat" where
  "frames_left x = (case x of None \<Rightarrow> 0 | Some (fs, d) \<Rightarrow> Suc (length fs))"

definition queue_left :: "dir_state \<Rightarrow> nat" where
  "queue_left x = (case x of None \<Rightarrow> 0 | Some (fs, d) \<Rightarrow> length (pm_msgs (cd_queued d)))"

lemma decode_turn_shrinks:
  assumes "decode_turn L clock dir e0 d c w = (d', c', w')"
  shows "frames_left d' < frames_left (Some d)
    \<or> frames_left d' = frames_left (Some d) \<and> queue_left d' < queue_left (Some d)"
proof -
  obtain fs cd where d: "d = (fs, cd)" by fastforce
  obtain x fs' cd' where n: "conn_next fs e0 cd = (x, fs', cd')" by (metis prod_cases3)
  show ?thesis
  proof (cases x)
    case (Inl err)
    with assms d n show ?thesis by (simp add: decode_turn_def frames_left_def)
  next
    case (Inr ev)
    obtain e t' v where h: "tracker_handle L clock dir ev (rn_tracker c) w = (e, t', v)" by (metis prod_cases3)
    have "d' = None \<or> d' = Some (fs', cd')"
      using assms d n Inr h by (cases e) (auto simp: decode_turn_def)
    with conn_next_shrinks[of fs e0 cd ev fs' cd'] n Inr d show ?thesis
      by (auto simp: frames_left_def queue_left_def)
  qed
qed

text \<open>C32: The tap ends. However the two decoding loops are scheduled, only finitely many turns
  are possible, and as long as a direction has not ended a turn of it is possible: every run
  reaches the state in which both loops have returned, so closing the connection does not wait
  for ever.\<close>

theorem tap_terminates:
  fixes w :: "'d world"
  shows "wfp (\<lambda>x y :: dir_state \<times> dir_state \<times> recordConn \<times> 'd world. tap_step L e0 y x)
    \<and> ((\<nexists>y. tap_step L e0 (cd, sd, c, w) y) \<longleftrightarrow> cd = None \<and> sd = None)"
proof
  let ?m = "measures [\<lambda>(cd, sd, c, w). frames_left cd + frames_left sd, \<lambda>(cd, sd, c, w). queue_left cd + queue_left sd]
    :: (dir_state \<times> dir_state \<times> recordConn \<times> 'd world) rel"
  have "(y, x) \<in> ?m" if "tap_step L e0 x y" for x y :: "dir_state \<times> dir_state \<times> recordConn \<times> 'd world"
    using that by (induction rule: tap_step.induct) (auto dest: decode_turn_shrinks)
  then have "{(x, y). tap_step L e0 y x} \<subseteq> ?m" by (intro subrelI) blast
  then show "wfp (\<lambda>x y :: dir_state \<times> dir_state \<times> recordConn \<times> 'd world. tap_step L e0 y x)"
    unfolding wfp_def by (rule wf_subset[OF wf_measures])
  show "(\<nexists>y. tap_step L e0 (cd, sd, c, w) y) \<longleftrightarrow> cd = None \<and> sd = None"
  proof
    have "\<exists>y. tap_step L e0 (Some d, sd, c, w) y" for d
      using tap_step.client[of L "\<lambda>_. 0" e0 d c w] by (metis prod_cases3)
    moreover have "\<exists>y. tap_step L e0 (cd, Some d, c, w) y" for d
      using tap_step.server[of L "\<lambda>_. 0" e0 d c w] by (metis prod_cases3)
    ultimately show "cd = None \<and> sd = None" if "\<nexists>y. tap_step L e0 (cd, sd, c, w) y"
      using that by (cases cd; cases sd) blast+
  qed (auto simp: tap_step_simps)
qed

text \<open>The first failure is kept.\<close>

lemma noteErr_first: "rn_firstErr (noteErr e c) = (case rn_firstErr c of None \<Rightarrow> Some e | Some f \<Rightarrow> Some f)"
  by (simp add: noteErr_def split: option.split)

lemma noteErr_closed [simp]: "rn_closed (noteErr e c) = rn_closed c"
  by (simp add: noteErr_def split: option.split)

lemma decode_turn_keeps:
  assumes "decode_turn L clock dir e0 d c w = (d', c', w')" "rn_firstErr c = Some f"
  shows "rn_firstErr c' = Some f \<and> rn_closed c' = rn_closed c"
  using assms
  by (auto simp: decode_turn_def noteErr_first split: prod.splits sum.splits option.splits if_splits)

lemma tap_steps_keep:
  "(tap_step L e0)\<^sup>*\<^sup>* x y \<Longrightarrow> rn_firstErr (fst (snd (snd x))) = Some f \<Longrightarrow>
   rn_firstErr (fst (snd (snd y))) = Some f \<and> rn_closed (fst (snd (snd y))) = rn_closed (fst (snd (snd x)))"
  by (induction rule: rtranclp_induct) (auto elim!: tap_step.cases dest: decode_turn_keeps)


definition oversize_frames :: "h2frame list" where
  "oversize_frames = [DataFrame 1 [CHR 0x00, CHR 0xFF, CHR 0xFF, CHR 0xFF, CHR 0xFF] False]"

lemma oversize_next:
  "conn_next oversize_frames ErrEOF (newConnDecoder r) =
    (Inl (too_long 4294967295), [], (newConnDecoder r)\<lparr>cd_streams :=
       [1 \<mapsto> \<lparr>sd_buf = [CHR 0x00, CHR 0xFF, CHR 0xFF, CHR 0xFF, CHR 0xFF]\<rparr>]\<rparr>)"
proof -
  have "be32 (drop 1 [CHR 0x00, CHR 0xFF, CHR 0xFF, CHR 0xFF, CHR 0xFF]) = 4294967295"
    by (simp add: be32_def)
  then have "feed_loop [CHR 0x00, CHR 0xFF, CHR 0xFF, CHR 0xFF, CHR 0xFF]
      = (Inl (too_long 4294967295), [CHR 0x00, CHR 0xFF, CHR 0xFF, CHR 0xFF, CHR 0xFF])"
    using feed_loop_excess[of "[CHR 0x00, CHR 0xFF, CHR 0xFF, CHR 0xFF, CHR 0xFF]"]
    by (simp add: grpcMsgPrefixLen_def maxGRPCMessageSize_def)
  then show ?thesis
    by (simp add: oversize_frames_def conn_next_Cons newConnDecoder_def feedData_eq decoder_of_def feed_def)
qed


end
