(* ===== verification/Grpc_Replay.thy ===== *)
theory Grpc_Replay
  imports Grpc_Tap
begin

section \<open>Replay at the transport (adapters/grpctransport/replay.go)\<close>

text \<open>
  A synthetic server at the far end of an in-memory pipe. It reads the client's frames one at a
  time and answers each call from its cassette; what it writes is collected as a list of frames.
  Header compression is third-party code, so header blocks stand for themselves. Writes to the
  pipe succeed: a failing write only ends the connection.
\<close>

subsection \<open>State\<close>

record tp_replayStream =
  ts_service :: string
  ts_method :: string
  ts_replay :: "StreamReplay option"
  ts_buffered :: "bytes list"
  ts_opened :: bool
  ts_done :: bool

record replayConn =
  rc_session :: FileSession
  rc_dir :: string
  rc_streams :: "stream_id \<rightharpoonup> tp_replayStream"
  rc_probeN :: "string \<Rightarrow> int"
  rc_out :: "h2frame list"

text \<open>The connection \<open>ReplayDialer\<close> hands out.\<close>

definition ReplayDialer :: "FileSession \<Rightarrow> string \<Rightarrow> replayConn" where
  "ReplayDialer s cassetteDir =
     \<lparr>rc_session = s, rc_dir = cassetteDir, rc_streams = Map.empty, rc_probeN = (\<lambda>_. 0), rc_out = []\<rparr>"

definition emit :: "h2frame list \<Rightarrow> replayConn \<Rightarrow> replayConn" where
  "emit fs c = c\<lparr>rc_out := rc_out c @ fs\<rparr>"

subsection \<open>Locating the cassette\<close>

text \<open>The identities of this package hold strings only.\<close>

definition identity_text :: "gval \<Rightarrow> string" where
  "identity_text v = (case v of GStr s \<Rightarrow> s | GInt i \<Rightarrow> show_int i | _ \<Rightarrow> [])"

definition counterKey :: "StreamOpen \<Rightarrow> string" where
  "counterKey op =
     so_AdapterID op @ [CHR 0x00] @ so_Type op
     @ concat (map (\<lambda>(k, v). [CHR 0x00] @ k @ ''='' @ identity_text v) (sort_key fst (so_Identity op)))"

definition cassetteExists :: "string \<Rightarrow> string \<Rightarrow> string \<Rightarrow> bytes \<Rightarrow> replayConn \<Rightarrow> 'd world \<Rightarrow> bool" where
  "cassetteExists typ0 service mth openMsg c w =
     (if rc_dir c = [] then False
      else let op = streamOpenFor (rc_session c) typ0 service mth openMsg;
               n = (if so_Counter op then rc_probeN c (counterKey op) else -1)
           in case StreamFingerprint op n of
                Inl e \<Rightarrow> False
              | Inr fp \<Rightarrow>
                  list_all (\<lambda>kind. w_files w (path_Join (rc_dir c) (''grpc-'' @ fp @ ''.'' @ kind @ ''.yaml'')) \<noteq> None)
                    [''req'', ''resp''])"

definition inferReplayType :: "tp_replayStream \<Rightarrow> bool \<Rightarrow> (string \<Rightarrow> bytes \<Rightarrow> bool) \<Rightarrow> string option" where
  "inferReplayType s halfClosed probe =
     (let n = length (ts_buffered s); openMsg = firstOrNil (ts_buffered s) in
      if halfClosed then
        (if n = 1 \<and> probe StreamServer openMsg then Some StreamServer
         else if probe StreamClient [] then Some StreamClient
         else Some StreamBidi)
      else if n = 0 then None
      else if probe StreamBidi [] then Some StreamBidi
      else if probe StreamServer openMsg then Some StreamServer
      else None)"

subsection \<open>Answering\<close>

definition status_fields :: "int \<Rightarrow> string \<Rightarrow> header list" where
  "status_fields code msg =
     (''grpc-status'', show_int code) # (if msg \<noteq> [] then [(''grpc-message'', encodeGRPCMessage msg)] else [])"

definition finishStream :: "stream_id \<Rightarrow> int \<Rightarrow> string \<Rightarrow> replayConn \<Rightarrow> replayConn" where
  "finishStream i code msg c =
     emit [MetaHeadersFrame i (status_fields code msg) True] (c\<lparr>rc_streams := (rc_streams c)(i := None)\<rparr>)"

definition writeTrailersOnly :: "stream_id \<Rightarrow> int \<Rightarrow> string \<Rightarrow> replayConn \<Rightarrow> replayConn" where
  "writeTrailersOnly i code msg c =
     emit [MetaHeadersFrame i ([('':status'', ''200''), (''content-type'', ''application/grpc'')] @ status_fields code msg) True]
       (c\<lparr>rc_streams := (rc_streams c)(i := None)\<rparr>)"

definition writeMessage :: "stream_id \<Rightarrow> bytes \<Rightarrow> replayConn \<Rightarrow> replayConn" where
  "writeMessage i msg = emit (map (\<lambda>piece. DataFrame i piece False) (chunks (frame_message msg)))"

definition terminalOf :: "'p grpc_lib \<Rightarrow> StreamReplay \<Rightarrow> goerr \<Rightarrow> int \<times> string" where
  "terminalOf L rp err =
     (if err_is err ErrEOF then (0, [])
      else let code0 = (case map_of (p_RespPayload (sy_pair rp)) ''status_code'' of
                          Some (GInt v) \<Rightarrow> to_code v
                        | Some (GOpaque t) \<Rightarrow> (case float_int L t of Some v \<Rightarrow> to_code v | None \<Rightarrow> 2)
                        | _ \<Rightarrow> 2);
               code = (if code0 = 0 then 2 else code0)
           in (code, err_text err))"

text \<open>The loop of \<open>deliver\<close> ends: every receive that gives a message moves on in the recording.\<close>

lemma replay_Recv_moves:
  "replay_Recv rp = (Inr m, rp') \<Longrightarrow>
   sy_pair rp' = sy_pair rp \<and> sy_recvIdx rp < length (rp_Frames (p_Resp (sy_pair rp))) \<and> sy_recvIdx rp' = Suc (sy_recvIdx rp)"
  by (auto simp: replay_Recv_def Let_def split: option.splits if_splits)

function deliver_loop :: "'p grpc_lib \<Rightarrow> stream_id \<Rightarrow> StreamReplay \<Rightarrow> replayConn \<Rightarrow> replayConn" where
  "deliver_loop L i rp c =
     (case replay_Recv rp of
        (Inl err, rp') \<Rightarrow> (case terminalOf L rp' err of (code, text) \<Rightarrow> finishStream i code text c)
      | (Inr msg, rp') \<Rightarrow> deliver_loop L i rp' (writeMessage i msg c))"
  by pat_completeness auto
termination
  by (relation "measure (\<lambda>(L, i, rp, c). length (rp_Frames (p_Resp (sy_pair rp))) - sy_recvIdx rp)")
    (auto dest!: replay_Recv_moves[OF sym])

declare deliver_loop.simps [simp del]

definition deliver :: "'p grpc_lib \<Rightarrow> stream_id \<Rightarrow> StreamReplay \<Rightarrow> replayConn \<Rightarrow> replayConn" where
  "deliver L i rp c =
     deliver_loop L i rp
       (emit [MetaHeadersFrame i [('':status'', ''200''), (''content-type'', ''application/grpc'')] False] c)"

text \<open>The sends of a call that is being opened: a mismatch is reported, an error after the
  recorded end stops the validation.\<close>

fun send_all :: "bytes list \<Rightarrow> StreamReplay \<Rightarrow> goerr option \<times> StreamReplay" where
  "send_all [] rp = (None, rp)"
| "send_all (m # ms) rp =
     (case replay_Send m rp of
        (None, rp') \<Rightarrow> send_all ms rp'
      | (Some e, rp') \<Rightarrow> if is_stream_mismatch e then (Some e, rp') else (None, rp'))"

text \<open>The sends of a call that is already open: other errors are passed over.\<close>

fun send_more :: "bytes list \<Rightarrow> StreamReplay \<Rightarrow> goerr option \<times> StreamReplay" where
  "send_more [] rp = (None, rp)"
| "send_more (m # ms) rp =
     (case replay_Send m rp of
        (None, rp') \<Rightarrow> send_more ms rp'
      | (Some e, rp') \<Rightarrow>
          if \<not> err_is e ErrEOF \<and> is_stream_mismatch e then (Some e, rp') else send_more ms rp')"

definition put_replay :: "stream_id \<Rightarrow> tp_replayStream \<Rightarrow> replayConn \<Rightarrow> replayConn" where
  "put_replay i s c = c\<lparr>rc_streams := (rc_streams c)(i \<mapsto> s)\<rparr>"

definition count_probe :: "StreamOpen \<Rightarrow> replayConn \<Rightarrow> replayConn" where
  "count_probe op c =
     (if so_Counter op then c\<lparr>rc_probeN := (rc_probeN c)(counterKey op := rc_probeN c (counterKey op) + 1)\<rparr> else c)"

text \<open>Opening a call whose type is known, once its buffered messages are taken.\<close>

definition open_call ::
  "'p grpc_lib \<Rightarrow> stream_id \<Rightarrow> tp_replayStream \<Rightarrow> string \<Rightarrow> bool \<Rightarrow> replayConn \<Rightarrow> 'd world \<Rightarrow> replayConn" where
  "open_call L i s typ0 halfClosed c0 w =
     (let msgs = ts_buffered s;
          c1 = put_replay i (s\<lparr>ts_buffered := [], ts_opened := True\<rparr>) c0;
          realOpen = streamOpenFor (rc_session c1) typ0 (ts_service s) (ts_method s) (firstOrNil msgs);
          c2 = count_probe realOpen c1
      in case OpenStreamReplay (rc_session c2) realOpen w of
           (Inl e, ss) \<Rightarrow>
             writeTrailersOnly i (if err_is e ErrShapeMismatch then 9 else 5) (''xrr: '' @ err_text e) (c2\<lparr>rc_session := ss\<rparr>)
         | (Inr rp, ss) \<Rightarrow>
             let c3 = put_replay i (s\<lparr>ts_buffered := [], ts_opened := True, ts_replay := Some rp\<rparr>) (c2\<lparr>rc_session := ss\<rparr>)
             in (case send_all msgs rp of
                   (Some e, rp1) \<Rightarrow> finishStream i 9 (err_text e) c3
                 | (None, rp1) \<Rightarrow>
                     (case (if halfClosed then replay_HalfClose rp1 else (None, rp1)) of
                        (Some e, rp2) \<Rightarrow> if is_stream_mismatch e then finishStream i 9 (err_text e) c3 else deliver L i rp2 c3
                      | (None, rp2) \<Rightarrow> deliver L i rp2 c3)))"

definition advance :: "'p grpc_lib \<Rightarrow> stream_id \<Rightarrow> bool \<Rightarrow> replayConn \<Rightarrow> 'd world \<Rightarrow> replayConn" where
  "advance L i halfClosed c w =
     (case rc_streams c i of
        None \<Rightarrow> c
      | Some s \<Rightarrow>
          if ts_done s then c
          else if ts_opened s then
            (case ts_replay s of
               None \<Rightarrow> c
             | Some rp \<Rightarrow>
                 (case send_more (ts_buffered s) rp of
                    (e, rp') \<Rightarrow>
                      let c' = put_replay i (s\<lparr>ts_buffered := [], ts_replay := Some rp'\<rparr>) c
                      in (case e of Some err \<Rightarrow> finishStream i 9 (err_text err) c' | None \<Rightarrow> c')))
          else
            (case inferReplayType s halfClosed (\<lambda>cand msg. cassetteExists cand (ts_service s) (ts_method s) msg c w) of
               None \<Rightarrow> c
             | Some typ0 \<Rightarrow> open_call L i s typ0 halfClosed c w))"

subsection \<open>The frame loop\<close>

definition onHeaders :: "'p grpc_lib \<Rightarrow> stream_id \<Rightarrow> header list \<Rightarrow> bool \<Rightarrow> replayConn \<Rightarrow> 'd world \<Rightarrow> replayConn" where
  "onHeaders L i hfs ended c w =
     (case splitPath (headerValue hfs '':path'') of
        None \<Rightarrow> writeTrailersOnly i 12 ''malformed :path'' c
      | Some (service, mth) \<Rightarrow>
          let c' = put_replay i \<lparr>ts_service = service, ts_method = mth, ts_replay = None, ts_buffered = [],
                                 ts_opened = False, ts_done = False\<rparr> c
          in if ended then advance L i True c' w else c')"

definition onData :: "'p grpc_lib \<Rightarrow> stream_id \<Rightarrow> bytes \<Rightarrow> bool \<Rightarrow> replayConn \<Rightarrow> 'd world \<Rightarrow> replayConn" where
  "onData L i data ended c w =
     (case rc_streams c i of
        None \<Rightarrow> c
      | Some s \<Rightarrow>
          (case feed data \<lparr>sd_buf = []\<rparr> of
             (Inl e, d) \<Rightarrow> writeTrailersOnly i 13 (err_text e) c
           | (Inr msgs, d) \<Rightarrow>
               advance L i ended (put_replay i (s\<lparr>ts_buffered := ts_buffered s @ msgs\<rparr>) c) w))"

definition handleFrame :: "'p grpc_lib \<Rightarrow> h2frame \<Rightarrow> replayConn \<Rightarrow> 'd world \<Rightarrow> goerr option \<times> replayConn" where
  "handleFrame L f c w =
     (case f of
        SettingsFrame ack \<Rightarrow> (None, if ack then c else emit [SettingsFrame True] c)
      | PingFrame ack p \<Rightarrow> (None, if ack then c else emit [PingFrame True p] c)
      | MetaHeadersFrame i hfs ended \<Rightarrow> (None, onHeaders L i hfs ended c w)
      | DataFrame i data ended \<Rightarrow> (None, onData L i data ended c w)
      | RSTStreamFrame i \<Rightarrow> (None, c\<lparr>rc_streams := (rc_streams c)(i := None)\<rparr>)
      | GoAwayFrame \<Rightarrow> (Some (ErrNew ''client sent GOAWAY''), c)
      | OtherFrame \<Rightarrow> (None, c))"

fun serve_loop :: "'p grpc_lib \<Rightarrow> h2frame list \<Rightarrow> replayConn \<Rightarrow> 'd world \<Rightarrow> replayConn" where
  "serve_loop L [] c w = c"
| "serve_loop L (f # fs) c w =
     (case handleFrame L f c w of (Some e, c') \<Rightarrow> c' | (None, c') \<Rightarrow> serve_loop L fs c' w)"

definition serve :: "'p grpc_lib \<Rightarrow> h2frame list \<Rightarrow> replayConn \<Rightarrow> 'd world \<Rightarrow> replayConn" where
  "serve L fs c w = serve_loop L fs (emit [SettingsFrame False] c) w"

subsection \<open>What an answer looks like\<close>

lemma emit_simps [simp]:
  "rc_streams (emit fs c) = rc_streams c" "rc_out (emit fs c) = rc_out c @ fs" "rc_session (emit fs c) = rc_session c"
  "rc_dir (emit fs c) = rc_dir c" "rc_probeN (emit fs c) = rc_probeN c"
  by (simp_all add: emit_def)

lemma put_replay_simps [simp]:
  "rc_streams (put_replay i s c) = (rc_streams c)(i \<mapsto> s)" "rc_out (put_replay i s c) = rc_out c"
  "rc_session (put_replay i s c) = rc_session c" "rc_dir (put_replay i s c) = rc_dir c" "rc_probeN (put_replay i s c) = rc_probeN c"
  by (simp_all add: put_replay_def)

lemma count_probe_simps [simp]:
  "rc_streams (count_probe op c) = rc_streams c" "rc_out (count_probe op c) = rc_out c"
  "rc_session (count_probe op c) = rc_session c" "rc_dir (count_probe op c) = rc_dir c"
  by (simp_all add: count_probe_def)

definition valid_code :: "int \<Rightarrow> bool" where
  "valid_code code \<longleftrightarrow> 0 \<le> code \<and> code < 2 ^ 32"

lemma to_code_valid [simp]: "valid_code (to_code v)"
  by (simp add: valid_code_def to_code_def)

lemma valid_code_numeral [simp]: "valid_code 0" "valid_code 2" "valid_code 5" "valid_code 9" "valid_code 12" "valid_code 13"
  by (simp_all add: valid_code_def)

text \<open>The status a client reads back from trailers is the one that was written.\<close>

lemma grpcStatus_fields:
  assumes "valid_code code" "\<not> hasHeader pre ''grpc-status''" "\<not> hasHeader pre ''grpc-message''"
  shows "grpcStatus (pre @ status_fields code msg) = Some (code, msg)"
proof -
  have skip: "headerValue (pre @ hs) k = headerValue hs k" if "\<not> hasHeader pre k" for hs k
    using that by (induction pre k rule: hasHeader.induct) auto
  have "Atoi (show_int code) = Some code" "to_code code = code"
    using assms(1) Atoi_show_int[of code] by (simp_all add: valid_code_def to_code_def)
  moreover have "decodeGRPCMessage (encodeGRPCMessage msg) = msg"
    using grpc_message.dec_enc[OF TrueI, of msg] by simp
  moreover have "show_int code \<noteq> []" using show_int_head[of code] by auto
  ultimately show ?thesis
    using skip[OF assms(2)] skip[OF assms(3)]
    by (auto simp: grpcStatus_def Let_def status_fields_def decodeGRPCMessage_def)
qed

lemma terminalOf_valid: "terminalOf L rp err = (code, text) \<Longrightarrow> valid_code code"
  by (auto simp: terminalOf_def Let_def split: option.splits gval.splits if_splits)

text \<open>An answered call: frames of its own stream, the last one trailers with a readable status,
  and the call forgotten.\<close>

definition answered :: "stream_id \<Rightarrow> replayConn \<Rightarrow> replayConn \<Rightarrow> bool" where
  "answered i c c' \<longleftrightarrow> rc_streams c' = (rc_streams c)(i := None)
     \<and> (\<exists>fs hs code msg. rc_out c' = rc_out c @ fs @ [MetaHeadersFrame i hs True] \<and> list_all (frame_on i) fs
          \<and> grpcStatus hs = Some (code, msg))"

lemma finishStream_answered:
  assumes "valid_code code" shows "answered i c (finishStream i code msg c)"
proof -
  have "grpcStatus (status_fields code msg) = Some (code, msg)"
    using grpcStatus_fields[OF assms, of "[]"] by simp
  then show ?thesis
    by (auto simp: answered_def finishStream_def intro!: exI[of _ "[]"])
qed

lemma writeTrailersOnly_answered:
  assumes "valid_code code" shows "answered i c (writeTrailersOnly i code msg c)"
proof -
  have "grpcStatus ([('':status'', ''200''), (''content-type'', ''application/grpc'')] @ status_fields code msg) = Some (code, msg)"
    by (rule grpcStatus_fields[OF assms]) simp_all
  then show ?thesis
    by (fastforce simp: answered_def writeTrailersOnly_def intro!: exI[of _ "[]"])
qed

text \<open>Frames written before, and state of the call itself, do not matter.\<close>

lemma answered_after:
  assumes "answered i d c'" "\<forall>j. j \<noteq> i \<longrightarrow> rc_streams d j = rc_streams c j" "rc_out d = rc_out c @ fs" "list_all (frame_on i) fs"
  shows "answered i c c'"
proof -
  have "(rc_streams d)(i := None) = (rc_streams c)(i := None)" using assms(2) by auto
  then show ?thesis using assms(1,3,4) unfolding answered_def by (metis append.assoc list_all_append)
qed

lemma writeMessage_simps:
  "rc_streams (writeMessage i msg c) = rc_streams c"
  "rc_out (writeMessage i msg c) = rc_out c @ map (\<lambda>piece. DataFrame i piece False) (chunks (frame_message msg))"
  by (simp_all add: writeMessage_def)

lemma deliver_loop_answered: "answered i c (deliver_loop L i rp c)"
proof (induction L i rp c rule: deliver_loop.induct)
  case (1 L i rp c)
  obtain x rp' where x: "replay_Recv rp = (x, rp')" by fastforce
  show ?case
  proof (cases x)
    case (Inl err)
    obtain code text0 where t: "terminalOf L rp' err = (code, text0)" by fastforce
    with x Inl terminalOf_valid[OF t] show ?thesis
      by (subst deliver_loop.simps) (simp add: finishStream_answered)
  next
    case (Inr msg)
    have "answered i (writeMessage i msg c) (deliver_loop L i rp' (writeMessage i msg c))"
      using 1 x Inr by simp
    then have "answered i c (deliver_loop L i rp' (writeMessage i msg c))"
      by (rule answered_after[OF _ _ writeMessage_simps(2)]) (auto simp: writeMessage_simps list_all_iff)
    with x Inr show ?thesis by (subst deliver_loop.simps) simp
  qed
qed

lemma deliver_answered: "answered i c (deliver L i rp c)"
  unfolding deliver_def by (rule answered_after[OF deliver_loop_answered _ emit_simps(2)]) simp_all

lemma open_call_answered: "answered i c (open_call L i s typ0 halfClosed c w)"
proof -
  let ?op = "streamOpenFor (rc_session c) typ0 (ts_service s) (ts_method s) (firstOrNil (ts_buffered s))"
  let ?c2 = "count_probe ?op (put_replay i (s\<lparr>ts_buffered := [], ts_opened := True\<rparr>) c)"
  obtain x ss where x: "OpenStreamReplay (rc_session c) ?op w = (x, ss)" by fastforce
  show ?thesis
  proof (cases x)
    case (Inl e)
    let ?c = "?c2\<lparr>rc_session := ss\<rparr>"
    let ?k = "if err_is e ErrShapeMismatch then 9 else 5 :: int"
    have "open_call L i s typ0 halfClosed c w = writeTrailersOnly i ?k (''xrr: '' @ err_text e) ?c"
      using x Inl by (simp add: open_call_def Let_def)
    moreover have "answered i ?c (writeTrailersOnly i ?k (''xrr: '' @ err_text e) ?c)"
      by (rule writeTrailersOnly_answered) simp
    ultimately show ?thesis using answered_after[of i ?c _ c "[]"] by simp
  next
    case (Inr rp)
    let ?c3 = "put_replay i (s\<lparr>ts_buffered := [], ts_opened := True, ts_replay := Some rp\<rparr>) (?c2\<lparr>rc_session := ss\<rparr>)"
    have "answered i ?c3 (open_call L i s typ0 halfClosed c w)"
      using x Inr
      by (simp add: open_call_def Let_def finishStream_answered deliver_answered split: prod.split option.split)
    then show ?thesis using answered_after[of i ?c3 _ c "[]"] by simp
  qed
qed

subsection \<open>Reachable connections\<close>

text \<open>The cassette directory may change between frames.\<close>

inductive served :: "'p grpc_lib \<Rightarrow> replayConn \<Rightarrow> bool" for L :: "'p grpc_lib" where
  start: "served L (emit [SettingsFrame False] (ReplayDialer s dir))"
| frame: "served L c \<Longrightarrow> handleFrame L f c (w :: ynode world) = (e, c') \<Longrightarrow> served L c'"

definition waiting :: "replayConn \<Rightarrow> bool" where
  "waiting c \<longleftrightarrow> (\<forall>i s. rc_streams c i = Some s \<longrightarrow> \<not> ts_opened s \<and> \<not> ts_done s \<and> ts_replay s = None)"

lemma waiting_answered: "waiting c \<Longrightarrow> answered i c c' \<Longrightarrow> waiting c'"
  by (simp add: waiting_def answered_def)

lemma advance_cases:
  assumes "waiting c"
  obtains "advance L i halfClosed c w = c" | "answered i c (advance L i halfClosed c w)" "rc_streams c i \<noteq> None"
proof (cases "rc_streams c i")
  case None
  then show thesis using that(1) by (simp add: advance_def)
next
  case (Some s)
  have "\<not> ts_done s" "\<not> ts_opened s" using assms Some by (auto simp: waiting_def)
  then show thesis
    using that Some
    by (cases "inferReplayType s halfClosed (\<lambda>cand msg. cassetteExists cand (ts_service s) (ts_method s) msg c w)")
      (simp_all add: advance_def open_call_answered)
qed

lemma advance_waiting: "waiting c \<Longrightarrow> waiting (advance L i halfClosed c w)"
  using advance_cases[of c L i halfClosed w] waiting_answered by metis

lemma put_waiting:
  "waiting c \<Longrightarrow> \<not> ts_opened s \<and> \<not> ts_done s \<and> ts_replay s = None \<Longrightarrow> waiting (put_replay i s c)"
  by (simp add: waiting_def)

lemma onHeaders_waiting: "waiting c \<Longrightarrow> waiting (onHeaders L i hfs ended c w)"
  by (auto simp: onHeaders_def Let_def split: option.split
      intro!: advance_waiting put_waiting waiting_answered[OF _ writeTrailersOnly_answered])

lemma onData_waiting: "waiting c \<Longrightarrow> waiting (onData L i data ended c w)"
proof (cases "rc_streams c i")
  case (Some s)
  assume c: "waiting c"
  then have "\<not> ts_opened s \<and> \<not> ts_done s \<and> ts_replay s = None" using Some by (simp add: waiting_def)
  with c Some show ?thesis
    by (auto simp: onData_def split: prod.split sum.split
        intro!: advance_waiting put_waiting waiting_answered[OF c writeTrailersOnly_answered])
qed (simp add: onData_def)

lemma served_waiting: "served L c \<Longrightarrow> waiting c"
proof (induction rule: served.induct)
  case (frame c f w e c')
  show ?case
  proof (cases f)
    case (MetaHeadersFrame i hfs ended)
    with frame.hyps(2) onHeaders_waiting[OF frame.IH] show ?thesis by (auto simp: handleFrame_def)
  next
    case (DataFrame i data ended)
    with frame.hyps(2) onData_waiting[OF frame.IH] show ?thesis by (auto simp: handleFrame_def)
  qed (use frame.hyps(2) frame.IH in \<open>auto simp: handleFrame_def waiting_def split: if_splits\<close>)
qed (simp add: waiting_def ReplayDialer_def)

text \<open>Once the client has closed its side, every type can be decided.\<close>

lemma inferReplayType_halfClosed: "inferReplayType s True probe \<noteq> None"
  by (simp add: inferReplayType_def Let_def)

lemma advance_halfClosed:
  assumes "waiting c" "rc_streams c i = Some s"
  shows "answered i c (advance L i True c w)"
proof -
  have "\<not> ts_done s" "\<not> ts_opened s" using assms by (auto simp: waiting_def)
  then show ?thesis
    using assms(2) by (auto simp: advance_def open_call_answered inferReplayType_halfClosed split: option.split)
qed

subsection \<open>What is delivered\<close>

definition data_frames :: "stream_id \<Rightarrow> bytes list \<Rightarrow> h2frame list" where
  "data_frames i msgs = concat (map (\<lambda>m. map (\<lambda>piece. DataFrame i piece False) (chunks (frame_message m))) msgs)"

definition response :: "stream_id \<Rightarrow> bytes list \<Rightarrow> int \<Rightarrow> string \<Rightarrow> h2frame list" where
  "response i msgs code text0 =
     MetaHeadersFrame i [('':status'', ''200''), (''content-type'', ''application/grpc'')] False
     # data_frames i msgs @ [MetaHeadersFrame i (status_fields code text0) True]"

lemma emit_emit [simp]: "emit gs (emit fs c) = emit (fs @ gs) c"
  by (simp add: emit_def)

lemma terminal_cong: "sy_pair rp = sy_pair rp' \<Longrightarrow> terminalOf L rp (terminalErr rp) = terminalOf L rp' (terminalErr rp')"
  by (simp add: terminalOf_def terminalErr_def)

lemma deliver_loop_frames:
  assumes "sy_mismatch rp = None" "terminalOf L rp (terminalErr rp) = (code, text0)"
  shows "deliver_loop L i rp c = finishStream i code text0
    (emit (data_frames i (drop (sy_recvIdx rp) (map f_Message (rp_Frames (p_Resp (sy_pair rp)))))) c)"
  using assms
proof (induction L i rp c rule: deliver_loop.induct)
  case (1 L i rp c)
  let ?fr = "rp_Frames (p_Resp (sy_pair rp))"
  show ?case
  proof (cases "sy_recvIdx rp < length ?fr")
    case False
    with 1(2) have "replay_Recv rp = (Inl (terminalErr rp), rp)" by (simp add: replay_Recv_def Let_def)
    with 1(3) False show ?thesis by (subst deliver_loop.simps) (simp add: data_frames_def emit_def)
  next
    case True
    let ?m = "f_Message (?fr ! sy_recvIdx rp)" and ?rp = "rp\<lparr>sy_recvIdx := sy_recvIdx rp + 1\<rparr>"
    have r: "replay_Recv rp = (Inr ?m, ?rp)" using 1(2) True by (simp add: replay_Recv_def Let_def)
    have t: "terminalOf L ?rp (terminalErr ?rp) = (code, text0)"
      using 1(3) terminal_cong[of ?rp rp L] by simp
    have "drop (sy_recvIdx rp) (map f_Message ?fr) = ?m # drop (sy_recvIdx ?rp) (map f_Message ?fr)"
      using True by (simp add: Cons_nth_drop_Suc[symmetric])
    then have d: "data_frames i (drop (sy_recvIdx rp) (map f_Message ?fr))
        = map (\<lambda>piece. DataFrame i piece False) (chunks (frame_message ?m)) @ data_frames i (drop (sy_recvIdx ?rp) (map f_Message ?fr))"
      by (simp add: data_frames_def)
    have "deliver_loop L i ?rp (writeMessage i ?m c) = finishStream i code text0
        (emit (data_frames i (drop (sy_recvIdx ?rp) (map f_Message ?fr))) (writeMessage i ?m c))"
      using 1(1)[OF r[symmetric] refl _ t] 1(2) by simp
    then show ?thesis
      unfolding d by (subst deliver_loop.simps) (simp add: r writeMessage_def)
  qed
qed

lemma payload_append: "payload_of i (a @ b) = payload_of i a @ payload_of i b"
  by (induction i a rule: payload_of.induct) simp_all

lemma payload_data: "payload_of i (data_frames i msgs) = concat (map frame_message msgs)"
proof -
  have "payload_of i (map (\<lambda>piece. DataFrame i piece False) ps) = concat ps" for ps
    by (induction ps) simp_all
  then show ?thesis
    by (induction msgs) (simp_all add: data_frames_def payload_append concat_chunks)
qed

text \<open>A client that decodes the response finds the recorded messages and the status.\<close>

lemma response_readable:
  assumes "list_all sendable msgs" "valid_code code"
  shows "feed_loop (payload_of i (response i msgs code text0)) = (Inr msgs, [])"
    "grpcStatus (status_fields code text0) = Some (code, text0)"
  using feed_loop_frames[OF assms(1)] grpcStatus_fields[OF assms(2), of "[]"]
  by (simp_all add: response_def payload_append payload_data)

lemma send_all_recorded:
  assumes "sy_mismatch y = None"
    and "drop (sy_sendIdx y) (map f_Message (rq_Frames (p_Req (sy_pair y)))) = map (scrubFrame (sy_scrub y) StreamSend (sy_info y)) ms"
  shows "send_all ms y = (None, y\<lparr>sy_sendIdx := sy_sendIdx y + length ms\<rparr>)"
  using assms
proof (induction ms arbitrary: y)
  case (Cons m ms)
  note d = drop_map_Cons[OF Cons.prems(2)[unfolded list.map]]
  have "replay_Send m y = (None, y\<lparr>sy_sendIdx := sy_sendIdx y + 1\<rparr>)"
    using Cons.prems(1) d(1,2) by (simp add: replay_Send_def Let_def)
  with Cons.IH[of "y\<lparr>sy_sendIdx := sy_sendIdx y + 1\<rparr>"] Cons.prems(1) d(3) show ?case by simp
qed simp

lemma HalfClose_after_all:
  "sy_mismatch y = None \<Longrightarrow> length (rq_Frames (p_Req (sy_pair y))) \<le> sy_sendIdx y \<Longrightarrow> replay_HalfClose y = (None, y)"
  by (simp add: replay_HalfClose_def Let_def)

subsection \<open>Files of a saved pair\<close>

lemma readStreamFile_exists: "readStreamFile c a fp kind w = Inr x \<Longrightarrow> w_files w (cassette_path c a fp kind) \<noteq> None"
  by (auto simp: readStreamFile_def os_ReadFile_def split: option.splits)

lemma LoadStream_exists:
  "LoadStream c a fp w = Inr p \<Longrightarrow>
   w_files w (cassette_path c a fp ''req'') \<noteq> None \<and> w_files w (cassette_path c a fp ''resp'') \<noteq> None"
  using readStreamFile_exists[of c a fp] by (auto simp: LoadStream_def split: sum.splits)

lemma content_addressed_exists:
  assumes "OpenStreamReplay u (streamOpenFor u StreamServer service mth b) w = (Inr y, u1)" "s_cassette u = Some c" "fc_dir c \<noteq> []"
    and "rc_session r = u" "rc_dir r = fc_dir c"
  shows "cassetteExists StreamServer service mth b r w"
proof -
  let ?op = "streamOpenFor u StreamServer service mth b"
  have op: "\<not> so_Counter ?op" "so_AdapterID ?op = ''grpc''" by (simp_all add: streamOpenFor_def Let_def)
  obtain fp where fp: "StreamFingerprint ?op (-1) = Inr fp" "\<exists>p. LoadStream c ''grpc'' fp w = Inr p"
    using assms(1,2) op
    by (auto simp: OpenStreamReplay_def checkStreamOpen_def streamOpenFingerprint_def map_sum_def split: sum.splits if_splits)
  then show ?thesis
    using LoadStream_exists[of c "''grpc''" fp w] op assms(3-5) by (auto simp: cassetteExists_def Let_def cassette_path_def)
qed

subsection \<open>Properties\<close>

text \<open>C35: No call stays open between frames: in every reachable state of a replaying connection,
  whatever frames the client sends and however the cassettes change, each tracked call is still
  waiting for its cassette. Answering a call delivers the whole recorded response at once and
  forgets it, so the branch of \<^verbatim>\<open>advance\<close> that checks further sends of an open call is
  never taken, and messages a client sends after the answer began are not validated.\<close>

theorem no_call_stays_open:
  assumes "served L c" "rc_streams c i = Some s"
  shows "\<not> ts_opened s \<and> \<not> ts_done s \<and> ts_replay s = None"
  using served_waiting[OF assms(1)] assms(2) by (simp add: waiting_def)

definition sample_conn :: replayConn where
  "sample_conn = emit [SettingsFrame False] (ReplayDialer (NewSession ModeReplay (Some (NewFileCassette ''d''))) ''d'')"

definition sample_call :: replayConn where
  "sample_call = onHeaders sample_lib 1 [('':path'', ''/pkg.Svc/Watch'')] False sample_conn tree_world"

lemma sample_path: "splitPath ''/pkg.Svc/Watch'' = Some (''pkg.Svc'', ''Watch'')"
  by (simp add: splitPath_eq splitFullMethod_Inr trim_prefix_def)

lemma sample_call_served: "served sample_lib sample_conn" "served sample_lib sample_call"
proof -
  show start: "served sample_lib sample_conn" unfolding sample_conn_def by (rule served.start)
  show "served sample_lib sample_call"
    by (rule served.frame[OF start, of "MetaHeadersFrame 1 [('':path'', ''/pkg.Svc/Watch'')] False" tree_world None])
      (simp add: handleFrame_def sample_call_def)
qed

lemma sample_call_stream:
  "rc_streams sample_call 1 = Some \<lparr>ts_service = ''pkg.Svc'', ts_method = ''Watch'', ts_replay = None, ts_buffered = [],
     ts_opened = False, ts_done = False\<rparr>"
  by (simp add: sample_call_def onHeaders_def sample_path)

theorem no_call_stays_open_witness:
  "\<exists>s. rc_streams sample_call 1 = Some s \<and> \<not> ts_opened s \<and> \<not> ts_done s \<and> ts_replay s = None"
  using no_call_stays_open[OF sample_call_served(2) sample_call_stream] sample_call_stream by blast



text \<open>A server-streamed call whose cassette opens: one request with the half-close.\<close>

lemma serve_server_stream:
  assumes path: "splitPath (headerValue hfs '':path'') = Some (service, mth)" and q: "sendable q"
    and u: "s_cassette u = Some c" "fc_dir c \<noteq> []"
    and y: "OpenStreamReplay u (streamOpenFor u StreamServer service mth q) w = (Inr y, u1)"
      "sy_mismatch y = None" "sy_sendIdx y = 0" "sy_recvIdx y = 0"
      "map f_Message (rq_Frames (p_Req (sy_pair y))) = [scrubFrame (sy_scrub y) StreamSend (sy_info y) q]"
      "map f_Message (rp_Frames (p_Resp (sy_pair y))) = msgs" "terminalOf L y (terminalErr y) = (code, text0)"
  shows "rc_out (serve L [MetaHeadersFrame i hfs False, DataFrame i (frame_message q) True] (ReplayDialer u (fc_dir c)) w)
    = SettingsFrame False # response i msgs code text0"
proof -
  let ?s = "\<lparr>ts_service = service, ts_method = mth, ts_replay = None, ts_buffered = [q], ts_opened = False, ts_done = False\<rparr>"
  let ?c = "put_replay i ?s (put_replay i (?s\<lparr>ts_buffered := []\<rparr>) (emit [SettingsFrame False] (ReplayDialer u (fc_dir c))))"
  let ?op = "streamOpenFor u StreamServer service mth q"
  let ?y = "y\<lparr>sy_sendIdx := 1\<rparr>"
  have f: "feed (frame_message q) \<lparr>sd_buf = []\<rparr> = (Inr [q], \<lparr>sd_buf = []\<rparr>)"
    using feed_loop_frames[of "[q]"] q by (simp add: feed_def)
  have serve: "serve L [MetaHeadersFrame i hfs False, DataFrame i (frame_message q) True] (ReplayDialer u (fc_dir c)) w
      = advance L i True ?c w"
    using path f by (simp add: serve_def handleFrame_def onHeaders_def onData_def)
  have ex: "cassetteExists StreamServer service mth q ?c w"
    by (rule content_addressed_exists[OF y(1) u]) (simp_all add: ReplayDialer_def)
  have sends: "send_all [q] y = (None, ?y)"
    using send_all_recorded[OF y(2), of "[q]"] y(3,5) by simp
  have half: "replay_HalfClose ?y = (None, ?y)"
    using y(2) arg_cong[OF y(5), of length] by (intro HalfClose_after_all) simp_all
  have del: "deliver_loop L i ?y d = finishStream i code text0 (emit (data_frames i msgs) d)" for d
    using deliver_loop_frames[of ?y L code text0 i d] y(2,4,6,7) terminal_cong[of ?y y L] by simp
  have op: "\<not> so_Counter ?op" by (simp add: streamOpenFor_def Let_def)
  have ses: "rc_session ?c = u" by (simp add: ReplayDialer_def)
  have "inferReplayType ?s True (\<lambda>cand msg. cassetteExists cand service mth msg ?c w) = Some StreamServer"
    using ex by (simp add: inferReplayType_def firstOrNil_def)
  then have "advance L i True ?c w = open_call L i ?s StreamServer True ?c w"
    by (simp add: advance_def)
  also have "rc_out \<dots> = SettingsFrame False # response i msgs code text0"
    using y(1) sends half del ses op
    by (simp add: open_call_def Let_def firstOrNil_def count_probe_def deliver_def finishStream_def response_def ReplayDialer_def)
  finally show ?thesis using serve by simp
qed

lemma terminalOf_recorded:
  assumes "key_norm (GMap (p_RespPayload (sy_pair y))) = key_norm (GMap [(''status_code'', GInt code)])" "valid_code code"
    and "p_RecordedErr (sy_pair y) = (if code = 0 then [] else rpc_text L code msg)"
  shows "terminalOf L y (terminalErr y) = (code, if code = 0 then [] else rpc_text L code msg)"
proof -
  have "map_of (p_RespPayload (sy_pair y)) ''status_code'' = Some (GInt code)" by (rule singleton_payload[OF assms(1)])
  moreover have "to_code code = code" using assms(2) by (simp add: valid_code_def to_code_def)
  ultimately show ?thesis
    using assms(3) rpc_text_ne[of L code msg] by (auto simp: terminalOf_def terminalErr_def Let_def)
qed





end
