(* ===== verification/Go_Json.thy ===== *)
theory Go_Json
  imports Yaml_Lib "HOL-Library.AList"
begin

section \<open>JSON documents (encoding/json, as the xrr command uses it)\<close>

text \<open>
  The command keeps its run configuration, its call log and its report as JSON. This theory models
  what it uses of \<^verbatim>\<open>encoding/json\<close>: the encoder with HTML escaping on (compact and
  indented), the syntax check and parser, and decoding into a struct by field name. The main
  result is that the parser reads back what either printer wrote, up to the replacement of octets
  that are not UTF-8.

  A number is kept as its literal, an object as its members in the order they stand in the text.
\<close>

datatype json =
    JNull
  | JBool bool
  | JNum string
  | JStr string
  | JArr "json list"
  | JObj "(string \<times> json) list"

subsection \<open>Printing\<close>

text \<open>One rune inside a string literal: besides what the encoder always escapes, the three octets
  that matter inside HTML.\<close>

definition html_piece :: "string \<Rightarrow> string" where
  "html_piece p =
     (if p = ''<'' then bslash # ''u003c''
      else if p = ''>'' then bslash # ''u003e''
      else if p = ''&'' then bslash # ''u0026''
      else go_piece p)"

definition html_quote :: "string \<Rightarrow> string" where
  "html_quote s = dquote # concat (map html_piece (utf8_runes s)) @ [dquote]"

text \<open>Both printers, for the white space \<open>sp n\<close> put before an item at depth \<open>n\<close> and
  the text between a name and its value.\<close>

fun json_fmt :: "(nat \<Rightarrow> string) \<Rightarrow> string \<Rightarrow> nat \<Rightarrow> json \<Rightarrow> string" where
  "json_fmt sp col n JNull = ''null''"
| "json_fmt sp col n (JBool b) = (if b then ''true'' else ''false'')"
| "json_fmt sp col n (JNum t) = t"
| "json_fmt sp col n (JStr s) = html_quote s"
| "json_fmt sp col n (JArr vs) =
     (if vs = [] then ''[]''
      else ''['' @ join_with '','' (map (\<lambda>v. sp (Suc n) @ json_fmt sp col (Suc n) v) vs) @ sp n @ '']'')"
| "json_fmt sp col n (JObj kvs) =
     (if kvs = [] then ''{}''
      else ''{'' @ join_with '','' (map (\<lambda>(k, v). sp (Suc n) @ html_quote k @ col @ json_fmt sp col (Suc n) v) kvs)
           @ sp n @ ''}'')"

definition json_Marshal :: "json \<Rightarrow> string" where
  "json_Marshal j = json_fmt (\<lambda>_. []) '':'' 0 j"

definition json_MarshalIndent :: "json \<Rightarrow> string" where
  "json_MarshalIndent j = json_fmt (\<lambda>n. CHR 0x0A # replicate (2 * n) CHR '' '') '': '' 0 j"

subsection \<open>Parsing\<close>

definition is_ws :: "char \<Rightarrow> bool" where
  "is_ws c \<longleftrightarrow> c = CHR '' '' \<or> c = CHR 0x09 \<or> c = CHR 0x0A \<or> c = CHR 0x0D"

definition skip_ws :: "string \<Rightarrow> string" where
  "skip_ws s = dropWhile is_ws s"

text \<open>\<open>getu4\<close> is the value of the four digits of a \<^verbatim>\<open>\u\<close> escape.\<close>

fun getu4 :: "string \<Rightarrow> nat option" where
  "getu4 (a # b # c # d # r) =
     (case (hex_val a, hex_val b, hex_val c, hex_val d) of
        (Some w, Some x, Some y, Some z) \<Rightarrow> Some (4096 * w + 256 * x + 16 * y + z)
      | _ \<Rightarrow> None)"
| "getu4 _ = None"

text \<open>\<^verbatim>\<open>utf8.AppendRune\<close>; a surrogate or a value past U+10FFFF is written as U+FFFD.\<close>

definition rune_error :: string where
  "rune_error = [CHR 0xEF, CHR 0xBF, CHR 0xBD]"

definition put_rune :: "nat \<Rightarrow> string" where
  "put_rune r =
     (if r < 0x80 then [char_of r]
      else if r < 0x800 then [char_of (0xC0 + r div 64), char_of (0x80 + r mod 64)]
      else if 0xD800 \<le> r \<and> r < 0xE000 \<or> 0x110000 \<le> r then rune_error
      else if r < 0x10000 then [char_of (0xE0 + r div 4096), char_of (0x80 + r div 64 mod 64), char_of (0x80 + r mod 64)]
      else [char_of (0xF0 + r div 262144), char_of (0x80 + r div 4096 mod 64), char_of (0x80 + r div 64 mod 64),
            char_of (0x80 + r mod 64)])"

text \<open>\<^verbatim>\<open>utf16.DecodeRune\<close> on a \<^verbatim>\<open>\u\<close> escape that follows a surrogate: the rune of a
  high and low pair.\<close>

definition low_half :: "nat \<Rightarrow> string \<Rightarrow> nat option" where
  "low_half hi r =
     (case r of
        a # b # t \<Rightarrow>
          if a = bslash \<and> b = CHR ''u'' \<and> hi < 0xDC00 then
            (case getu4 t of
               Some lo \<Rightarrow>
                 if 0xDC00 \<le> lo \<and> lo < 0xE000 then Some (0x10000 + 1024 * (hi - 0xD800) + (lo - 0xDC00)) else None
             | None \<Rightarrow> None)
          else None
      | _ \<Rightarrow> None)"

definition short_escape :: "char \<Rightarrow> char option" where
  "short_escape c =
     map_of [(dquote, dquote), (bslash, bslash), (CHR ''/'', CHR ''/''), (CHR ''b'', CHR 0x08), (CHR ''f'', CHR 0x0C),
       (CHR ''n'', CHR 0x0A), (CHR ''r'', CHR 0x0D), (CHR ''t'', CHR 0x09)] c"

text \<open>The rest of a string literal after its opening quote: the string and what follows the closing
  quote.\<close>

function json_string :: "string \<Rightarrow> (string \<times> string) option" where
  "json_string [] = None"
| "json_string (c # r) =
     (if c = dquote then Some ([], r)
      else if c = bslash then
        (case r of
           [] \<Rightarrow> None
         | e # t \<Rightarrow>
             if e = CHR ''u'' then
               (case getu4 t of
                  None \<Rightarrow> None
                | Some v \<Rightarrow>
                    if 0xD800 \<le> v \<and> v < 0xE000 then
                      (case low_half v (drop 4 t) of
                         Some x \<Rightarrow> map_option (\<lambda>(s, u). (put_rune x @ s, u)) (json_string (drop 10 t))
                       | None \<Rightarrow> map_option (\<lambda>(s, u). (rune_error @ s, u)) (json_string (drop 4 t)))
                    else map_option (\<lambda>(s, u). (put_rune v @ s, u)) (json_string (drop 4 t)))
             else
               (case short_escape e of
                  None \<Rightarrow> None
                | Some x \<Rightarrow> map_option (\<lambda>(s, u). (x # s, u)) (json_string t)))
      else if oct_in 0 0x1F c then None
      else
        let n = rune_size (c # r) in
        if n = 0 then map_option (\<lambda>(s, u). (rune_error @ s, u)) (json_string r)
        else map_option (\<lambda>(s, u). (take n (c # r) @ s, u)) (json_string (drop n (c # r))))"
  by pat_completeness auto
termination
  by (relation "measure length") auto

declare json_string.simps(2) [simp del]

text \<open>A number literal: integer part, fraction, exponent.\<close>

definition take_digits :: "string \<Rightarrow> (string \<times> string) option" where
  "take_digits s = (if takeWhile is_digit s = [] then None else Some (takeWhile is_digit s, dropWhile is_digit s))"

definition num_int :: "string \<Rightarrow> (string \<times> string) option" where
  "num_int s = (if take 1 s = ''0'' then Some (''0'', drop 1 s) else take_digits s)"

definition num_frac :: "string \<Rightarrow> (string \<times> string) option" where
  "num_frac s =
     (if take 1 s = ''.'' then map_option (\<lambda>(ds, t). (CHR ''.'' # ds, t)) (take_digits (drop 1 s)) else Some ([], s))"

definition num_exp :: "string \<Rightarrow> (string \<times> string) option" where
  "num_exp s =
     (case s of
        [] \<Rightarrow> Some ([], s)
      | e # r \<Rightarrow>
          if e = CHR ''e'' \<or> e = CHR ''E'' then
            (case r of
               g # r2 \<Rightarrow>
                 if g = CHR ''+'' \<or> g = CHR ''-'' then map_option (\<lambda>(ds, t). (e # g # ds, t)) (take_digits r2)
                 else map_option (\<lambda>(ds, t). (e # ds, t)) (take_digits r)
             | [] \<Rightarrow> None)
          else Some ([], s))"

definition json_number :: "string \<Rightarrow> (string \<times> string) option" where
  "json_number s =
     (let (sg, s1) = (if take 1 s = ''-'' then (''-'', drop 1 s) else ([], s)) in
      Option.bind (num_int s1) (\<lambda>(a, s2). Option.bind (num_frac s2) (\<lambda>(b, s3).
        map_option (\<lambda>(c, s4). (sg @ a @ b @ c, s4)) (num_exp s3))))"

definition json_literal :: "string \<Rightarrow> json \<Rightarrow> string \<Rightarrow> (json \<times> string) option" where
  "json_literal w j s = (if prefix w s then Some (j, drop (length w) s) else None)"

text \<open>
  A value at the front of a text, and the elements and members of a composite up to its closing
  bracket. The first argument is fuel; the second is how many more levels may be opened (the
  scanner gives up at depth 10000).
\<close>

fun p_val :: "nat \<Rightarrow> nat \<Rightarrow> string \<Rightarrow> (json \<times> string) option"
and p_elems :: "nat \<Rightarrow> nat \<Rightarrow> string \<Rightarrow> (json list \<times> string) option"
and p_members :: "nat \<Rightarrow> nat \<Rightarrow> string \<Rightarrow> ((string \<times> json) list \<times> string) option" where
  "p_val 0 d s = None"
| "p_val (Suc n) d s =
     (case skip_ws s of
        [] \<Rightarrow> None
      | c # r \<Rightarrow>
          if c = dquote then map_option (\<lambda>(x, t). (JStr x, t)) (json_string r)
          else if c = CHR ''{'' then
            (if d = 0 then None
             else if take 1 (skip_ws r) = ''}'' then Some (JObj [], drop 1 (skip_ws r))
             else map_option (\<lambda>(kvs, t). (JObj kvs, t)) (p_members n (d - 1) r))
          else if c = CHR ''['' then
            (if d = 0 then None
             else if take 1 (skip_ws r) = '']'' then Some (JArr [], drop 1 (skip_ws r))
             else map_option (\<lambda>(vs, t). (JArr vs, t)) (p_elems n (d - 1) r))
          else if c = CHR ''n'' then json_literal ''null'' JNull (c # r)
          else if c = CHR ''t'' then json_literal ''true'' (JBool True) (c # r)
          else if c = CHR ''f'' then json_literal ''false'' (JBool False) (c # r)
          else map_option (\<lambda>(x, t). (JNum x, t)) (json_number (c # r)))"
| "p_elems 0 d s = None"
| "p_elems (Suc n) d s =
     (case p_val n d s of
        None \<Rightarrow> None
      | Some (v, t) \<Rightarrow>
          (case skip_ws t of
             [] \<Rightarrow> None
           | c # u \<Rightarrow>
               if c = CHR '','' then map_option (\<lambda>(vs, z). (v # vs, z)) (p_elems n d u)
               else if c = CHR '']'' then Some ([v], u)
               else None))"
| "p_members 0 d s = None"
| "p_members (Suc n) d s =
     (case skip_ws s of
        [] \<Rightarrow> None
      | q # r \<Rightarrow>
          if q \<noteq> dquote then None
          else (case json_string r of
             None \<Rightarrow> None
           | Some (k, t) \<Rightarrow>
               if take 1 (skip_ws t) \<noteq> '':'' then None
               else (case p_val n d (drop 1 (skip_ws t)) of
                  None \<Rightarrow> None
                | Some (v, t2) \<Rightarrow>
                    (case skip_ws t2 of
                       [] \<Rightarrow> None
                     | c # u \<Rightarrow>
                         if c = CHR '','' then map_option (\<lambda>(kvs, z). ((k, v) # kvs, z)) (p_members n d u)
                         else if c = CHR ''}'' then Some ([(k, v)], u)
                         else None))))"

definition json_fuel :: "string \<Rightarrow> nat" where
  "json_fuel s = 2 * length s + 2"

definition json_parse :: "string \<Rightarrow> json option" where
  "json_parse s =
     (case p_val (json_fuel s) 10000 s of
        Some (j, t) \<Rightarrow> if skip_ws t = [] then Some j else None
      | None \<Rightarrow> None)"

subsection \<open>The fuel is enough\<close>

lemma skip_ws_le: "length (skip_ws s) \<le> length s"
  by (simp add: skip_ws_def length_dropWhile_le)

lemma skip_ws_Cons: "skip_ws s = c # r \<Longrightarrow> length r < length s"
  using skip_ws_le[of s] by simp

lemma json_string_step:
  assumes "json_string (c # r) = Some (x, t)"
  shows "t = r \<or> (\<exists>u y. length u \<le> length r \<and> json_string u = Some (y, t))"
proof -
  have d: "length (drop n (c # r)) \<le> length r" if "n \<noteq> 0" for n using that by (cases n) auto
  show ?thesis
    using assms
    by (auto simp: json_string.simps Let_def split: if_splits list.splits option.splits dest: d)
qed

lemma json_string_shorter: "json_string s = Some (x, t) \<Longrightarrow> length t < length s"
proof (induction s arbitrary: x t rule: length_induct)
  case (1 s)
  then show ?case
    using json_string_step by (cases s) (fastforce simp: less_Suc_eq_le)+
qed

lemma take_digits_shorter: "take_digits s = Some (x, t) \<Longrightarrow> length t < length s"
proof -
  assume "take_digits s = Some (x, t)"
  then have "t = dropWhile is_digit s" "takeWhile is_digit s \<noteq> []" by (auto simp: take_digits_def split: if_splits)
  moreover have "length (takeWhile is_digit s) + length (dropWhile is_digit s) = length s"
    by (metis length_append takeWhile_dropWhile_id)
  ultimately show ?thesis by (cases "takeWhile is_digit s") auto
qed

lemma num_int_shorter: "num_int s = Some (x, t) \<Longrightarrow> length t < length s"
  by (cases s) (auto simp: num_int_def dest: take_digits_shorter split: if_splits)

lemma num_tail_le:
  "num_frac s = Some (x, t) \<Longrightarrow> length t \<le> length s" "num_exp s = Some (x, t) \<Longrightarrow> length t \<le> length s"
  by (auto simp: num_frac_def num_exp_def dest!: take_digits_shorter split: list.splits if_splits)

lemma json_number_shorter: "json_number s = Some (x, t) \<Longrightarrow> length t < length s"
proof -
  assume "json_number s = Some (x, t)"
  let ?s1 = "if take 1 s = ''-'' then drop 1 s else s"
  obtain a s2 b s3 c where parts: "num_int ?s1 = Some (a, s2)" "num_frac s2 = Some (b, s3)" "num_exp s3 = Some (c, t)"
    using \<open>json_number s = Some (x, t)\<close>
    by (cases "take 1 s = ''-''") (auto simp: json_number_def bind_eq_Some_conv)
  have "length ?s1 \<le> length s" by simp
  then show ?thesis using num_int_shorter[OF parts(1)] num_tail_le(1)[OF parts(2)] num_tail_le(2)[OF parts(3)] by linarith
qed

lemma p_shorter:
  "p_val n d s = Some (j, t) \<Longrightarrow> length t < length s"
  "p_elems n d s = Some (vs, t) \<Longrightarrow> length t < length s"
  "p_members n d s = Some (kvs, t) \<Longrightarrow> length t < length s"
proof (induction n d s and n d s and n d s arbitrary: j t and vs t and kvs t rule: p_val_p_elems_p_members.induct)
  case (2 n d s)
  obtain c r where c: "skip_ws s = c # r" using "2.prems" by (cases "skip_ws s") auto
  note le = skip_ws_le[of s, unfolded c]
  have lit: "length t < length (c # r)" if "json_literal w v (c # r) = Some (j, t)" "w \<noteq> []" for w v
    using that by (cases w) (auto simp: json_literal_def split: if_splits)
  have skip: "length (drop (Suc 0) (skip_ws r)) < length (c # r)" using skip_ws_le[of r] by simp
  have "length t < length (c # r)"
    using "2.prems" "2.IH" c lit skip
    by (auto simp: less_Suc_eq dest!: json_string_shorter json_number_shorter split: if_splits)
  with le show ?case by simp
next
  case (4 n d s)
  from "4.prems" obtain v t1 c u where v: "p_val n d s = Some (v, t1)" "skip_ws t1 = c # u"
    by (auto split: option.splits list.splits)
  have "length t1 < length s" "length u < length t1"
    using "4.IH"(1)[OF v(1)] skip_ws_le[of t1] v(2) by simp_all
  then show ?case
    using "4.prems" v "4.IH"(2)[OF v(1) refl v(2)] by (fastforce split: if_splits)
next
  case (6 n d s)
  from "6.prems" obtain r k t1 v t2 c u where v: "skip_ws s = dquote # r" "json_string r = Some (k, t1)"
    "p_val n d (drop 1 (skip_ws t1)) = Some (v, t2)" "skip_ws t2 = c # u" "take 1 (skip_ws t1) = '':''"
    by (auto split: option.splits list.splits if_splits)
  have "length t2 < length (drop 1 (skip_ws t1))" using "6.IH"(1)[OF v(1) _ v(2)] v by simp
  then have "length u < length s"
    using json_string_shorter[OF v(2)] skip_ws_le[of s] skip_ws_le[of t1] skip_ws_le[of t2] v(1,4) by simp
  then show ?case
    using "6.prems" v "6.IH"(2)[OF v(1) _ v(2) refl _ v(3) refl v(4)] by (fastforce split: if_splits)
qed auto

lemma fuel_step:
  "2 * length s + 1 \<le> n \<Longrightarrow> p_val (Suc n) d s = p_val n d s"
  "2 * length s + 2 \<le> n \<Longrightarrow> p_elems (Suc n) d s = p_elems n d s"
  "2 * length s + 2 \<le> n \<Longrightarrow> p_members (Suc n) d s = p_members n d s"
proof (induction n arbitrary: d s)
  case (Suc n)
  {
    case 1
    show ?case
    proof (cases "skip_ws s")
      case (Cons c r)
      have "length r < length s" by (rule skip_ws_Cons[OF Cons])
      then have "p_elems (Suc n) (d - 1) r = p_elems n (d - 1) r" "p_members (Suc n) (d - 1) r = p_members n (d - 1) r"
        using Suc.IH(2,3)[of r "d - 1"] 1 by simp_all
      then show ?thesis unfolding p_val.simps Cons by simp
    qed simp
  next
    case 2
    have v: "p_val (Suc n) d s = p_val n d s" using Suc.IH(1)[of s d] 2 by simp
    have e: "p_elems (Suc n) d u = p_elems n d u" if "p_val n d s = Some (v, t)" "skip_ws t = c # u" for v t c u
      using Suc.IH(2)[of u d] p_shorter(1)[OF that(1)] skip_ws_Cons[OF that(2)] 2 by simp
    show ?case unfolding p_elems.simps(2) v using e by (simp split: option.split list.split)
  next
    case 3
    have v: "p_val (Suc n) d (drop 1 (skip_ws t)) = p_val n d (drop 1 (skip_ws t))"
      if "skip_ws s = q # r" "json_string r = Some (k, t)" for q r k t
      using Suc.IH(1)[of "drop 1 (skip_ws t)" d] skip_ws_Cons[OF that(1)] json_string_shorter[OF that(2)] skip_ws_le[of t] 3 by simp
    have e: "p_members (Suc n) d u = p_members n d u"
      if "skip_ws s = q # r" "json_string r = Some (k, t)" "p_val n d (drop 1 (skip_ws t)) = Some (x, t2)" "skip_ws t2 = c # u"
      for q r k t x t2 c u
      using Suc.IH(3)[of u d] skip_ws_Cons[OF that(1)] json_string_shorter[OF that(2)] skip_ws_le[of t]
        p_shorter(1)[OF that(3)] skip_ws_Cons[OF that(4)] 3 by simp
    show ?case unfolding p_members.simps(2) using v e by (auto split: option.split list.split)
  }
qed simp_all

text \<open>More fuel never changes the answer: the parser's is the answer of the grammar.\<close>

lemma fuel_enough: "json_fuel s \<le> n \<Longrightarrow> p_val n d s = p_val (json_fuel s) d s"
proof (induction rule: dec_induct)
  case (step m)
  have "p_val (Suc m) d s = p_val m d s"
    using step.hyps by (intro fuel_step(1)) (simp add: json_fuel_def)
  with step.IH show ?case by simp
qed simp

subsection \<open>Reading strings back\<close>

text \<open>What a string looks like after it went through a document: each octet that is not UTF-8
  is the replacement character.\<close>

definition sanitize :: "string \<Rightarrow> string" where
  "sanitize s = concat (map (\<lambda>p. if is_rune p then p else rune_error) (utf8_runes s))"

lemma sanitize_valid: "utf8_valid s \<Longrightarrow> sanitize s = s"
proof -
  assume "utf8_valid s"
  then have "map (\<lambda>p. if is_rune p then p else rune_error) (utf8_runes s) = utf8_runes s"
    using utf8_valid_runes by (intro map_idI) (auto simp: list_all_iff)
  then show ?thesis by (simp add: sanitize_def concat_utf8_runes)
qed

lemma is_rune_error: "is_rune rune_error"
  by code_simp

lemma utf8_sanitize: "utf8_valid (sanitize s)"
  unfolding sanitize_def by (rule utf8_valid_concat) (auto simp: list_all_iff is_rune_error)

lemma getu4_byte: "getu4 (CHR ''0'' # CHR ''0'' # hex_byte c @ t) = Some (of_char c)"
proof -
  have z: "hex_val CHR ''0'' = Some 0" by code_simp
  have "(of_char c :: nat) div 16 < 16" "(of_char c :: nat) mod 16 < 16" by (rule nibble_bounds)+
  then show ?thesis by (simp add: hex_byte_def z hex_val_digit)
qed

text \<open>\<open>reads x y\<close>: inside a literal, the text \<open>x\<close> stands for \<open>y\<close>.\<close>

definition reads :: "string \<Rightarrow> string \<Rightarrow> bool" where
  "reads x y \<longleftrightarrow> (\<forall>t. json_string (x @ t) = map_option (\<lambda>(s, u). (y @ s, u)) (json_string t))"

lemma reads_append: "reads x y \<Longrightarrow> reads x' y' \<Longrightarrow> reads (x @ x') (y @ y')"
  by (auto simp: reads_def option.map_comp comp_def intro!: option.map_cong)

lemma reads_concat: "list_all2 reads xs ys \<Longrightarrow> reads (concat xs) (concat ys)"
proof (induction rule: list_all2_induct)
  case Nil
  show ?case by (simp add: reads_def option.map_id)
next
  case (Cons x xs y ys)
  then show ?case by (simp add: reads_append)
qed

lemma reads_short: "short_escape e = Some x \<Longrightarrow> reads [bslash, e] [x]"
  by (auto simp: reads_def json_string.simps short_escape_def split: if_splits)

lemma reads_u:
  assumes "\<And>t. getu4 (h @ t) = Some v" "length h = 4" "v < 0xD800 \<or> 0xE000 \<le> v"
  shows "reads (bslash # CHR ''u'' # h) (put_rune v)"
  unfolding reads_def using assms by (auto simp: json_string.simps)

lemma reads_rune:
  assumes "is_rune p" "hd p \<noteq> dquote" "hd p \<noteq> bslash" "\<not> oct_in 0 0x1F (hd p)"
  shows "reads p p"
proof -
  obtain a r where p: "p = a # r" using assms(1) by (cases p) (auto simp: is_rune_def)
  have "rune_size (a # r @ t) = length p" for t
    using assms(1) rune_size_append[of p t] by (auto simp: is_rune_def p)
  then show ?thesis
    using assms(2-4) by (auto simp: reads_def p json_string.simps Let_def)
qed

lemma reads_json_esc:
  assumes "oct_in 0 0x7F a"
  shows "reads (json_esc a) [a]"
proof -
  have u: "reads (bslash # ''u00'' @ hex_byte a) (put_rune (of_char a))"
    using reads_u[of "''00'' @ hex_byte a" "of_char a"] getu4_byte[of a] assms
    by (simp add: hex_byte_def oct_in_def)
  have "put_rune (of_char a) = [a]" using assms by (simp add: put_rune_def oct_in_def)
  moreover have "is_rune [a]" using assms by (simp add: is_rune_def)
  ultimately show ?thesis
    using u reads_rune[of "[a]"]
    by (auto simp: json_esc_def reads_short short_escape_def)
qed

lemma put_rune_values:
  "put_rune 0xFFFD = rune_error" "put_rune 60 = ''<''" "put_rune 62 = ''>''" "put_rune 38 = ''&''"
  "put_rune 0x2028 = rawLineSeparator" "put_rune 0x2029 = rawParagraphSeparator"
  by (simp_all add: put_rune_def rune_error_def rawLineSeparator_def rawParagraphSeparator_def char_of_eq_iff take_bit_eq_mod)

lemma reads_html_piece:
  assumes "is_rune p \<or> length p = 1"
  shows "reads (html_piece p) (if is_rune p then p else rune_error)"
proof (cases "is_rune p")
  case False
  have "reads (bslash # CHR ''u'' # ''fffd'') (put_rune 0xFFFD)"
    by (rule reads_u) (simp_all add: hex_val_def)
  moreover have "p \<noteq> ''<''" "p \<noteq> ''>''" "p \<noteq> ''&''" using False by (auto simp: is_rune_def oct_in_def)
  ultimately show ?thesis using False by (simp add: html_piece_def go_piece_def replacement_esc_def put_rune_values)
next
  case rune: True
  have "reads (html_piece p) p"
  proof (cases rule: is_rune_cases[OF rune])
    case (1 a)
    have h: "reads (bslash # CHR ''u'' # ''003c'') ''<''" "reads (bslash # CHR ''u'' # ''003e'') ''>''"
      "reads (bslash # CHR ''u'' # ''0026'') ''&''"
      using reads_u[of "''003c''" 60] reads_u[of "''003e''" 62] reads_u[of "''0026''" 38]
      by (simp_all add: hex_val_def put_rune_values)
    have "go_piece p = json_esc a"
      using 1 rune by (simp add: go_piece_def rawLineSeparator_def rawParagraphSeparator_def)
    then show ?thesis using h reads_json_esc[OF 1(2)] 1 by (simp add: html_piece_def)
  next
    case 2
    have s: "reads (bslash # CHR ''u'' # ''2028'') rawLineSeparator" "reads (bslash # CHR ''u'' # ''2029'') rawParagraphSeparator"
      using reads_u[of "''2028''" "0x2028"] reads_u[of "''2029''" "0x2029"]
      by (simp_all add: hex_val_def put_rune_values)
    have "reads p p" using 2 rune by (intro reads_rune) (cases p; auto simp: oct_in_def)+
    moreover obtain a b r where "p = a # b # r" using 2(1) by (cases p; cases "tl p") auto
    ultimately show ?thesis
      using s rune by (auto simp: html_piece_def go_piece_def)
  qed
  with rune show ?thesis by simp
qed

lemma utf8_runes_pieces: "list_all (\<lambda>p. is_rune p \<or> length p = 1) (utf8_runes s)"
proof (induction s rule: utf8_runes.induct)
  case (2 a r)
  let ?n = "rune_size (a # r)"
  have "is_rune (take (max 1 ?n) (a # r)) \<or> length (take (max 1 ?n) (a # r)) = 1"
  proof (cases "?n = 0")
    case False
    then show ?thesis
      using rune_size_take[of "a # r"] rune_size_le[of "a # r"] by (simp add: is_rune_def max_def)
  qed simp
  with "2.IH" show ?case by (simp add: utf8_runes.simps(2) Let_def)
qed simp

lemma json_string_quoted: "json_string (concat (map html_piece (utf8_runes s)) @ dquote # t) = Some (sanitize s, t)"
proof -
  have "list_all2 reads (map html_piece ps) (map (\<lambda>p. if is_rune p then p else rune_error) ps)"
    if "list_all (\<lambda>p. is_rune p \<or> length p = 1) ps" for ps
    using that reads_html_piece by (auto simp: list_all2_conv_all_nth list_all_length)
  from reads_concat[OF this[OF utf8_runes_pieces[of s]]] show ?thesis
    by (simp add: reads_def sanitize_def json_string.simps)
qed

subsection \<open>Reading documents back\<close>

abbreviation blank :: "string \<Rightarrow> bool" where
  "blank \<equiv> list_all is_ws"

definition num_end :: "string \<Rightarrow> bool" where
  "num_end t = (case t of [] \<Rightarrow> True | c # _ \<Rightarrow> \<not> is_digit c \<and> c \<noteq> CHR ''.'' \<and> c \<noteq> CHR ''e'' \<and> c \<noteq> CHR ''E'')"

lemma skip_blank: "blank w \<Longrightarrow> \<not> is_ws c \<Longrightarrow> skip_ws (w @ c # t) = c # t"
  unfolding skip_ws_def by (induction w) auto

lemma skip_all_blank: "blank w \<Longrightarrow> skip_ws w = []"
  by (simp add: skip_ws_def dropWhile_eq_Nil_conv list_all_iff)

lemma num_end_blank: "blank w \<Longrightarrow> num_end t \<Longrightarrow> num_end (w @ t)"
  by (cases w) (auto simp: num_end_def is_ws_def is_digit_def)

lemma take_digits_end:
  assumes "list_all is_digit ds" "ds \<noteq> []" "num_end t"
  shows "take_digits (ds @ t) = Some (ds, t)"
proof -
  have "takeWhile is_digit (ds @ t) = ds" "dropWhile is_digit (ds @ t) = t"
    using assms by (cases t; simp add: list_all_iff num_end_def)+
  with assms(2) show ?thesis by (simp add: take_digits_def)
qed

lemma show_nat_head: "show_nat n \<noteq> ''0'' \<Longrightarrow> take 1 (show_nat n @ t) \<noteq> ''0''"
proof (induction n arbitrary: t rule: show_nat.induct)
  case (1 n)
  have "take 1 (show_nat (n div 10) @ u) \<noteq> ''0''" if "\<not> n < 10" for u
  proof (rule "1.IH"[OF that])
    have "read_nat (show_nat (n div 10)) \<noteq> read_nat (show_nat 0)" using that by simp
    moreover have "show_nat 0 = ''0''" by (subst show_nat.simps) (simp add: digit_char_def char_of_eq_iff take_bit_eq_mod)
    ultimately show "show_nat (n div 10) \<noteq> ''0''" by metis
  qed
  with "1.prems" show ?case by (subst show_nat.simps) (subst (asm) show_nat.simps, auto)
qed

lemma num_int_show: "num_end t \<Longrightarrow> num_int (show_nat n @ t) = Some (show_nat n, t)"
  using take_digits_end[OF show_nat_digits[of n] show_nat_ne[of n], of t] show_nat_head[of n t]
  by (cases "show_nat n = ''0''") (auto simp: num_int_def)

lemma num_end_tail: "num_end t \<Longrightarrow> num_frac t = Some ([], t)" "num_end t \<Longrightarrow> num_exp t = Some ([], t)"
  by (cases t; auto simp: num_end_def num_frac_def num_exp_def)+

lemma json_number_show: "num_end t \<Longrightarrow> json_number (show_int i @ t) = Some (show_int i, t)"
proof (cases i rule: show_int_cases)
  case (nonneg n)
  assume t: "num_end t"
  have "take 1 (show_nat n @ t) \<noteq> ''-''"
    using show_nat_digits[of n] by (cases "show_nat n") (auto simp: is_digit_def)
  then have "json_number (show_nat n @ t) = Some (show_nat n, t)"
    unfolding json_number_def using t by (simp add: num_int_show num_end_tail)
  then show ?thesis using nonneg(2) by simp
qed (simp add: json_number_def num_int_show num_end_tail)

text \<open>Trees the command builds (numbers are integers), how deep they are, and what they become.\<close>

fun json_wf :: "json \<Rightarrow> bool" where
  "json_wf (JNum t) \<longleftrightarrow> t = show_int (read_int t)"
| "json_wf (JArr vs) = list_all json_wf vs"
| "json_wf (JObj kvs) = list_all (\<lambda>(k, v). json_wf v) kvs"
| "json_wf _ = True"

fun fits :: "nat \<Rightarrow> json \<Rightarrow> bool" where
  "fits d (JArr vs) \<longleftrightarrow> d \<noteq> 0 \<and> list_all (fits (d - 1)) vs"
| "fits d (JObj kvs) \<longleftrightarrow> d \<noteq> 0 \<and> list_all (\<lambda>(k, v). fits (d - 1) v) kvs"
| "fits d _ = True"

fun json_san :: "json \<Rightarrow> json" where
  "json_san (JStr s) = JStr (sanitize s)"
| "json_san (JArr vs) = JArr (map json_san vs)"
| "json_san (JObj kvs) = JObj (map (\<lambda>(k, v). (sanitize k, json_san v)) kvs)"
| "json_san j = j"

lemma json_fmt_head:
  assumes "json_wf j"
  obtains c cs where "json_fmt sp col n j = c # cs" "\<not> is_ws c" "c \<noteq> CHR '']''" "c \<noteq> CHR ''}''"
proof (cases j)
  case (JNum t)
  then obtain c cs where "t = c # cs" "is_digit c \<or> c = CHR ''-''"
    using assms show_int_head[of "read_int t"] by auto
  moreover have "\<not> is_ws c \<and> c \<noteq> CHR '']'' \<and> c \<noteq> CHR ''}''" if "is_digit c \<or> c = CHR ''-''" for c
    using that by (auto simp: is_ws_def is_digit_def)
  ultimately show thesis using that JNum by auto
next
  case (JBool b)
  then show thesis using that by (cases b) (auto simp: is_ws_def)
next
  case (JArr vs)
  then show thesis using that by (cases "vs = []") (auto simp: is_ws_def)
next
  case (JObj kvs)
  then show thesis using that by (cases "kvs = []") (auto simp: is_ws_def)
qed (use that in \<open>auto simp: is_ws_def html_quote_def\<close>)

text \<open>\<open>parses d j x v\<close>: with any blanks in front and anything behind that ends a number, the
  parser reads \<open>x\<close> as the value \<open>v\<close>, given enough fuel.\<close>

definition parses :: "nat \<Rightarrow> string \<Rightarrow> json \<Rightarrow> bool" where
  "parses d x v \<longleftrightarrow> (\<forall>w t. blank w \<longrightarrow> num_end t \<longrightarrow> (\<exists>N. \<forall>n\<ge>N. p_val n d (w @ x @ t) = Some (v, t)))"

lemma enough_Suc: "(\<And>n. N \<le> n \<Longrightarrow> P (Suc n)) \<Longrightarrow> \<exists>N. \<forall>n\<ge>N. P n"
  by (rule exI[of _ "Suc N"]) (metis Suc_le_D Suc_le_mono)

lemma parses_leaf:
  assumes "x = c # r" "\<not> is_ws c" "\<And>n t. num_end t \<Longrightarrow> p_val (Suc n) d (x @ t) = Some (v, t)"
  shows "parses d x v"
  unfolding parses_def
proof (intro allI impI)
  fix w t assume "blank w" "num_end t"
  have skip: "skip_ws (w @ x @ t) = x @ t" "skip_ws (x @ t) = x @ t"
    using skip_blank[OF \<open>blank w\<close> assms(2)] skip_blank[of "[]" c "r @ t"] assms(1,2) by simp_all
  have "p_val (Suc m) d (w @ x @ t) = Some (v, t)" for m
  proof -
    have "p_val (Suc m) d (w @ x @ t) = p_val (Suc m) d (x @ t)" by (simp add: skip)
    then show ?thesis using assms(3)[OF \<open>num_end t\<close>] by simp
  qed
  then show "\<exists>N. \<forall>n\<ge>N. p_val n d (w @ x @ t) = Some (v, t)" by (rule enough_Suc)
qed

lemma elems_parse:
  assumes "vs \<noteq> []" "\<And>v. v \<in> set vs \<Longrightarrow> parses d (f v) (g v)" "\<And>m. blank (sp m)"
  shows "\<exists>N. \<forall>n\<ge>N. p_elems n d (join_with '','' (map (\<lambda>v. sp (Suc m) @ f v) vs) @ sp m @ CHR '']'' # t) = Some (map g vs, t)"
  using assms(1,2)
proof (induction vs rule: list_nonempty_induct)
  case (single v)
  have "num_end (sp m @ CHR '']'' # t)" using assms(3) by (intro num_end_blank) (auto simp: num_end_def is_digit_def)
  then obtain N where N: "\<forall>n\<ge>N. p_val n d (sp (Suc m) @ f v @ sp m @ CHR '']'' # t) = Some (g v, sp m @ CHR '']'' # t)"
    using single assms(3) unfolding parses_def by (metis list.set_intros(1))
  have s: "skip_ws (sp m @ CHR '']'' # t) = CHR '']'' # t" using assms(3) by (intro skip_blank) (auto simp: is_ws_def)
  have "p_elems (Suc n) d (sp (Suc m) @ f v @ sp m @ CHR '']'' # t) = Some ([g v], t)" if "N \<le> n" for n
    using N that s by simp
  then have "\<exists>N. \<forall>n\<ge>N. p_elems n d (sp (Suc m) @ f v @ sp m @ CHR '']'' # t) = Some ([g v], t)" by (rule enough_Suc)
  then show ?case by auto
next
  case (cons v vs)
  let ?r = "join_with '','' (map (\<lambda>v. sp (Suc m) @ f v) vs) @ sp m @ CHR '']'' # t"
  obtain M where M: "\<forall>n\<ge>M. p_elems n d ?r = Some (map g vs, t)" using cons by auto
  have "num_end (CHR '','' # ?r)" by (simp add: num_end_def is_digit_def)
  then obtain N where N: "\<forall>n\<ge>N. p_val n d (sp (Suc m) @ f v @ CHR '','' # ?r) = Some (g v, CHR '','' # ?r)"
    using cons.prems assms(3) unfolding parses_def by (metis list.set_intros(1))
  have s: "skip_ws (CHR '','' # ?r) = CHR '','' # ?r" using skip_blank[of "[]" "CHR '',''"] by (simp add: is_ws_def)
  have "p_elems (Suc n) d (sp (Suc m) @ f v @ CHR '','' # ?r) = Some (g v # map g vs, t)" if "max N M \<le> n" for n
    using N M that s by simp
  then have "\<exists>N. \<forall>n\<ge>N. p_elems n d (sp (Suc m) @ f v @ CHR '','' # ?r) = Some (g v # map g vs, t)"
    by (rule enough_Suc)
  then show ?case using cons.hyps(1) by (cases vs) auto
qed

lemma html_quote_string: "json_string (tl (html_quote k) @ t) = Some (sanitize k, t)"
  using json_string_quoted[of k t] by (simp add: html_quote_def)

lemma members_parse:
  assumes "kvs \<noteq> []" "\<And>k v. (k, v) \<in> set kvs \<Longrightarrow> parses d (f v) (g v)" "\<And>m. blank (sp m)" "blank w"
  shows "\<exists>N. \<forall>n\<ge>N. p_members n d (join_with '','' (map (\<lambda>(k, v). sp (Suc m) @ html_quote k @ (CHR '':'' # w) @ f v) kvs)
      @ sp m @ CHR ''}'' # t) = Some (map (\<lambda>(k, v). (sanitize k, g v)) kvs, t)"
  using assms(1,2)
proof (induction kvs rule: list_nonempty_induct)
  case (single kv)
  obtain k v where kv: "kv = (k, v)" by (cases kv)
  let ?e = "sp m @ CHR ''}'' # t"
  have "num_end ?e" using assms(3) by (intro num_end_blank) (auto simp: num_end_def is_digit_def)
  then obtain N where N: "\<forall>n\<ge>N. p_val n d (w @ f v @ ?e) = Some (g v, ?e)"
    using single assms(4) unfolding parses_def kv by (metis list.set_intros(1))
  have s: "skip_ws ?e = CHR ''}'' # t" "skip_ws (sp (Suc m) @ dquote # x) = dquote # x" "skip_ws (CHR '':'' # x) = CHR '':'' # x" for x
    using assms(3) skip_blank[of "[]" "CHR '':''" x] by (auto intro!: skip_blank simp: is_ws_def)
  have "p_members (Suc n) d (sp (Suc m) @ html_quote k @ (CHR '':'' # w) @ f v @ ?e) = Some ([(sanitize k, g v)], t)" if "N \<le> n" for n
    using N that s html_quote_string[of k "(CHR '':'' # w) @ f v @ ?e"] by (simp add: html_quote_def)
  then have "\<exists>N. \<forall>n\<ge>N. p_members n d (sp (Suc m) @ html_quote k @ (CHR '':'' # w) @ f v @ ?e) = Some ([(sanitize k, g v)], t)"
    by (rule enough_Suc)
  then show ?case using kv by auto
next
  case (cons kv kvs)
  obtain k v where kv: "kv = (k, v)" by (cases kv)
  let ?r = "join_with '','' (map (\<lambda>(k, v). sp (Suc m) @ html_quote k @ (CHR '':'' # w) @ f v) kvs) @ sp m @ CHR ''}'' # t"
  obtain M where M: "\<forall>n\<ge>M. p_members n d ?r = Some (map (\<lambda>(k, v). (sanitize k, g v)) kvs, t)"
    using cons.IH cons.prems by (meson list.set_intros(2))
  have "num_end (CHR '','' # ?r)" by (simp add: num_end_def is_digit_def)
  then obtain N where N: "\<forall>n\<ge>N. p_val n d (w @ f v @ CHR '','' # ?r) = Some (g v, CHR '','' # ?r)"
    using cons.prems assms(4) unfolding parses_def kv by (metis list.set_intros(1))
  have s: "skip_ws (sp (Suc m) @ dquote # x) = dquote # x" "skip_ws (CHR '':'' # x) = CHR '':'' # x" "skip_ws (CHR '','' # x) = CHR '','' # x" for x
    using assms(3) skip_blank[of "[]" "CHR '':''" x] skip_blank[of "[]" "CHR '',''" x] by (auto intro!: skip_blank simp: is_ws_def)
  have "p_members (Suc n) d (sp (Suc m) @ html_quote k @ (CHR '':'' # w) @ f v @ CHR '','' # ?r)
      = Some ((sanitize k, g v) # map (\<lambda>(k, v). (sanitize k, g v)) kvs, t)" if "max N M \<le> n" for n
    using N M that s html_quote_string[of k "(CHR '':'' # w) @ f v @ CHR '','' # ?r"] by (simp add: html_quote_def)
  then have "\<exists>N. \<forall>n\<ge>N. p_members n d (sp (Suc m) @ html_quote k @ (CHR '':'' # w) @ f v @ CHR '','' # ?r)
      = Some ((sanitize k, g v) # map (\<lambda>(k, v). (sanitize k, g v)) kvs, t)"
    by (rule enough_Suc)
  then show ?case using cons.hyps(1) kv by (cases kvs) auto
qed

text \<open>The parser on what each constructor prints.\<close>

lemma parses_number: "parses d (show_int i) (JNum (show_int i))"
proof -
  obtain c cs where x: "show_int i = c # cs" "is_digit c \<or> c = CHR ''-''"
    using show_int_head[of i] by auto
  have c: "\<not> is_ws c" "c \<noteq> dquote" "c \<noteq> CHR ''{''" "c \<noteq> CHR ''[''" "c \<noteq> CHR ''n''" "c \<noteq> CHR ''t''" "c \<noteq> CHR ''f''"
    using x(2) by (auto simp: is_ws_def is_digit_def)
  have n: "json_number (c # cs @ t) = Some (c # cs, t)" if "num_end t" for t
    using json_number_show[OF that, of i] x(1) by simp
  have "skip_ws (c # cs @ t) = c # cs @ t" for t using skip_blank[of "[]" c] c(1) by simp
  then show ?thesis
    unfolding x(1) using n c by (intro parses_leaf[OF refl c(1)]) simp
qed

lemma parses_string: "parses d (html_quote s) (JStr (sanitize s))"
proof -
  have q: "html_quote s = dquote # tl (html_quote s)" by (simp add: html_quote_def)
  have "skip_ws (dquote # t) = dquote # t" for t using skip_blank[of "[]" dquote] by (simp add: is_ws_def)
  then have "p_val (Suc n) d (html_quote s @ t) = Some (JStr (sanitize s), t)" for n t
    using html_quote_string[of s t] by (subst q) simp
  then show ?thesis using q by (auto intro!: parses_leaf simp: is_ws_def)
qed

lemma parses_array:
  assumes sp: "\<And>m. blank (sp m)" and vs: "vs \<noteq> []" "\<And>v. v \<in> set vs \<Longrightarrow> parses (d - 1) (f v) (g v)" and d: "d \<noteq> 0"
    and hd: "\<And>v. v \<in> set vs \<Longrightarrow> \<exists>c cs. f v = c # cs \<and> \<not> is_ws c \<and> c \<noteq> CHR '']''"
  shows "parses d (''['' @ join_with '','' (map (\<lambda>v. sp (Suc m) @ f v) vs) @ sp m @ '']'') (JArr (map g vs))"
  unfolding parses_def
proof (intro allI impI)
  fix u t
  assume u: "blank u" and t: "num_end t"
  let ?b = "join_with '','' (map (\<lambda>v. sp (Suc m) @ f v) vs) @ sp m"
  obtain v vs' where v: "vs = v # vs'" using vs(1) by (cases vs) auto
  obtain c cs where c: "f v = c # cs" "\<not> is_ws c" "c \<noteq> CHR '']''" using hd[of v] v by auto
  have first: "take 1 (skip_ws (?b @ CHR '']'' # t)) \<noteq> '']''"
    using skip_blank[OF sp c(2)] c(1,3) v by (cases vs') simp_all
  obtain N where N: "\<forall>n\<ge>N. p_elems n (d - 1) (?b @ CHR '']'' # t) = Some (map g vs, t)"
    using elems_parse[where f = f and g = g and d = "d - 1" and sp = sp and m = m and t = t, OF vs sp] by auto
  have s: "skip_ws (u @ CHR ''['' # x) = CHR ''['' # x" for x
    using u by (intro skip_blank) (auto simp: is_ws_def)
  have "\<exists>N. \<forall>n\<ge>N. p_val n d (u @ CHR ''['' # ?b @ CHR '']'' # t) = Some (JArr (map g vs), t)"
    by (rule enough_Suc[of N]) (use N first s d in simp)
  then show "\<exists>N. \<forall>n\<ge>N. p_val n d (u @ (''['' @ join_with '','' (map (\<lambda>v. sp (Suc m) @ f v) vs) @ sp m @ '']'') @ t)
    = Some (JArr (map g vs), t)" by simp
qed

lemma parses_object:
  assumes sp: "\<And>m. blank (sp m)" and w: "blank w" and d: "d \<noteq> 0"
    and kvs: "kvs \<noteq> []" "\<And>k v. (k, v) \<in> set kvs \<Longrightarrow> parses (d - 1) (f v) (g v)"
  shows "parses d (''{'' @ join_with '','' (map (\<lambda>(k, v). sp (Suc m) @ html_quote k @ (CHR '':'' # w) @ f v) kvs) @ sp m @ ''}'')
    (JObj (map (\<lambda>(k, v). (sanitize k, g v)) kvs))"
  unfolding parses_def
proof (intro allI impI)
  fix u t
  assume u: "blank u" and t: "num_end t"
  let ?b = "join_with '','' (map (\<lambda>(k, v). sp (Suc m) @ html_quote k @ (CHR '':'' # w) @ f v) kvs) @ sp m"
    and ?r = "map (\<lambda>(k, v). (sanitize k, g v)) kvs"
  obtain k v kvs' where v: "kvs = (k, v) # kvs'" using kvs(1) by (cases kvs) auto
  have first: "take 1 (skip_ws (?b @ CHR ''}'' # t)) \<noteq> ''}''"
    using skip_blank[OF sp, of dquote] v by (cases kvs') (simp_all add: html_quote_def is_ws_def)
  have "\<exists>N. \<forall>n\<ge>N. p_members n (d - 1) (join_with '',''
      (map (\<lambda>(k, v). sp (Suc m) @ html_quote k @ (CHR '':'' # w) @ f v) kvs) @ sp m @ CHR ''}'' # t) = Some (?r, t)"
    by (rule members_parse) (use kvs sp w in auto)
  then obtain N where N: "\<forall>n\<ge>N. p_members n (d - 1) (?b @ CHR ''}'' # t) = Some (?r, t)" by auto
  have s: "skip_ws (u @ CHR ''{'' # x) = CHR ''{'' # x" for x
    using u by (intro skip_blank) (auto simp: is_ws_def)
  have "\<exists>N. \<forall>n\<ge>N. p_val n d (u @ CHR ''{'' # ?b @ CHR ''}'' # t) = Some (JObj ?r, t)"
    by (rule enough_Suc[of N]) (use N first s d in simp)
  then show "\<exists>N. \<forall>n\<ge>N. p_val n d (u @ (''{'' @ join_with '',''
      (map (\<lambda>(k, v). sp (Suc m) @ html_quote k @ (CHR '':'' # w) @ f v) kvs) @ sp m @ ''}'') @ t) = Some (JObj ?r, t)" by simp
qed

lemma json_fmt_parses:
  assumes sp: "\<And>m. blank (sp m)" and col: "col = CHR '':'' # w" "blank w"
  shows "json_wf j \<Longrightarrow> fits d j \<Longrightarrow> parses d (json_fmt sp col m j) (json_san j)"
proof (induction j arbitrary: d m)
  case (JNum x)
  then show ?case using parses_number[of d "read_int x"] by simp
next
  case (JStr s)
  then show ?case by (simp add: parses_string)
next
  case (JArr vs)
  have "\<exists>c cs. json_fmt sp col (Suc m) v = c # cs \<and> \<not> is_ws c \<and> c \<noteq> CHR '']''" if "v \<in> set vs" for v
  proof -
    have "json_wf v" using JArr.prems that by (simp add: list_all_iff)
    then show ?thesis by (rule json_fmt_head) blast
  qed
  moreover have "parses (d - 1) (json_fmt sp col (Suc m) v) (json_san v)" if "v \<in> set vs" for v
    using JArr that by (auto simp: list_all_iff)
  ultimately have "vs \<noteq> [] \<Longrightarrow> ?case"
    using parses_array[where f = "json_fmt sp col (Suc m)" and g = json_san and sp = sp, OF sp] JArr.prems by simp
  then show ?case
    using JArr.prems by (cases "vs = []") (auto intro!: parses_leaf simp: is_ws_def skip_ws_def)
next
  case (JObj kvs)
  have "parses (d - 1) (json_fmt sp col (Suc m) v) (json_san v)" if "(k, v) \<in> set kvs" for k v
    using JObj.IH[OF that, of v "d - 1" "Suc m"] JObj.prems that by (fastforce simp: list_all_iff)
  then have "kvs \<noteq> [] \<Longrightarrow> ?case"
    using parses_object[where f = "json_fmt sp col (Suc m)" and g = json_san and sp = sp, OF sp col(2)] JObj.prems
    by (simp add: col(1))
  then show ?case
    using JObj.prems by (cases "kvs = []") (auto intro!: parses_leaf simp: is_ws_def skip_ws_def)
qed (auto intro!: parses_leaf simp: is_ws_def skip_ws_def json_literal_def)

lemma json_parse_fmt:
  assumes "\<And>m. blank (sp m)" "col = CHR '':'' # w" "blank w" "json_wf j" "fits 10000 j" "blank t"
  shows "json_parse (json_fmt sp col 0 j @ t) = Some (json_san j)"
proof -
  let ?s = "json_fmt sp col 0 j @ t"
  have "num_end t" using num_end_blank[OF assms(6), of "[]"] by (simp add: num_end_def)
  moreover have "parses 10000 (json_fmt sp col 0 j) (json_san j)"
    using assms(1-3) by (rule json_fmt_parses[OF _ _ _ assms(4,5)])
  moreover have "blank []" by simp
  ultimately obtain N where "\<forall>n\<ge>N. p_val n 10000 ([] @ ?s) = Some (json_san j, t)"
    unfolding parses_def by blast
  then have "p_val (max N (json_fuel ?s)) 10000 ?s = Some (json_san j, t)" by simp
  then have "p_val (json_fuel ?s) 10000 ?s = Some (json_san j, t)"
    using fuel_enough[of ?s "max N (json_fuel ?s)"] by simp
  then show ?thesis using skip_all_blank[OF assms(6)] by (simp add: json_parse_def)
qed

lemma json_parse_Marshal: "json_wf j \<Longrightarrow> fits 10000 j \<Longrightarrow> json_parse (json_Marshal j) = Some (json_san j)"
  using json_parse_fmt[of "\<lambda>_. []" "'':''" "[]" j "[]"] by (simp add: json_Marshal_def)

lemma json_parse_MarshalIndent:
  "json_wf j \<Longrightarrow> fits 10000 j \<Longrightarrow> json_parse (json_MarshalIndent j @ [CHR 0x0A]) = Some (json_san j)"
  using json_parse_fmt[of "\<lambda>n. CHR 0x0A # replicate (2 * n) CHR '' ''" "'': ''" "'' ''" j "[CHR 0x0A]"]
  by (simp add: json_MarshalIndent_def is_ws_def list_all_iff)

subsection \<open>Decoding into a struct\<close>

text \<open>
  A struct is decoded field by field: each field has a name and a setter, which reports a type
  error and leaves the struct alone, or returns the struct updated. \<^verbatim>\<open>null\<close> leaves a
  scalar as it is and empties a slice or a map. A member goes to the field of its exact name, else
  to the first whose name differs in case only; unknown members are skipped. The first type error
  is the one returned, after the whole document has been decoded.
\<close>

type_synonym 's setter = "'s \<Rightarrow> json \<Rightarrow> goerr option \<times> 's"

definition type_error :: goerr where
  "type_error = ErrNew ''json: cannot unmarshal value into Go struct field''"

definition syntax_error :: goerr where
  "syntax_error = ErrNew ''json: invalid syntax''"

definition set_string :: "(string \<Rightarrow> 's \<Rightarrow> 's) \<Rightarrow> 's setter" where
  "set_string upd st j = (case j of JStr s \<Rightarrow> (None, upd s st) | JNull \<Rightarrow> (None, st) | _ \<Rightarrow> (Some type_error, st))"

definition set_bool :: "(bool \<Rightarrow> 's \<Rightarrow> 's) \<Rightarrow> 's setter" where
  "set_bool upd st j = (case j of JBool b \<Rightarrow> (None, upd b st) | JNull \<Rightarrow> (None, st) | _ \<Rightarrow> (Some type_error, st))"

text \<open>\<^verbatim>\<open>strconv.ParseInt(s, 10, 64)\<close> on a number literal.\<close>

definition parse_int64 :: "string \<Rightarrow> int option" where
  "parse_int64 t =
     (let ds = (if take 1 t = ''-'' then drop 1 t else t); i = read_int t in
      if ds \<noteq> [] \<and> list_all is_digit ds \<and> in_int64 i then Some i else None)"

definition set_int :: "(int \<Rightarrow> 's \<Rightarrow> 's) \<Rightarrow> 's setter" where
  "set_int upd st j =
     (case j of
        JNum t \<Rightarrow> (case parse_int64 t of Some i \<Rightarrow> (None, upd i st) | None \<Rightarrow> (Some type_error, st))
      | JNull \<Rightarrow> (None, st)
      | _ \<Rightarrow> (Some type_error, st))"

definition or_first :: "goerr option \<Rightarrow> goerr option \<Rightarrow> goerr option" where
  "or_first e e' = (case e of None \<Rightarrow> e' | Some _ \<Rightarrow> e)"

text \<open>The elements of an array go into the slots of the slice that is there, then into new ones.\<close>

fun dec_elems :: "string list \<Rightarrow> json list \<Rightarrow> goerr option \<times> string list" where
  "dec_elems old [] = (None, [])"
| "dec_elems old (j # js) =
     (let prev = (case old of [] \<Rightarrow> [] | x # _ \<Rightarrow> x);
          (e, v) = set_string (\<lambda>s _. s) prev j;
          (e', vs) = dec_elems (drop 1 old) js
      in (or_first e e', v # vs))"

definition set_strings :: "('s \<Rightarrow> string list) \<Rightarrow> (string list \<Rightarrow> 's \<Rightarrow> 's) \<Rightarrow> 's setter" where
  "set_strings get upd st j =
     (case j of
        JArr js \<Rightarrow> (case dec_elems (get st) js of (e, vs) \<Rightarrow> (e, upd vs st))
      | JNull \<Rightarrow> (None, upd [] st)
      | _ \<Rightarrow> (Some type_error, st))"

definition set_string_map ::
  "('s \<Rightarrow> (string \<times> string) list) \<Rightarrow> ((string \<times> string) list \<Rightarrow> 's \<Rightarrow> 's) \<Rightarrow> 's setter" where
  "set_string_map get upd st j =
     (case j of
        JObj kvs \<Rightarrow>
          (case foldl (\<lambda>(e, m) (k, v). case set_string (\<lambda>s _. s) [] v of (e', s) \<Rightarrow> (or_first e e', AList.update k s m))
                  (None, get st) kvs of
             (e, m) \<Rightarrow> (e, upd m st))
      | JNull \<Rightarrow> (None, upd [] st)
      | _ \<Rightarrow> (Some type_error, st))"

definition find_field :: "unicode \<Rightarrow> (string \<times> 's setter) list \<Rightarrow> string \<Rightarrow> 's setter option" where
  "find_field U fds k =
     (case map_of fds k of
        Some f \<Rightarrow> Some f
      | None \<Rightarrow> map_option snd (find (\<lambda>(name, f). equal_fold U name k) fds))"

definition set_member :: "unicode \<Rightarrow> (string \<times> 's setter) list \<Rightarrow> goerr option \<times> 's \<Rightarrow> string \<times> json \<Rightarrow> goerr option \<times> 's" where
  "set_member U fds = (\<lambda>(e, st) (k, j).
     (case find_field U fds k of
        None \<Rightarrow> (e, st)
      | Some f \<Rightarrow> (case f st j of (e', st') \<Rightarrow> (or_first e e', st'))))"

definition json_into :: "unicode \<Rightarrow> (string \<times> 's setter) list \<Rightarrow> 's setter" where
  "json_into U fds st j =
     (case j of
        JObj kvs \<Rightarrow> foldl (set_member U fds) (None, st) kvs
      | JNull \<Rightarrow> (None, st)
      | _ \<Rightarrow> (Some type_error, st))"

definition json_Unmarshal :: "unicode \<Rightarrow> (string \<times> 's setter) list \<Rightarrow> string \<Rightarrow> 's \<Rightarrow> 's res" where
  "json_Unmarshal U fds s st =
     (case json_parse s of
        None \<Rightarrow> Inl syntax_error
      | Some j \<Rightarrow> (case json_into U fds st j of (Some e, _) \<Rightarrow> Inl e | (None, st') \<Rightarrow> Inr st'))"

text \<open>Encoding parts of a struct: \<^verbatim>\<open>omitempty\<close> fields, and a map with its keys in order.\<close>

definition json_strings :: "string list \<Rightarrow> json" where
  "json_strings xs = JArr (map JStr xs)"

definition omit_string :: "string \<Rightarrow> string \<Rightarrow> (string \<times> json) list" where
  "omit_string k s = (if s = [] then [] else [(k, JStr s)])"

definition omit_strings :: "string \<Rightarrow> string list \<Rightarrow> (string \<times> json) list" where
  "omit_strings k xs = (if xs = [] then [] else [(k, json_strings xs)])"

definition json_map :: "(string \<times> json) list \<Rightarrow> json" where
  "json_map m = JObj (sort_key fst m)"

lemma dec_elems_strings: "dec_elems old (map JStr xs) = (None, xs)"
  by (induction xs arbitrary: old) (simp_all add: set_string_def or_first_def)

lemma parse_int64_show: "in_int64 i \<Longrightarrow> parse_int64 (show_int i) = Some i"
proof (cases i rule: show_int_cases)
  case (nonneg n)
  assume i: "in_int64 i"
  have "take 1 (show_nat n) \<noteq> ''-''"
    using show_nat_digits[of n] by (cases "show_nat n") (auto simp: is_digit_def)
  then have "take 1 (show_int i) \<noteq> ''-''" "show_int i \<noteq> []" "list_all is_digit (show_int i)"
    using show_nat_digits[of n] by (simp_all add: nonneg(2))
  with i read_show_int[of i] show ?thesis by (simp add: parse_int64_def Let_def)
next
  case (neg n)
  assume i: "in_int64 i"
  have "take 1 (show_int i) = ''-''" "drop 1 (show_int i) \<noteq> []" "list_all is_digit (drop 1 (show_int i))"
    using show_nat_digits[of n] by (simp_all add: neg(3))
  with i read_show_int[of i] show ?thesis by (simp add: parse_int64_def Let_def)
qed

lemma json_wf_strings [simp]: "json_wf (json_strings xs)" "json_san (json_strings xs) = json_strings (map sanitize xs)"
  by (simp_all add: json_strings_def list_all_iff)

lemma json_wf_num [simp]: "json_wf (JNum (show_int i))"
  using read_show_int[of i] by simp

lemma sanitize_ascii: "is_ascii s \<Longrightarrow> sanitize s = s"
  by (simp add: sanitize_valid is_ascii_utf8_valid)

lemma sanitize_empty [simp]: "sanitize s = [] \<longleftrightarrow> s = []"
proof
  assume "sanitize s = []"
  then have "\<forall>p \<in> set (utf8_runes s). (if is_rune p then p else rune_error) = []" by (auto simp: sanitize_def)
  then have "utf8_runes s = []" by (cases "utf8_runes s") (auto simp: is_rune_def rune_error_def split: if_splits)
  then show "s = []" using concat_utf8_runes[of s] by simp
qed (simp add: sanitize_def)

text \<open>A compact document is one line.\<close>

lemma html_piece_line: "is_rune p \<or> length p = 1 \<Longrightarrow> CHR 0x0A \<notin> set (html_piece p)"
proof (cases "is_rune p")
  case True
  have hex: "CHR 0x0A \<notin> set (hex_byte a)" for a
  proof -
    have "list_all is_lower_hex (hex_byte a)" using hex_encode_lower[of "[a]"] by (simp add: hex_encode_def)
    then have "set (hex_byte a) \<subseteq> set hex_digits" unfolding list_all_iff is_lower_hex_def by blast
    moreover have "CHR 0x0A \<notin> set hex_digits" by (simp add: hex_digits_def)
    ultimately show ?thesis by blast
  qed
  show ?thesis
  proof (cases rule: is_rune_cases[OF True])
    case (1 a)
    then show ?thesis using True hex[of a]
      by (auto simp: html_piece_def go_piece_def json_esc_def rawLineSeparator_def rawParagraphSeparator_def)
  next
    case 2
    then have "CHR 0x0A \<notin> set p" by (auto simp: list_all_iff oct_in_def)
    with 2 True show ?thesis by (cases p; cases "tl p") (auto simp: html_piece_def go_piece_def)
  qed
qed (auto simp: html_piece_def go_piece_def replacement_esc_def)

lemma html_quote_line: "CHR 0x0A \<notin> set (html_quote s)"
  using html_piece_line utf8_runes_pieces[of s] by (fastforce simp: html_quote_def list_all_iff)

lemma set_join_with: "set (join_with sep ws) \<subseteq> set sep \<union> (\<Union>w\<in>set ws. set w)"
  by (induction sep ws rule: join_with.induct) auto

lemma show_int_line: "CHR 0x0A \<notin> set (show_int i)"
proof -
  have "CHR 0x0A \<notin> set (show_nat n)" for n
    using show_nat_digits[of n] by (auto simp: list_all_iff is_digit_def)
  then show ?thesis by (auto simp: show_int_def)
qed

lemma json_Marshal_line: "json_wf j \<Longrightarrow> CHR 0x0A \<notin> set (json_Marshal j)"
proof -
  have "json_wf j \<Longrightarrow> CHR 0x0A \<notin> set (json_fmt (\<lambda>_. []) '':'' n j)" for n
  proof (induction j arbitrary: n)
    case (JNum t)
    then show ?case using show_int_line[of "read_int t"] by simp
  next
    case (JArr vs)
    then have "CHR 0x0A \<notin> set (json_fmt (\<lambda>_. []) '':'' (Suc n) v)" if "v \<in> set vs" for v
      using that by (simp add: list_all_iff)
    then show ?case
      using set_join_with[of "'',''" "map (json_fmt (\<lambda>_. []) '':'' (Suc n)) vs"] by auto
  next
    case (JObj kvs)
    have "CHR 0x0A \<notin> set (html_quote k @ '':'' @ json_fmt (\<lambda>_. []) '':'' (Suc n) v)" if "(k, v) \<in> set kvs" for k v
      using JObj.IH[OF that, of v] JObj.prems that html_quote_line[of k] by (auto simp: list_all_iff)
    then have "CHR 0x0A \<notin> set (join_with '','' (map (\<lambda>(k, v). html_quote k @ '':'' @ json_fmt (\<lambda>_. []) '':'' (Suc n) v) kvs))"
      using set_join_with[of "'',''" "map (\<lambda>(k, v). html_quote k @ '':'' @ json_fmt (\<lambda>_. []) '':'' (Suc n) v) kvs"]
      by force
    then show ?case by auto
  qed (auto simp: html_quote_line)
  then show "json_wf j \<Longrightarrow> CHR 0x0A \<notin> set (json_Marshal j)" by (simp add: json_Marshal_def)
qed

end
