(* ===== verification/Cli_Names.thy ===== *)
theory Cli_Names
  imports Session
begin

section \<open>Command names, shims and the PATH (cmd/xrr: platform.go, config.go)\<close>

text \<open>
  \<^verbatim>\<open>xrr run\<close> puts one copy of itself per configured command into a directory and
  prepends it to the PATH. This theory holds how a configured command is identified
  (\<open>cassetteName\<close>), the file its shim gets, how a shim finds out which command it stands
  for, how a real binary is looked up, and how an environment is changed. The operating system is
  an argument: its name (\<^verbatim>\<open>runtime.GOOS\<close>), and the file tests the code makes; paths
  are those of Unix. Messages name their arguments without the quoting of \<^verbatim>\<open>%q\<close>.
\<close>

subsection \<open>Lists of names\<close>

definition contains :: "string list \<Rightarrow> string \<Rightarrow> bool" where
  "contains s v = list_ex (\<lambda>x. x = v) s"

text \<open>\<^verbatim>\<open>listFlag.Set\<close>: the list after one more occurrence of the flag.\<close>

definition listFlag_Set :: "string list \<Rightarrow> string \<Rightarrow> string list" where
  "listFlag_Set l v =
     foldl (\<lambda>l p. let p = trim_space p in if p = [] \<or> contains l p then l else l @ [p]) l (split_on CHR '','' v)"

definition validCommandName :: "string \<Rightarrow> goerr option" where
  "validCommandName n =
     (if n = [] \<or> n = ''.'' \<or> n = ''..'' then Some (ErrNew ''invalid command name'')
      else if list_ex (\<lambda>c. c \<in> set [CHR ''/'', CHR 0x5C, CHR 0x00, CHR 0x20, CHR 0x09, CHR 0x0A]) n
      then Some (ErrNew ''command name must be a bare name (no path separators or spaces)'')
      else None)"

definition defaultDeny :: "string list" where
  "defaultDeny =
     [''open'', ''xdg-open'', ''wslview'', ''explorer.exe'', ''start'',
      ''sendmail'', ''mail'', ''osascript'', ''say'', ''pbcopy'', ''notify-send'',
      ''rundll32.exe'', ''mshta.exe'', ''clip.exe'', ''msg.exe'', ''wscript.exe'', ''cscript.exe'']"

subsection \<open>The identity of a command\<close>

definition isWindows :: "string \<Rightarrow> bool" where
  "isWindows goos \<longleftrightarrow> goos = ''windows''"

definition exeExts :: "string list" where
  "exeExts = [''.exe'', ''.com'', ''.bat'', ''.cmd'']"

definition cassetteName :: "unicode \<Rightarrow> string \<Rightarrow> string" where
  "cassetteName U name =
     (let n = to_lower U name in
      case find (\<lambda>e. suffix e n \<and> length e < length n) exeExts of
        Some e \<Rightarrow> trim_suffix e n
      | None \<Rightarrow> n)"

definition shimFileName :: "unicode \<Rightarrow> string \<Rightarrow> string \<Rightarrow> string" where
  "shimFileName U name goos =
     (if isWindows goos \<and> \<not> suffix ''.exe'' (to_lower U name) then name @ ''.exe'' else name)"

definition inNames :: "unicode \<Rightarrow> string list \<Rightarrow> string \<Rightarrow> bool" where
  "inNames U lst name = (let c = cassetteName U name in list_ex (\<lambda>x. cassetteName U x = c) lst)"

text \<open>
  \<open>checkCollisions\<close> walks both lists with a map from cassette names to the entry and the
  list they were last seen in.
\<close>

type_synonym seen_names = "string \<rightharpoonup> string \<times> string"

fun collide :: "unicode \<Rightarrow> string \<Rightarrow> string list \<Rightarrow> seen_names \<Rightarrow> goerr option \<times> seen_names" where
  "collide U l [] byName = (None, byName)"
| "collide U l (e # es) byName =
     (let c = cassetteName U e in
      case byName c of
        Some prev \<Rightarrow>
          if prev \<noteq> (e, l)
          then (Some (ErrNew (snd prev @ '' '' @ fst prev @ '' and '' @ l @ '' '' @ e @ '' are the same command '' @ c)), byName)
          else collide U l es (byName(c \<mapsto> (e, l)))
      | None \<Rightarrow> collide U l es (byName(c \<mapsto> (e, l))))"

definition checkCollisions :: "unicode \<Rightarrow> string list \<Rightarrow> string list \<Rightarrow> goerr option" where
  "checkCollisions U shim dny =
     (case collide U ''shim'' shim Map.empty of
        (Some e, _) \<Rightarrow> Some e
      | (None, byName) \<Rightarrow> fst (collide U ''deny'' dny byName))"

text \<open>
  \<^verbatim>\<open>runConfig.cmdFor\<close>. The map \<^verbatim>\<open>Cmds\<close> is given by its entries in
  the order in which a \<^verbatim>\<open>range\<close> over it happens to visit them.
\<close>

definition cmdFor :: "unicode \<Rightarrow> (string \<times> string) list \<Rightarrow> string \<Rightarrow> string \<Rightarrow> string" where
  "cmdFor U cmds file goos =
     (case map_of cmds file of
        Some n \<Rightarrow> n
      | None \<Rightarrow>
          if isWindows goos
          then (case find (\<lambda>(f, n). equal_fold U f file) cmds of Some (f, n) \<Rightarrow> n | None \<Rightarrow> file)
          else file)"

subsection \<open>Paths and environments\<close>

text \<open>\<^verbatim>\<open>filepath.Dir\<close> and \<^verbatim>\<open>filepath.Base\<close> on Unix.\<close>

definition path_Dir :: "string \<Rightarrow> string" where
  "path_Dir p = (case last_index slash p of None \<Rightarrow> path_Clean [] | Some i \<Rightarrow> path_Clean (take (Suc i) p))"

definition path_Base :: "string \<Rightarrow> string" where
  "path_Base p =
     (if p = [] then ''.''
      else let q = rev (dropWhile (\<lambda>c. c = slash) (rev p));
               b = (case last_index slash q of None \<Rightarrow> q | Some i \<Rightarrow> drop (Suc i) q)
           in if b = [] then ''/'' else b)"

definition runDirPrefix :: string where "runDirPrefix = ''xrr-run-''"
definition runDirEnv :: string where "runDirEnv = ''XRR_RUN_DIR''"
definition configFile :: string where "configFile = ''config.json''"
definition binSubdir :: string where "binSubdir = ''bin''"

text \<open>\<open>is_file p\<close>: \<^verbatim>\<open>os.Stat(p)\<close> succeeds and is not a directory.\<close>

definition shimIdentity :: "(string \<Rightarrow> bool) \<Rightarrow> string \<Rightarrow> (string \<times> string) option" where
  "shimIdentity is_file exe =
     (let dir = path_Dir exe in
      if path_Base dir \<noteq> binSubdir then None
      else let runDir = path_Dir dir in
        if \<not> prefix runDirPrefix (path_Base runDir) then None
        else if \<not> is_file (path_Join runDir configFile) then None
        else Some (runDir, path_Base exe))"

text \<open>
  \<open>installShims\<close>: the links made, each from a source to a destination, up to the first
  failure. \<open>link src dst\<close> is the outcome of \<^verbatim>\<open>linkOrCopy\<close>.
\<close>

fun install_loop ::
  "unicode \<Rightarrow> string \<Rightarrow> (string \<Rightarrow> string \<Rightarrow> goerr option) \<Rightarrow> string \<Rightarrow> string list \<Rightarrow> string list \<Rightarrow> bool \<Rightarrow> string
   \<Rightarrow> goerr option \<times> (string \<times> string) list" where
  "install_loop U binDir link goos [] seen first src = (None, [])"
| "install_loop U binDir link goos (n # ns) seen first src =
     (let f = shimFileName U n goos; key = (if isWindows goos then to_lower U f else f) in
      if key \<in> set seen then install_loop U binDir link goos ns seen first src
      else let dst = path_Join binDir f in
        case link src dst of
          Some e \<Rightarrow> (Some e, [])
        | None \<Rightarrow>
            (case install_loop U binDir link goos ns (key # seen) False (if first then dst else src) of
               (r, made) \<Rightarrow> (r, (src, dst) # made)))"

definition installShims ::
  "unicode \<Rightarrow> (string \<Rightarrow> string option) \<Rightarrow> (string \<Rightarrow> string \<Rightarrow> goerr option) \<Rightarrow> string \<Rightarrow> string \<Rightarrow> string list \<Rightarrow> string
   \<Rightarrow> goerr option \<times> (string \<times> string) list" where
  "installShims U evalSymlinks link binDir self names goos =
     (let src = (case evalSymlinks self of Some r \<Rightarrow> r | None \<Rightarrow> self)
      in install_loop U binDir link goos names [] True src)"

definition defaultPathExt :: string where
  "defaultPathExt = ''.COM;.EXE;.BAT;.CMD''"

text \<open>\<^verbatim>\<open>filepath.Ext\<close>: the suffix from the last dot of the last component.\<close>

definition path_Ext :: "string \<Rightarrow> string" where
  "path_Ext p =
     (let b = (case last_index slash p of None \<Rightarrow> p | Some i \<Rightarrow> drop (Suc i) p)
      in case last_index CHR ''.'' b of None \<Rightarrow> [] | Some i \<Rightarrow> drop i b)"

text \<open>\<^verbatim>\<open>filepath.SplitList\<close> with the separator of Unix.\<close>

definition SplitList :: "string \<Rightarrow> string list" where
  "SplitList p = (if p = [] then [] else split_on CHR '':'' p)"

definition path_exts :: "string \<Rightarrow> string \<Rightarrow> string \<Rightarrow> string list" where
  "path_exts name goos pathext =
     (if isWindows goos
      then (if path_Ext name = [] then [] else [[]])
        @ filter (\<lambda>e. e \<noteq> []) (map trim_space (split_on CHR '';'' (if pathext = [] then defaultPathExt else pathext)))
      else [[]])"

text \<open>\<open>runnable p\<close>: a file that is not a directory and, outside Windows, has an execute bit.\<close>

definition lookPathIn ::
  "(string \<Rightarrow> bool) \<Rightarrow> string \<Rightarrow> string \<Rightarrow> string \<Rightarrow> string \<Rightarrow> string option" where
  "lookPathIn runnable name pathVar goos pathext =
     (let exts = path_exts name goos pathext;
          cands = concat (map (\<lambda>d. map (\<lambda>e. path_Join (if d = [] then ''.'' else d) (name @ e)) exts) (SplitList pathVar))
      in find runnable cands)"

definition env_name :: "string \<Rightarrow> string" where
  "env_name e = (case cut_at CHR ''='' e of Some (k, _) \<Rightarrow> k | None \<Rightarrow> e)"

definition withEnvOS :: "unicode \<Rightarrow> string list \<Rightarrow> string \<Rightarrow> string \<Rightarrow> string \<Rightarrow> string list" where
  "withEnvOS U env key val goos =
     filter (\<lambda>e. \<not> (env_name e = key \<or> isWindows goos \<and> equal_fold U (env_name e) key)) env @ [key @ ''='' @ val]"

subsection \<open>Collisions\<close>

text \<open>Two lists of commands without a collision: entries of equal cassette name are one entry of
  one list.\<close>

definition distinct_commands :: "unicode \<Rightarrow> string list \<Rightarrow> string list \<Rightarrow> bool" where
  "distinct_commands U xs ys \<longleftrightarrow>
     inj_on (cassetteName U) (set xs) \<and> inj_on (cassetteName U) (set ys)
     \<and> cassetteName U ` set xs \<inter> cassetteName U ` set ys = {}"

definition seen_after :: "unicode \<Rightarrow> string \<Rightarrow> string list \<Rightarrow> seen_names \<Rightarrow> string \<Rightarrow> string \<times> string \<Rightarrow> bool" where
  "seen_after U l es byName c x \<longleftrightarrow> byName c = Some x \<or> (\<exists>e \<in> set es. c = cassetteName U e \<and> x = (e, l))"

lemma collide_None:
  "collide U l es byName = (None, m) \<Longrightarrow>
   (\<forall>e \<in> set es. \<forall>x. byName (cassetteName U e) = Some x \<longrightarrow> x = (e, l)) \<and> inj_on (cassetteName U) (set es)
   \<and> (\<forall>c x. m c = Some x \<longleftrightarrow> seen_after U l es byName c x)"
proof (induction es arbitrary: byName m)
  case (Cons e es)
  let ?c = "cassetteName U e" and ?b = "byName(cassetteName U e \<mapsto> (e, l))"
  have old: "x = (e, l)" if "byName ?c = Some x" for x
    using Cons.prems that by (auto simp: Let_def split: if_splits)
  then have run: "collide U l es ?b = (None, m)"
    using Cons.prems by (auto simp: Let_def split: option.splits if_splits)
  note IH = Cons.IH[OF run]
  have same: "f = e" if "f \<in> set es" "cassetteName U f = ?c" for f
    using IH that by (auto split: if_splits)
  have "inj_on (cassetteName U) (set (e # es))"
    using IH[THEN conjunct2, THEN conjunct1] same unfolding list.set inj_on_insert by fastforce
  moreover have "x = (f, l)" if "f \<in> set (e # es)" "byName (cassetteName U f) = Some x" for f x
  proof (cases "cassetteName U f = ?c")
    case True
    then show ?thesis using that old same[of f] by auto
  next
    case False
    then show ?thesis using that bspec[OF conjunct1[OF IH], of f] by auto
  qed
  moreover have "\<forall>c x. m c = Some x \<longleftrightarrow> seen_after U l (e # es) byName c x"
  proof (intro allI)
    fix c x
    have "seen_after U l es ?b c x \<longleftrightarrow> seen_after U l (e # es) byName c x"
      using old[of x] same by (cases "c = ?c") (auto simp: seen_after_def)
    then show "m c = Some x \<longleftrightarrow> seen_after U l (e # es) byName c x"
      using IH by blast
  qed
  ultimately show ?case by blast
qed (auto simp: seen_after_def)

lemma collide_ok:
  "(\<forall>e \<in> set es. \<forall>x. byName (cassetteName U e) = Some x \<longrightarrow> x = (e, l)) \<Longrightarrow> inj_on (cassetteName U) (set es)
   \<Longrightarrow> fst (collide U l es byName) = None"
proof (induction es arbitrary: byName)
  case (Cons e es)
  let ?b = "byName(cassetteName U e \<mapsto> (e, l))"
  have "fst (collide U l es ?b) = None"
    using Cons.prems by (intro Cons.IH) (auto simp: inj_on_def)
  then show ?case
    using Cons.prems(1) by (auto simp: Let_def split: option.split)
qed simp

lemma checkCollisions_iff: "checkCollisions U xs ys = None \<longleftrightarrow> distinct_commands U xs ys"
proof
  assume "checkCollisions U xs ys = None"
  then obtain m m' where m: "collide U ''shim'' xs Map.empty = (None, m)" "collide U ''deny'' ys m = (None, m')"
    by (auto simp: checkCollisions_def split: prod.splits option.splits) (metis prod.collapse)
  have "cassetteName U x \<noteq> cassetteName U y" if "x \<in> set xs" "y \<in> set ys" for x y
  proof
    assume "cassetteName U x = cassetteName U y"
    then have "m (cassetteName U y) = Some (x, ''shim'')"
      using collide_None[OF m(1)] that(1) by (auto simp: seen_after_def)
    then show False
      using collide_None[OF m(2)] that(2) by auto
  qed
  then show "distinct_commands U xs ys"
    using collide_None[OF m(1)] collide_None[OF m(2)] by (auto simp: distinct_commands_def)
next
  assume d: "distinct_commands U xs ys"
  obtain m where m: "collide U ''shim'' xs Map.empty = (None, m)"
    using collide_ok[of xs Map.empty U "''shim''"] d by (simp add: distinct_commands_def) (metis prod.collapse)
  have "m (cassetteName U y) = None" if "y \<in> set ys" for y
  proof (cases "m (cassetteName U y)")
    case (Some x)
    then have "seen_after U ''shim'' xs Map.empty (cassetteName U y) x"
      using collide_None[OF m] by blast
    then show ?thesis
      using d that by (auto simp: seen_after_def distinct_commands_def)
  qed
  then have "fst (collide U ''deny'' ys m) = None"
    using d by (intro collide_ok) (auto simp: distinct_commands_def)
  then show "checkCollisions U xs ys = None"
    using m by (simp add: checkCollisions_def)
qed

lemma inNames_iff: "inNames U xs n \<longleftrightarrow> cassetteName U n \<in> cassetteName U ` set xs"
  by (auto simp: inNames_def list_ex_iff Let_def image_iff) metis

lemma contains_iff [simp]: "contains xs v \<longleftrightarrow> v \<in> set xs"
  by (auto simp: contains_def list_ex_iff)

subsection \<open>From a shim back to its command\<close>

lemma lower_char_idem [simp]: "lower_char (lower_char c) = lower_char c"
proof (cases "in_range CHR ''A'' CHR ''Z'' c")
  case True
  then have b: "65 \<le> (of_char c :: nat)" "(of_char c :: nat) \<le> 90" by (auto simp: in_range_def)
  then have "(of_char (lower_char c) :: nat) = of_char c + 32" using True by (simp add: lower_char_def)
  with b show ?thesis by (simp add: lower_char_def[of "lower_char c"] in_range_def)
qed (simp add: lower_char_def)

lemma is_ascii_lower: "is_ascii s \<Longrightarrow> is_ascii (map lower_char s)"
  by (auto simp: is_ascii_def list_all_iff lower_char_def in_range_def)

lemma is_ascii_append [simp]: "is_ascii (s @ t) \<longleftrightarrow> is_ascii s \<and> is_ascii t"
  by (simp add: is_ascii_def)

lemma cassetteName_lower: "is_ascii n \<Longrightarrow> cassetteName U (map lower_char n) = cassetteName U n"
  by (simp add: cassetteName_def to_lower_def is_ascii_lower comp_def)

text \<open>A name that carries at most one executable extension.\<close>

definition single_ext :: "unicode \<Rightarrow> string \<Rightarrow> bool" where
  "single_ext U n \<longleftrightarrow> cassetteName U (cassetteName U n) = cassetteName U n"

lemma cassetteName_exe:
  "is_ascii n \<Longrightarrow> n \<noteq> [] \<Longrightarrow> cassetteName U (n @ ''.exe'') = map lower_char n"
  by (simp add: cassetteName_def to_lower_def exeExts_def is_ascii_def[of "''.exe''"] trim_suffix_def lower_char_def in_range_def
      suffix_def Let_def)

lemma shimFileName_lower:
  assumes "isWindows goos" "is_ascii n"
  shows "map lower_char (shimFileName U n goos) =
    (if suffix ''.exe'' (map lower_char n) then map lower_char n else map lower_char n @ ''.exe'')"
  using assms by (simp add: shimFileName_def to_lower_def lower_char_def in_range_def)

lemma shimFile_same_command:
  assumes "isWindows goos" "is_ascii m" "is_ascii n" "m \<noteq> []" "n \<noteq> []" "single_ext U m" "single_ext U n"
    and "map lower_char (shimFileName U m goos) = map lower_char (shimFileName U n goos)"
  shows "cassetteName U m = cassetteName U n"
proof -
  have half: "cassetteName U a = cassetteName U b"
    if "is_ascii a" "is_ascii b" "b \<noteq> []" "single_ext U a" "map lower_char a = map lower_char b @ ''.exe''" for a b
  proof -
    have "cassetteName U a = cassetteName U (map lower_char b @ ''.exe'')"
      using cassetteName_lower[OF that(1), of U] that(5) by simp
    then have a: "cassetteName U a = map lower_char b"
      using cassetteName_exe[of "map lower_char b" U] that(2,3) by (simp add: is_ascii_lower comp_def)
    then show ?thesis
      using that(4) cassetteName_lower[OF that(2), of U] by (simp add: single_ext_def)
  qed
  have "map lower_char m = map lower_char n \<or> map lower_char m = map lower_char n @ ''.exe''
      \<or> map lower_char n = map lower_char m @ ''.exe''"
    using assms(8) shimFileName_lower[OF assms(1,2), of U] shimFileName_lower[OF assms(1,3), of U] by (auto split: if_splits)
  then show ?thesis
  proof (elim disjE)
    assume "map lower_char m = map lower_char n"
    then show ?thesis using cassetteName_lower assms(2,3) by metis
  qed (use half assms in metis)+
qed

text \<open>The entries of the map of shim files, in whatever order they are visited.\<close>

definition shim_entries :: "unicode \<Rightarrow> string \<Rightarrow> string list \<Rightarrow> (string \<times> string) list \<Rightarrow> bool" where
  "shim_entries U goos ns es \<longleftrightarrow>
     map_of es = (\<lambda>f. find (\<lambda>n. shimFileName U n goos = f) (rev ns)) \<and> distinct (map fst es)"

lemma find_some: "x \<in> set xs \<Longrightarrow> P x \<Longrightarrow> \<exists>y. find P xs = Some y"
  by (metis find_None_iff not_None_eq)

lemma find_SomeD: "find P xs = Some y \<Longrightarrow> y \<in> set xs \<and> P y"
  by (metis find_Some_iff nth_mem)

lemma cmdFor_shimFile:
  assumes es: "shim_entries U goos ns es" and n: "n \<in> set ns" and inj: "inj_on (cassetteName U) (set ns)"
    and names: "\<forall>m \<in> set ns. is_ascii m \<and> m \<noteq> [] \<and> single_ext U m" "is_ascii file"
    and fl: "file = shimFileName U n goos \<or> isWindows goos \<and> map lower_char file = map lower_char (shimFileName U n goos)"
  shows "cmdFor U es file goos = n"
proof (cases "isWindows goos")
  case True
  have eq: "m = n" if "m \<in> set ns" "map lower_char (shimFileName U m goos) = map lower_char file" for m
    using shimFile_same_command[OF True, of m n U] names(1) n that fl inj by (auto simp: inj_on_def)
  have entry: "m \<in> set ns \<and> f = shimFileName U m goos" if "(f, m) \<in> set es" for f m
    using es that find_SomeD[of _ "rev ns" m] by (auto simp: shim_entries_def fun_eq_iff map_of_eq_Some_iff[symmetric])
  have asc: "is_ascii (shimFileName U m goos)" if "m \<in> set ns" for m
    using names(1) that by (auto simp: shimFileName_def) (simp add: is_ascii_def)
  show ?thesis
  proof (cases "map_of es file")
    case None
    have "map_of es (shimFileName U n goos) \<noteq> None"
      using es n find_some[of n "rev ns"] by (auto simp: shim_entries_def)
    then obtain m where "(shimFileName U n goos, m) \<in> set es" using map_of_SomeD by fastforce
    then obtain x where x: "find (\<lambda>(f, m). equal_fold U f file) es = Some x"
      using find_some[of "(shimFileName U n goos, m)" es "\<lambda>(f, m). equal_fold U f file"] asc[OF n] names(2) fl
      by (auto simp: equal_fold_def)
    then have "x \<in> set es" "equal_fold U (fst x) file" using find_SomeD[OF x] by auto
    then have "snd x = n"
      using entry[of "fst x" "snd x"] eq[of "snd x"] asc names(2) by (auto simp: equal_fold_def)
    then show ?thesis using None True x by (cases x) (simp add: cmdFor_def)
  next
    case (Some m)
    then have "m \<in> set ns \<and> file = shimFileName U m goos" using entry map_of_SomeD by metis
    then show ?thesis using Some eq by (simp add: cmdFor_def)
  qed
next
  case False
  then have "shimFileName U m goos = m" for m by (simp add: shimFileName_def)
  then have "map_of es file = Some n"
    using es fl n False find_some[of n "rev ns" "\<lambda>m. m = n"] find_SomeD[of "\<lambda>m. m = n" "rev ns"]
    by (fastforce simp: shim_entries_def)
  then show ?thesis by (simp add: cmdFor_def)
qed

end
