(* ===== verification/Go_Glob.thy ===== *)
theory Go_Glob
  imports Go_Utf8 Go_Path
begin

section \<open>Glob patterns (package path: Match)\<close>

text \<open>
  \<^verbatim>\<open>path.Match\<close>, with which the command line selects environment variables by name.
  A pattern is cut into chunks at its stars; a chunk is matched octet by octet, except for
  classes and \<^verbatim>\<open>?\<close>, which consume a rune. \<^const>\<open>None\<close> is
  \<^verbatim>\<open>ErrBadPattern\<close>. The main fact is that whether a pattern is bad does not depend
  on the name it is matched with.
\<close>

subsection \<open>Runes\<close>

definition RuneError :: nat where "RuneError = 0xFFFD"

text \<open>\<^verbatim>\<open>utf8.DecodeRuneInString\<close>: the code point and the number of octets.\<close>

definition DecodeRune :: "string \<Rightarrow> nat \<times> nat" where
  "DecodeRune s =
     (let b = (\<lambda>i. of_char (s ! i) :: nat) in
      if s = [] then (RuneError, 0)
      else if rune_size s = 1 then (b 0, 1)
      else if rune_size s = 2 then ((b 0 mod 32) * 64 + b 1 mod 64, 2)
      else if rune_size s = 3 then (((b 0 mod 16) * 64 + b 1 mod 64) * 64 + b 2 mod 64, 3)
      else if rune_size s = 4 then ((((b 0 mod 8) * 64 + b 1 mod 64) * 64 + b 2 mod 64) * 64 + b 3 mod 64, 4)
      else (RuneError, 1))"

lemma DecodeRune_pos: "s \<noteq> [] \<Longrightarrow> 0 < snd (DecodeRune s)"
  by (simp add: DecodeRune_def Let_def)

subsection \<open>Chunks\<close>

definition getEsc :: "string \<Rightarrow> (nat \<times> string) option" where
  "getEsc chunk =
     (if chunk = [] \<or> hd chunk = CHR ''-'' \<or> hd chunk = CHR '']'' then None
      else let c = (if hd chunk = CHR 0x5C then tl chunk else chunk) in
        if c = [] then None
        else case DecodeRune c of (r, n) \<Rightarrow>
          if r = RuneError \<and> n = 1 \<or> drop n c = [] then None else Some (r, drop n c))"

lemma getEsc_shorter: "getEsc c = Some (r, d) \<Longrightarrow> length d < length c \<and> d \<noteq> []"
proof -
  assume g: "getEsc c = Some (r, d)"
  define e where "e = (if hd c = CHR 0x5C then tl c else c)"
  have ne: "c \<noteq> []" using g by (auto simp: getEsc_def)
  have e: "e \<noteq> []" "d = drop (snd (DecodeRune e)) e" "d \<noteq> []"
    using g unfolding getEsc_def e_def[symmetric] by (auto simp: Let_def split: if_splits prod.splits)
  have "length d < length e" using e(1,2) DecodeRune_pos[OF e(1)] by (cases e) auto
  moreover have "length e \<le> length c" by (simp add: e_def)
  ultimately show ?thesis using e(3) by simp
qed

text \<open>The ranges of a class: what is left of the chunk and whether the rune was in one of them.\<close>

function ranges :: "nat \<Rightarrow> nat \<Rightarrow> bool \<Rightarrow> string \<Rightarrow> (string \<times> bool) option" where
  "ranges r k m chunk =
     (if chunk \<noteq> [] \<and> hd chunk = CHR '']'' \<and> 0 < k then Some (tl chunk, m)
      else case getEsc chunk of
        None \<Rightarrow> None
      | Some (lo, c1) \<Rightarrow>
          (case (if hd c1 = CHR ''-'' then getEsc (tl c1) else Some (lo, c1)) of
             None \<Rightarrow> None
           | Some (hi, c2) \<Rightarrow> ranges r (Suc k) (m \<or> lo \<le> r \<and> r \<le> hi) c2))"
  by pat_completeness auto
termination
proof (relation "measure (\<lambda>(r, k, m, chunk). length chunk)", goal_cases)
  case (2 r k m chunk x lo c1 y hi c2)
  then show ?case
    using getEsc_shorter[of chunk lo c1] getEsc_shorter[of "tl c1" hi c2] by (auto split: if_splits)
qed simp

declare ranges.simps [simp del]

lemma ranges_shorter: "ranges r k m c = Some (d, b) \<Longrightarrow> length d < length c"
proof (induction r k m c rule: ranges.induct)
  case (1 r k m c)
  show ?case
  proof (cases "c \<noteq> [] \<and> hd c = CHR '']'' \<and> 0 < k")
    case True
    then show ?thesis using "1.prems" by (auto simp: ranges.simps[of r k m c])
  next
    case False
    then obtain lo c1 hi c2 where e: "getEsc c = Some (lo, c1)"
      "(if hd c1 = CHR ''-'' then getEsc (tl c1) else Some (lo, c1)) = Some (hi, c2)"
      "ranges r (Suc k) (m \<or> lo \<le> r \<and> r \<le> hi) c2 = Some (d, b)"
      using "1.prems" by (auto simp: ranges.simps[of r k m c] split: option.splits if_splits)
    have "length d < length c2" by (rule "1.IH"[OF False e(1) refl e(2) refl e(3)])
    moreover have "length c2 \<le> length c1"
      using e(2) getEsc_shorter[of "tl c1" hi c2] by (auto split: if_splits)
    ultimately show ?thesis using getEsc_shorter[OF e(1)] by linarith
  qed
qed

text \<open>
  \<open>matchChunk failed chunk s\<close>: once the match has failed the rest of the chunk is still
  checked. The result is \<^term>\<open>Some (Some rest)\<close> for a match and \<^term>\<open>Some None\<close>
  for none.
\<close>

function matchChunk :: "bool \<Rightarrow> string \<Rightarrow> string \<Rightarrow> string option option" where
  "matchChunk failed [] s = Some (if failed then None else Some s)"
| "matchChunk failed (c # cs) s =
     (let failed1 = (failed \<or> s = []) in
      if c = CHR ''['' then
        let r = (if failed1 then 0 else fst (DecodeRune s));
            s1 = (if failed1 then s else drop (snd (DecodeRune s)) s);
            negated = (cs \<noteq> [] \<and> hd cs = CHR ''^'')
        in case ranges r 0 False (if negated then tl cs else cs) of
             None \<Rightarrow> None
           | Some (c2, m) \<Rightarrow> matchChunk (failed1 \<or> m = negated) c2 s1
      else if c = CHR ''?'' then
        (if failed1 then matchChunk True cs s
         else matchChunk (hd s = slash) cs (drop (snd (DecodeRune s)) s))
      else if c = CHR 0x5C then
        (case cs of
           [] \<Rightarrow> None
         | d # ds \<Rightarrow> if failed1 then matchChunk True ds s else matchChunk (d \<noteq> hd s) ds (tl s))
      else if failed1 then matchChunk True cs s else matchChunk (c \<noteq> hd s) cs (tl s))"
  by pat_completeness auto
termination
  by (relation "measure (\<lambda>(f, c, s). length c)") (auto dest!: ranges_shorter split: if_splits)

declare matchChunk.simps(2) [simp del]

fun scan_chunk :: "bool \<Rightarrow> string \<Rightarrow> string \<times> string" where
  "scan_chunk inrange [] = ([], [])"
| "scan_chunk inrange [c] = (if c = CHR ''*'' \<and> \<not> inrange then ([], [c]) else ([c], []))"
| "scan_chunk inrange (c # d # ds) =
     (if c = CHR 0x5C then (case scan_chunk inrange ds of (a, b) \<Rightarrow> (c # d # a, b))
      else if c = CHR ''['' then (case scan_chunk True (d # ds) of (a, b) \<Rightarrow> (c # a, b))
      else if c = CHR '']'' then (case scan_chunk False (d # ds) of (a, b) \<Rightarrow> (c # a, b))
      else if c = CHR ''*'' \<and> \<not> inrange then ([], c # d # ds)
      else (case scan_chunk inrange (d # ds) of (a, b) \<Rightarrow> (c # a, b)))"

definition scanChunk :: "string \<Rightarrow> bool \<times> string \<times> string" where
  "scanChunk pattern =
     (let p = dropWhile (\<lambda>c. c = CHR ''*'') pattern in (p \<noteq> pattern, scan_chunk False p))"

lemma scan_chunk_split: "scan_chunk f p = (a, b) \<Longrightarrow> p = a @ b"
  by (induction f p arbitrary: a b rule: scan_chunk.induct) (auto split: if_splits prod.splits)

lemma scan_chunk_nonempty: "c \<noteq> CHR ''*'' \<Longrightarrow> fst (scan_chunk False (c # cs)) \<noteq> []"
  by (cases cs) (simp_all add: case_prod_beta)

lemma scanChunk_shorter:
  assumes "scanChunk p = (star, chunk, rest)" "p \<noteq> []"
  shows "length rest < length p" "chunk = [] \<Longrightarrow> star \<and> rest = []"
proof -
  let ?q = "dropWhile (\<lambda>c. c = CHR ''*'') p"
  have s: "star = (?q \<noteq> p)" "scan_chunk False ?q = (chunk, rest)"
    using assms(1) by (auto simp: scanChunk_def Let_def)
  have q: "?q = chunk @ rest" by (rule scan_chunk_split[OF s(2)])
  have "hd ?q \<noteq> CHR ''*''" if "?q \<noteq> []" using hd_dropWhile[OF that] .
  then have e: "?q = []" if "chunk = []"
    using scan_chunk_nonempty[of "hd ?q" "tl ?q"] s(2) that by (cases ?q) auto
  show "star \<and> rest = []" if "chunk = []"
    using e[OF that] q s(1) assms(2) that unfolding e[OF that] by simp
  have "length ?q \<le> length p" by (rule length_dropWhile_le)
  then have "length chunk + length rest \<le> length p" using q by (metis length_append)
  then show "length rest < length p"
    using \<open>chunk = [] \<Longrightarrow> star \<and> rest = []\<close> assms(2) by (cases chunk) auto
qed

subsection \<open>Match\<close>

text \<open>After a failure the remaining chunks are still checked.\<close>

function check_rest :: "string \<Rightarrow> bool option" where
  "check_rest pattern =
     (if pattern = [] then Some False
      else case scanChunk pattern of (star, chunk, rest) \<Rightarrow>
        if matchChunk False chunk [] = None then None else check_rest rest)"
  by pat_completeness auto
termination
  by (relation "measure length") (auto dest: scanChunk_shorter(1)[OF sym])

text \<open>The attempts that skip octets of the name for a star.\<close>

fun star_search :: "string \<Rightarrow> bool \<Rightarrow> string \<Rightarrow> string option option" where
  "star_search chunk lst [] = Some None"
| "star_search chunk lst (x # xs) =
     (if x = slash then Some None
      else case matchChunk False chunk xs of
        None \<Rightarrow> None
      | Some (Some t) \<Rightarrow> if lst \<and> t \<noteq> [] then star_search chunk lst xs else Some (Some t)
      | Some None \<Rightarrow> star_search chunk lst xs)"

function Match :: "string \<Rightarrow> string \<Rightarrow> bool option" where
  "Match pattern name =
     (if pattern = [] then Some (name = [])
      else case scanChunk pattern of (star, chunk, rest) \<Rightarrow>
        if star \<and> chunk = [] then Some (slash \<notin> set name)
        else case matchChunk False chunk name of
          None \<Rightarrow> None
        | Some r \<Rightarrow>
            (case r of
               Some t \<Rightarrow>
                 if t = [] \<or> rest \<noteq> [] then Match rest t
                 else if star then
                   (case star_search chunk (rest = []) name of
                      None \<Rightarrow> None | Some None \<Rightarrow> check_rest rest | Some (Some t) \<Rightarrow> Match rest t)
                 else check_rest rest
             | None \<Rightarrow>
                 if star then
                   (case star_search chunk (rest = []) name of
                      None \<Rightarrow> None | Some None \<Rightarrow> check_rest rest | Some (Some t) \<Rightarrow> Match rest t)
                 else check_rest rest))"
  by pat_completeness auto
termination
  by (relation "measure (\<lambda>(p, n). length p)") (auto dest: scanChunk_shorter(1)[OF sym])

declare check_rest.simps [simp del] Match.simps [simp del]

subsection \<open>Bad patterns are bad for every name\<close>

lemma ranges_indep: "map_option fst (ranges r k m c) = map_option fst (ranges q k n c)"
proof (induction r k m c arbitrary: n rule: ranges.induct)
  case (1 r k m c)
  show ?case
  proof (cases "c \<noteq> [] \<and> hd c = CHR '']'' \<and> 0 < k")
    case True
    then show ?thesis by (simp add: ranges.simps[of r k m c] ranges.simps[of q k n c])
  next
    case False
    have "map_option fst (ranges r (Suc k) (m \<or> lo \<le> r \<and> r \<le> hi) c2)
        = map_option fst (ranges q (Suc k) (n \<or> lo \<le> q \<and> q \<le> hi) c2)"
      if "getEsc c = Some (lo, c1)" "(if hd c1 = CHR ''-'' then getEsc (tl c1) else Some (lo, c1)) = Some (hi, c2)"
      for lo c1 hi c2
      by (rule "1.IH"[OF False that(1) refl that(2) refl])
    with False show ?thesis
      by (auto simp: ranges.simps[of r k m c] ranges.simps[of q k n c] split: option.split)
  qed
qed

lemma ranges_None_indep: "ranges r k m c = None \<longleftrightarrow> ranges q k n c = None"
  using ranges_indep[of r k m c q n] by (metis option.map_disc_iff)

lemma ranges_rest_indep: "ranges r k m c = Some (d, b) \<Longrightarrow> \<exists>b'. ranges q k n c = Some (d, b')"
  using ranges_indep[of r k m c q n] by (cases "ranges q k n c") auto

definition bad_chunk :: "string \<Rightarrow> bool" where
  "bad_chunk c \<longleftrightarrow> matchChunk True c [] = None"

lemma matchChunk_bad: "matchChunk failed c s = None \<longleftrightarrow> bad_chunk c"
proof (induction failed c s rule: matchChunk.induct)
  case (2 failed c cs s)
  let ?f = "failed \<or> s = []"
  consider (cls) "c = CHR ''[''" | (any) "c = CHR ''?''" | (esc) "c = CHR 0x5C"
    | (lit) "c \<noteq> CHR ''[''" "c \<noteq> CHR ''?''" "c \<noteq> CHR 0x5C" by blast
  then show ?case
  proof cases
    case cls
    let ?neg = "cs \<noteq> [] \<and> hd cs = CHR ''^''"
    let ?d = "if ?neg then tl cs else cs" and ?r = "if ?f then 0 else fst (DecodeRune s)"
    have bad: "bad_chunk (c # cs) \<longleftrightarrow> (case ranges 0 0 False ?d of None \<Rightarrow> True | Some (c2, m) \<Rightarrow> bad_chunk c2)"
      using cls by (simp add: bad_chunk_def matchChunk.simps(2) Let_def split: option.split)
    show ?thesis
    proof (cases "ranges ?r 0 False ?d")
      case None
      then show ?thesis
        using cls bad ranges_None_indep[of ?r 0 False ?d 0 False] by (simp add: matchChunk.simps(2) Let_def)
    next
      case (Some x)
      obtain c2 m where x: "x = (c2, m)" by (cases x)
      then obtain b' where b': "ranges 0 0 False ?d = Some (c2, b')"
        using ranges_rest_indep[of ?r 0 False ?d c2 m 0 False] Some by blast
      have "matchChunk (?f \<or> m = ?neg) c2 (if ?f then s else drop (snd (DecodeRune s)) s) = None \<longleftrightarrow> bad_chunk c2"
        using "2.IH"(1)[OF refl cls refl refl refl Some x[symmetric]] .
      then show ?thesis
        using cls bad b' Some x by (simp add: matchChunk.simps(2) Let_def)
    qed
  next
    case any
    then have "c \<noteq> CHR ''[''" "bad_chunk (c # cs) = bad_chunk cs"
      by (simp_all add: bad_chunk_def matchChunk.simps(2))
    with any "2.IH"(2,3) show ?thesis
      by (cases ?f) (auto simp: matchChunk.simps(2) Let_def)
  next
    case esc
    then have c: "c \<noteq> CHR ''[''" "c \<noteq> CHR ''?''" by simp_all
    show ?thesis
    proof (cases cs)
      case Nil
      then show ?thesis using esc by (simp add: matchChunk.simps(2) bad_chunk_def)
    next
      case (Cons d ds)
      moreover have "bad_chunk (c # d # ds) = bad_chunk ds"
        using esc by (simp add: bad_chunk_def matchChunk.simps(2))
      ultimately show ?thesis
        using esc c "2.IH"(4,5) by (cases ?f) (auto simp: matchChunk.simps(2) Let_def)
    qed
  next
    case lit
    then have "bad_chunk (c # cs) = bad_chunk cs" by (simp add: bad_chunk_def matchChunk.simps(2))
    with lit "2.IH"(6,7) show ?thesis
      by (cases ?f) (auto simp: matchChunk.simps(2) Let_def)
  qed
qed (simp add: bad_chunk_def)

lemma star_search_bad: "\<not> bad_chunk c \<Longrightarrow> star_search c l n \<noteq> None"
  by (induction n) (auto simp: matchChunk_bad split: option.split)


lemma Match_bad: "Match p n = None \<longleftrightarrow> check_rest p = None"
proof (induction "length p" arbitrary: p n rule: less_induct)
  case (less p)
  show ?case
  proof (cases "p = []")
    case True
    then show ?thesis by (simp add: Match.simps check_rest.simps)
  next
    case False
    obtain star chunk rest where s: "scanChunk p = (star, chunk, rest)" by (cases "scanChunk p")
    have cr: "check_rest p = (if bad_chunk chunk then None else check_rest rest)"
      using False s by (subst check_rest.simps) (simp add: matchChunk_bad)
    show ?thesis
    proof (cases "chunk = [] \<or> bad_chunk chunk")
      case True
      have "\<not> bad_chunk []" by (simp add: bad_chunk_def)
      then consider "chunk = []" "star" "rest = []" | "chunk \<noteq> []" "bad_chunk chunk"
        using True scanChunk_shorter(2)[OF s False] by blast
      then show ?thesis
      proof cases
        case 1
        then show ?thesis
          using False s cr \<open>\<not> bad_chunk []\<close> by (simp add: Match.simps[of p n] check_rest.simps[of "[]"])
      next
        case 2
        moreover from 2 have "matchChunk False chunk n = None" by (simp add: matchChunk_bad)
        ultimately show ?thesis using False s cr by (simp add: Match.simps[of p n])
      qed
    next
      case good: False
      have IH: "Match rest t = None \<longleftrightarrow> check_rest rest = None" for t
        by (rule less[OF scanChunk_shorter(1)[OF s False]])
      obtain r where r: "matchChunk False chunk n = Some r"
        using good matchChunk_bad[of False chunk n] by auto
      obtain q where q: "star_search chunk (rest = []) n = Some q"
        using good star_search_bad by blast
      show ?thesis
        using False s good r q IH cr
        by (auto simp: Match.simps[of p n] split: option.split)
    qed
  qed
qed

subsection \<open>Literal patterns\<close>

definition literal :: "string \<Rightarrow> bool" where
  "literal p = list_all (\<lambda>c. c \<notin> {CHR ''*'', CHR ''?'', CHR ''['', CHR 0x5C}) p"

lemma literal_Cons [simp]:
  "literal (c # p) \<longleftrightarrow> c \<notin> {CHR ''*'', CHR ''?'', CHR ''['', CHR 0x5C} \<and> literal p" "literal []"
  by (simp_all add: literal_def)

lemma scan_literal: "literal p \<Longrightarrow> scan_chunk f p = (p, [])"
  by (induction f p rule: scan_chunk.induct) auto

lemma matchChunk_literal:
  "literal p \<Longrightarrow> matchChunk f p s = Some (if \<not> f \<and> prefix p s then Some (drop (length p) s) else None)"
proof (induction p arbitrary: f s)
  case (Cons c p)
  then show ?case
    by (cases s) (auto simp: matchChunk.simps(2) Let_def)
qed simp

lemma Match_literal: "literal p \<Longrightarrow> Match p n = Some (p = n)"
proof (cases p)
  case (Cons c q)
  assume l: "literal p"
  have s: "scanChunk p = (False, p, [])"
    using l Cons by (simp add: scanChunk_def scan_literal)
  have p: "p = n \<longleftrightarrow> prefix p n \<and> drop (length p) n = []" "p \<noteq> []"
    using Cons by (auto simp: prefix_def)
  have "Match p n = (case matchChunk False p n of Some (Some t) \<Rightarrow> Some (t = []) | _ \<Rightarrow> Some False)"
    using s p(2) matchChunk_literal[OF l, of False n]
    by (subst Match.simps) (simp add: Match.simps[of "[]"] check_rest.simps[of "[]"])
  then show ?thesis
    using matchChunk_literal[OF l, of False n] p(1) by simp
qed (auto simp: Match.simps)

end
