(* ===== verification/Cli_Config.thy ===== *)
theory Cli_Config
  imports Cli_Names Go_Glob "HOL-Library.AList"
begin

section \<open>Configuration of a run (cmd/xrr: config\_file.go, scrub.go, run.go)\<close>

text \<open>
  A run is configured by four layers: the user's file, the project's file, the environment and
  the flags. Each layer is checked on its own, the layers are merged, cross-checked, completed
  with defaults and resolved to the configuration the shims read. Parameters of the model are the
  YAML decoder (\<open>dec\<close>: what a file decodes to, together with the decoder's error, where
  an empty file is \<^const>\<open>ErrEOF\<close>) and \<^verbatim>\<open>time.ParseDuration\<close>
  (\<open>dur\<close>, in nanoseconds), which computes with floating-point numbers. The files are those
  of the cassette model's world. When both boolean variables are malformed, the model reports
  the first of them; the code reports whichever its map yields first.
\<close>

subsection \<open>One layer\<close>

record scrubSettings =
  sc_Allow :: "string list"
  sc_Deny :: "string list"

record settings =
  cg_Mode :: "string option"
  cg_Cassettes :: "string option"
  cg_Shim :: "string list"
  cg_Deny :: "string list"
  cg_NoDefaultDeny :: "bool option"
  cg_Strict :: "bool option"
  cg_Env :: "string list"
  cg_StdinWait :: "string option"
  cg_ReportFile :: "string option"
  cg_Scrub :: scrubSettings

definition no_settings :: settings where
  "no_settings =
     \<lparr>cg_Mode = None, cg_Cassettes = None, cg_Shim = [], cg_Deny = [], cg_NoDefaultDeny = None, cg_Strict = None,
      cg_Env = [], cg_StdinWait = None, cg_ReportFile = None, cg_Scrub = \<lparr>sc_Allow = [], sc_Deny = []\<rparr>\<rparr>"

definition validMode :: "string \<Rightarrow> goerr option" where
  "validMode m =
     (if m = ''record'' \<or> m = ''replay'' \<or> m = ''passthrough'' then None
      else Some (ErrNew (''invalid mode '' @ m @ '' (want record|replay|passthrough)'')))"

definition validatePatterns :: "string \<Rightarrow> string list \<Rightarrow> goerr option" where
  "validatePatterns flagName patterns =
     (case find (\<lambda>p. Match p [] = None) patterns of
        Some p \<Rightarrow> Some (ErrWrap (flagName @ '': bad pattern '' @ p) (ErrNew ''syntax error in pattern''))
      | None \<Rightarrow> None)"

definition settings_validate :: "(string \<Rightarrow> int option) \<Rightarrow> settings \<Rightarrow> goerr option" where
  "settings_validate dur s =
     (case Option.bind (cg_Mode s) validMode of
        Some e \<Rightarrow> Some e
      | None \<Rightarrow>
          if cg_StdinWait s \<noteq> None \<and> dur (the (cg_StdinWait s)) = None
          then Some (ErrNew (''stdin_wait '' @ the (cg_StdinWait s) @ '': want a duration like 250ms''))
          else (case find (\<lambda>n. validCommandName n \<noteq> None) (cg_Shim s @ cg_Deny s) of
              Some n \<Rightarrow> validCommandName n
            | None \<Rightarrow>
                (case validatePatterns ''scrub.deny'' (sc_Deny (cg_Scrub s)) of
                   Some e \<Rightarrow> Some e
                 | None \<Rightarrow> validatePatterns ''scrub.allow'' (sc_Allow (cg_Scrub s)))))"

subsection \<open>Files and environment\<close>

definition projectConfigName :: string where "projectConfigName = ''.xrr.yaml''"
definition userConfigRel :: string where "userConfigRel = ''xrr/config.yaml''"

definition userConfigPath :: "(string \<Rightarrow> string) \<Rightarrow> string" where
  "userConfigPath getenv =
     (if getenv ''XDG_CONFIG_HOME'' \<noteq> [] then path_Join (getenv ''XDG_CONFIG_HOME'') userConfigRel
      else if getenv ''HOME'' \<noteq> [] then path_Join (getenv ''HOME'') (''.config/'' @ userConfigRel)
      else if getenv ''APPDATA'' \<noteq> [] then path_Join (getenv ''APPDATA'') userConfigRel
      else [])"

text \<open>A relative path of a file's settings is resolved against the directory of the file.\<close>

definition against :: "string \<Rightarrow> string option \<Rightarrow> string option" where
  "against dir p = map_option (\<lambda>p. if p \<noteq> [] \<and> hd p \<noteq> slash then path_Join dir p else p) p"

definition loadFile ::
  "('d \<Rightarrow> goerr option \<times> settings) \<Rightarrow> (string \<Rightarrow> int option) \<Rightarrow> string \<Rightarrow> bool \<Rightarrow> 'd world \<Rightarrow> settings res" where
  "loadFile dec dur path required w =
     (case os_ReadFile path w of
        Inl e \<Rightarrow> if os_IsNotExist e \<and> \<not> required then Inr no_settings else Inl (ErrWrap (''config '' @ path) e)
      | Inr b \<Rightarrow>
          let (err, s) = dec b; dir = path_Dir path;
              s1 = s\<lparr>cg_Cassettes := against dir (cg_Cassettes s), cg_ReportFile := against dir (cg_ReportFile s)\<rparr>
          in if err \<noteq> None \<and> \<not> err_is (the err) ErrEOF then Inl (ErrWrap (''config '' @ path) (the err))
             else case settings_validate dur s1 of
               Some e \<Rightarrow> Inl (ErrWrap (''config '' @ path) e)
             | None \<Rightarrow> Inr s1)"

definition ParseBool :: "string \<Rightarrow> bool option" where
  "ParseBool v =
     (if v \<in> set [''1'', ''t'', ''T'', ''true'', ''TRUE'', ''True''] then Some True
      else if v \<in> set [''0'', ''f'', ''F'', ''false'', ''FALSE'', ''False''] then Some False
      else None)"

definition env_string :: "(string \<Rightarrow> string) \<Rightarrow> string \<Rightarrow> string option" where
  "env_string getenv name = (if getenv name = [] then None else Some (getenv name))"

definition env_bool :: "(string \<Rightarrow> string) \<Rightarrow> string \<Rightarrow> bool option res" where
  "env_bool getenv name =
     (if getenv name = [] then Inr None
      else case ParseBool (getenv name) of
        None \<Rightarrow> Inl (ErrNew (name @ ''='' @ getenv name @ '': want a boolean''))
      | Some b \<Rightarrow> Inr (Some b))"

definition env_list :: "(string \<Rightarrow> string) \<Rightarrow> string \<Rightarrow> string list" where
  "env_list getenv name = (if getenv name = [] then [] else listFlag_Set [] (getenv name))"

definition envSettings :: "(string \<Rightarrow> int option) \<Rightarrow> (string \<Rightarrow> string) \<Rightarrow> settings res" where
  "envSettings dur getenv =
     (case env_bool getenv ''XRR_STRICT'' of
        Inl e \<Rightarrow> Inl e
      | Inr strict \<Rightarrow>
          (case env_bool getenv ''XRR_NO_DEFAULT_DENY'' of
             Inl e \<Rightarrow> Inl e
           | Inr noDefaultDeny \<Rightarrow>
               let s = \<lparr>cg_Mode = env_string getenv ''XRR_MODE'', cg_Cassettes = env_string getenv ''XRR_CASSETTE_DIR'',
                        cg_Shim = env_list getenv ''XRR_SHIM'', cg_Deny = env_list getenv ''XRR_DENY'',
                        cg_NoDefaultDeny = noDefaultDeny, cg_Strict = strict, cg_Env = env_list getenv ''XRR_ENV'',
                        cg_StdinWait = env_string getenv ''XRR_STDIN_WAIT'',
                        cg_ReportFile = env_string getenv ''XRR_REPORT_FILE'',
                        cg_Scrub = \<lparr>sc_Allow = env_list getenv ''XRR_NO_SCRUB'', sc_Deny = env_list getenv ''XRR_SCRUB''\<rparr>\<rparr>
               in case settings_validate dur s of
                    Some e \<Rightarrow> Inl (ErrWrap ''environment'' e)
                  | None \<Rightarrow> Inr s))"

subsection \<open>Layers\<close>

definition union_list :: "string list \<Rightarrow> string list \<Rightarrow> string list" where
  "union_list a b = foldl (\<lambda>acc v. if contains acc v then acc else acc @ [v]) [] (a @ b)"

definition pick :: "'a option \<Rightarrow> 'a option \<Rightarrow> 'a option" where
  "pick dst v = (if v \<noteq> None then v else dst)"

definition mergeSettings :: "settings \<Rightarrow> settings \<Rightarrow> settings" where
  "mergeSettings lo hi =
     \<lparr>cg_Mode = pick (cg_Mode lo) (cg_Mode hi), cg_Cassettes = pick (cg_Cassettes lo) (cg_Cassettes hi),
      cg_Shim = union_list (cg_Shim lo) (cg_Shim hi), cg_Deny = union_list (cg_Deny lo) (cg_Deny hi),
      cg_NoDefaultDeny = pick (cg_NoDefaultDeny lo) (cg_NoDefaultDeny hi), cg_Strict = pick (cg_Strict lo) (cg_Strict hi),
      cg_Env = union_list (cg_Env lo) (cg_Env hi), cg_StdinWait = pick (cg_StdinWait lo) (cg_StdinWait hi),
      cg_ReportFile = pick (cg_ReportFile lo) (cg_ReportFile hi),
      cg_Scrub = \<lparr>sc_Allow = union_list (sc_Allow (cg_Scrub lo)) (sc_Allow (cg_Scrub hi)),
                   sc_Deny = union_list (sc_Deny (cg_Scrub lo)) (sc_Deny (cg_Scrub hi))\<rparr>\<rparr>"

definition checkConflicts :: "settings \<Rightarrow> goerr option" where
  "checkConflicts s =
     (case find (contains (sc_Allow (cg_Scrub s))) (sc_Deny (cg_Scrub s)) of
        Some n \<Rightarrow> Some (ErrNew (n @ '' is in both scrub.deny (--scrub) and scrub.allow (--no-scrub)''))
      | None \<Rightarrow>
          (case find (contains (cg_Deny s)) (cg_Shim s) of
             Some n \<Rightarrow> Some (ErrNew (n @ '' is in both shim and deny''))
           | None \<Rightarrow> None))"

definition loadLayers ::
  "('d \<Rightarrow> goerr option \<times> settings) \<Rightarrow> (string \<Rightarrow> int option) \<Rightarrow> string \<Rightarrow> settings \<Rightarrow> 'd world \<Rightarrow> settings res" where
  "loadLayers dec dur configPath flags w =
     (let up = userConfigPath (w_getenv w) in
      case (if up = [] then Inr no_settings else loadFile dec dur up False w) of
        Inl e \<Rightarrow> Inl e
      | Inr user \<Rightarrow>
          (case (if configPath \<noteq> [] then loadFile dec dur configPath True w else loadFile dec dur projectConfigName False w) of
             Inl e \<Rightarrow> Inl e
           | Inr project \<Rightarrow>
               (case envSettings dur (w_getenv w) of
                  Inl e \<Rightarrow> Inl e
                | Inr env \<Rightarrow>
                    let merged = mergeSettings (mergeSettings (mergeSettings user project) env) flags
                    in case checkConflicts merged of Some e \<Rightarrow> Inl e | None \<Rightarrow> Inr merged)))"

subsection \<open>Resolution (run.go)\<close>

record runOpts =
  op_mode :: string
  op_cassettes :: string
  op_reportFile :: string
  op_shim :: "string list"
  op_deny :: "string list"
  op_env :: "string list"
  op_scrubDeny :: "string list"
  op_scrubAllow :: "string list"
  op_noDefaultDeny :: bool
  op_strict :: bool
  op_stdinWait :: int

definition toOpts :: "(string \<Rightarrow> int option) \<Rightarrow> settings \<Rightarrow> runOpts" where
  "toOpts dur s =
     \<lparr>op_mode = (case cg_Mode s of Some m \<Rightarrow> m | None \<Rightarrow> ''replay''),
      op_cassettes = (case cg_Cassettes s of Some c \<Rightarrow> if c \<noteq> [] then c else ''cassettes'' | None \<Rightarrow> ''cassettes''),
      op_reportFile = (case cg_ReportFile s of Some p \<Rightarrow> p | None \<Rightarrow> []),
      op_shim = cg_Shim s, op_deny = cg_Deny s, op_env = cg_Env s,
      op_scrubDeny = sc_Deny (cg_Scrub s), op_scrubAllow = sc_Allow (cg_Scrub s),
      op_noDefaultDeny = (case cg_NoDefaultDeny s of Some b \<Rightarrow> b | None \<Rightarrow> False),
      op_strict = (case cg_Strict s of Some b \<Rightarrow> b | None \<Rightarrow> True),
      op_stdinWait = (case cg_StdinWait s of
         Some t \<Rightarrow> (case dur t of Some d \<Rightarrow> d | None \<Rightarrow> 0) | None \<Rightarrow> 250000000)\<rparr>"

record runConfig =
  cf_Mode :: string
  cf_CassetteDir :: string
  cf_RealPath :: string
  cf_Strict :: bool
  cf_Deny :: "string list"
  cf_EnvCapture :: "string list"
  cf_ScrubDeny :: "string list"
  cf_ScrubAllow :: "string list"
  cf_Cmds :: "(string \<times> string) list"
  cf_StdinWaitMs :: int

text \<open>The file system as \<open>resolve\<close> sees it: what \<^verbatim>\<open>os.Stat\<close> says of a path
  (whether it is a directory), the outcome of \<^verbatim>\<open>os.MkdirAll\<close>, the working directory.\<close>

record run_host =
  h_goos :: string
  h_stat :: "string \<Rightarrow> bool res"
  h_mkdirAll :: "string \<Rightarrow> goerr option"
  h_cwd :: "string res"
  h_getenv :: "string \<Rightarrow> string"

definition path_Abs :: "string res \<Rightarrow> string \<Rightarrow> string res" where
  "path_Abs cwd p =
     (if p \<noteq> [] \<and> hd p = slash then Inr (path_Clean p)
      else case cwd of Inl e \<Rightarrow> Inl e | Inr wd \<Rightarrow> Inr (path_Join wd p))"

text \<open>The second component lists the directories it asks to create.\<close>

definition prepareCassetteDir :: "run_host \<Rightarrow> string \<Rightarrow> string \<Rightarrow> goerr option \<times> string list" where
  "prepareCassetteDir h mode dir =
     (case h_stat h dir of
        Inr isDir \<Rightarrow> (if \<not> isDir then Some (ErrNew (''cassette path '' @ dir @ '' is not a directory'')) else None, [])
      | Inl e \<Rightarrow>
          if os_IsNotExist e \<and> mode = ModeRecord then (h_mkdirAll h dir, [dir])
          else if os_IsNotExist e
          then (Some (ErrNew (''cassette directory '' @ dir @ '' does not exist (nothing to replay; use --mode record first)'')), [])
          else (Some e, []))"

definition deny_with_defaults :: "unicode \<Rightarrow> runOpts \<Rightarrow> string list" where
  "deny_with_defaults U opts =
     (if op_noDefaultDeny opts then op_deny opts
      else foldl (\<lambda>dny d. if \<not> inNames U (op_shim opts) d \<and> \<not> inNames U dny d then dny @ [d] else dny)
             (op_deny opts) defaultDeny)"

text \<open>Integer division of Go truncates towards zero.\<close>

definition go_div :: "int \<Rightarrow> int \<Rightarrow> int" where
  "go_div a b = sgn a * sgn b * (\<bar>a\<bar> div \<bar>b\<bar>)"

definition resolve :: "unicode \<Rightarrow> run_host \<Rightarrow> runOpts \<Rightarrow> string list \<Rightarrow> runConfig res \<times> string list" where
  "resolve U h opts child =
     (if child = [] then (Inl (ErrNew ''no command to run (usage: xrr run [flags] -- <cmd> [args...])''), [])
      else let mode = op_mode opts; dir = op_cassettes opts in
        if mode \<noteq> ModePassthrough \<and> op_shim opts = []
        then (Inl (ErrNew (''--shim is required in '' @ mode @ '' mode'')), [])
        else case (if mode \<noteq> ModePassthrough then prepareCassetteDir h mode dir else (None, [])) of
          (Some e, made) \<Rightarrow> (Inl e, made)
        | (None, made) \<Rightarrow>
            (case path_Abs (h_cwd h) dir of
               Inl e \<Rightarrow> (Inl e, made)
             | Inr absdir \<Rightarrow>
                 (case checkCollisions U (op_shim opts) (op_deny opts) of
                    Some e \<Rightarrow> (Inl e, made)
                  | None \<Rightarrow>
                      let dny = deny_with_defaults U opts;
                          cmds = foldl (\<lambda>m n. AList.update (shimFileName U n (h_goos h)) n m) [] (op_shim opts @ dny)
                      in (Inr \<lparr>cf_Mode = mode, cf_CassetteDir = absdir, cf_RealPath = h_getenv h ''PATH'',
                               cf_Strict = op_strict opts, cf_Deny = dny, cf_EnvCapture = op_env opts,
                               cf_ScrubDeny = op_scrubDeny opts, cf_ScrubAllow = op_scrubAllow opts, cf_Cmds = cmds,
                               cf_StdinWaitMs = go_div (op_stdinWait opts) 1000000\<rparr>, made))))"

subsection \<open>Merging\<close>

text \<open>The list without repetitions, each element where it first occurs, and the first layer that
  sets a value.\<close>

definition nub :: "'a list \<Rightarrow> 'a list" where
  "nub xs = rev (remdups (rev xs))"

fun first_set :: "'a option list \<Rightarrow> 'a option" where
  "first_set [] = None"
| "first_set (Some v # vs) = Some v"
| "first_set (None # vs) = first_set vs"

lemma set_nub [simp]: "set (nub xs) = set xs" and distinct_nub [simp]: "distinct (nub xs)"
  by (simp_all add: nub_def)

lemma nub_append: "nub (nub xs @ ys) = nub (xs @ ys)"
  by (simp add: nub_def remdups_append2)

lemma union_nub: "union_list a b = nub (a @ b)"
proof -
  have "foldl (\<lambda>acc v. if contains acc v then acc else acc @ [v]) [] xs = nub xs" for xs :: "string list"
    by (induction xs rule: rev_induct) (auto simp: nub_def)
  then show ?thesis unfolding union_list_def .
qed

lemma pick_first_set: "pick (pick (pick a b) c) d = first_set [d, c, b, a]"
  by (cases a; cases b; cases c; cases d) (simp_all add: pick_def)

lemma settings_validate_None:
  "settings_validate dur s = None \<longleftrightarrow>
     (\<forall>m. cg_Mode s = Some m \<longrightarrow> m \<in> {ModeRecord, ModeReplay, ModePassthrough})
   \<and> (\<forall>t. cg_StdinWait s = Some t \<longrightarrow> dur t \<noteq> None)
   \<and> (\<forall>n \<in> set (cg_Shim s) \<union> set (cg_Deny s). validCommandName n = None)
   \<and> (\<forall>p \<in> set (sc_Deny (cg_Scrub s)) \<union> set (sc_Allow (cg_Scrub s)). Match p [] \<noteq> None)"
proof -
  have m: "Option.bind (cg_Mode s) validMode = None \<longleftrightarrow> (\<forall>m. cg_Mode s = Some m \<longrightarrow> m \<in> {ModeRecord, ModeReplay, ModePassthrough})"
    by (cases "cg_Mode s") (auto simp: validMode_def mode_defs)
  have p: "validatePatterns l ps = None \<longleftrightarrow> (\<forall>p \<in> set ps. Match p [] \<noteq> None)" for l ps
    by (auto simp: validatePatterns_def find_None_iff dest: find_SomeD split: option.split)
  have n: "(case find (\<lambda>n. validCommandName n \<noteq> None) ns of Some n \<Rightarrow> validCommandName n | None \<Rightarrow> r) = None
      \<longleftrightarrow> (\<forall>n \<in> set ns. validCommandName n = None) \<and> r = None" for ns r
    by (auto simp: find_None_iff dest: find_SomeD split: option.split)
  have c: "(case x of None \<Rightarrow> y | Some e \<Rightarrow> Some e) = None \<longleftrightarrow> x = None \<and> y = None" for x y :: "'x option"
    by (cases x) simp_all
  have i: "(if b then Some e else y) = None \<longleftrightarrow> \<not> b \<and> y = None" for b y and e :: 'x
    by simp
  have t: "\<not> (cg_StdinWait s \<noteq> None \<and> dur (the (cg_StdinWait s)) = None) \<longleftrightarrow> (\<forall>t. cg_StdinWait s = Some t \<longrightarrow> dur t \<noteq> None)"
    by (cases "cg_StdinWait s") simp_all
  show ?thesis
    unfolding settings_validate_def c i t n m p set_append ball_Un by blast
qed

definition layer_ok :: "(string \<Rightarrow> int option) \<Rightarrow> settings \<Rightarrow> bool" where
  "layer_ok dur s \<longleftrightarrow> settings_validate dur s = None"

lemma no_settings_ok [simp]: "layer_ok dur no_settings"
  by (simp add: layer_ok_def settings_validate_None no_settings_def)

lemma loadFile_ok: "loadFile dec dur p b w = Inr s \<Longrightarrow> layer_ok dur s"
  by (auto simp: loadFile_def layer_ok_def Let_def no_settings_ok[unfolded layer_ok_def]
      split: sum.splits if_splits prod.splits option.splits)

lemma envSettings_ok: "envSettings dur g = Inr s \<Longrightarrow> layer_ok dur s"
  by (auto simp: envSettings_def layer_ok_def Let_def split: sum.splits option.splits)

lemma merge_ok: "layer_ok dur a \<Longrightarrow> layer_ok dur b \<Longrightarrow> layer_ok dur (mergeSettings a b)"
  by (auto simp: layer_ok_def settings_validate_None mergeSettings_def union_nub pick_def split: if_splits)

lemma loadLayers_Inr:
  assumes "loadLayers dec dur configPath flags w = Inr m"
  obtains user project env where
    "(if userConfigPath (w_getenv w) = [] then Inr no_settings else loadFile dec dur (userConfigPath (w_getenv w)) False w) = Inr user"
    "(if configPath \<noteq> [] then loadFile dec dur configPath True w else loadFile dec dur projectConfigName False w) = Inr project"
    "envSettings dur (w_getenv w) = Inr env"
    "m = mergeSettings (mergeSettings (mergeSettings user project) env) flags" "checkConflicts m = None"
  using assms by (auto simp: loadLayers_def Let_def split: sum.splits option.splits)

lemma checkConflicts_None:
  "checkConflicts s = None \<longleftrightarrow> set (sc_Deny (cg_Scrub s)) \<inter> set (sc_Allow (cg_Scrub s)) = {}
     \<and> set (cg_Shim s) \<inter> set (cg_Deny s) = {}"
proof -
  have "find (contains xs) ys = None \<longleftrightarrow> set ys \<inter> set xs = {}" for xs ys
    by (auto simp: find_None_iff)
  moreover have "(case x of Some n \<Rightarrow> Some (f n) | None \<Rightarrow> y) = None \<longleftrightarrow> x = None \<and> y = None"
    for x :: "string option" and f :: "string \<Rightarrow> goerr" and y
    by (cases x) simp_all
  ultimately show ?thesis
    unfolding checkConflicts_def by (simp only: simp_thms)
qed

subsection \<open>The resolved configuration\<close>

lemma deny_with_defaults:
  assumes "distinct_commands U (op_shim opts) (op_deny opts)"
  shows "distinct_commands U (op_shim opts) (deny_with_defaults U opts)
    \<and> set (op_deny opts) \<subseteq> set (deny_with_defaults U opts)
    \<and> set (deny_with_defaults U opts) \<subseteq> set (op_deny opts) \<union> set defaultDeny
    \<and> (\<not> op_noDefaultDeny opts \<longrightarrow> (\<forall>d \<in> set defaultDeny. inNames U (op_shim opts) d \<or> inNames U (deny_with_defaults U opts) d))"
proof -
  let ?f = "\<lambda>dny d. if \<not> inNames U (op_shim opts) d \<and> \<not> inNames U dny d then dny @ [d] else dny"
  have "distinct_commands U (op_shim opts) (foldl ?f dny ds) \<and> set dny \<subseteq> set (foldl ?f dny ds)
      \<and> set (foldl ?f dny ds) \<subseteq> set dny \<union> set ds
      \<and> (\<forall>d \<in> set ds. inNames U (op_shim opts) d \<or> inNames U (foldl ?f dny ds) d)"
    if "distinct_commands U (op_shim opts) dny" for dny ds
  proof (induction ds rule: rev_induct)
    case (snoc d ds)
    let ?r = "foldl ?f dny ds"
    have "distinct_commands U (op_shim opts) (?f ?r d)"
      using snoc by (auto simp: distinct_commands_def inNames_iff)
    moreover have "inNames U (?f ?r d) e" if "inNames U ?r e" for e
      using that by (auto simp: inNames_iff)
    moreover have "inNames U (op_shim opts) d \<or> inNames U (?f ?r d) d"
      by (auto simp: inNames_iff)
    ultimately show ?case using snoc by (auto split: if_splits)
  qed (use that in simp)
  then show ?thesis using assms by (simp add: deny_with_defaults_def)
qed

lemma shim_entries_update:
  "shim_entries U goos ns (foldl (\<lambda>m n. AList.update (shimFileName U n goos) n m) [] ns)"
  by (induction ns rule: rev_induct) (auto simp: shim_entries_def update_conv' distinct_update fun_eq_iff)

lemma shim_entries_cong:
  "shim_entries U goos ns es \<Longrightarrow> map_of fs = map_of es \<Longrightarrow> distinct (map fst fs) \<Longrightarrow> shim_entries U goos ns fs"
  by (simp add: shim_entries_def)

lemma resolve_Inr:
  assumes "resolve U h opts child = (Inr cfg, made)"
  shows "checkCollisions U (op_shim opts) (op_deny opts) = None" "cf_Deny cfg = deny_with_defaults U opts"
    "cf_Cmds cfg = foldl (\<lambda>m n. AList.update (shimFileName U n (h_goos h)) n m) [] (op_shim opts @ deny_with_defaults U opts)"
  using assms by (auto simp: resolve_def Let_def split: if_splits prod.splits option.splits sum.splits)

lemma defaults_plain: "\<forall>d \<in> set defaultDeny. is_ascii d \<and> d \<noteq> [] \<and> single_ext U d"
  unfolding defaultDeny_def single_ext_def by code_simp

text \<open>Commands that carry at most one executable extension are told apart by their shim files.\<close>

definition plain_commands :: "unicode \<Rightarrow> runOpts \<Rightarrow> bool" where
  "plain_commands U opts \<longleftrightarrow> (\<forall>n \<in> set (op_shim opts) \<union> set (op_deny opts). is_ascii n \<and> n \<noteq> [] \<and> single_ext U n)"

lemma resolved_names:
  assumes "resolve U h opts child = (Inr cfg, made)"
  shows "distinct_commands U (op_shim opts) (cf_Deny cfg)" "set (op_deny opts) \<subseteq> set (cf_Deny cfg)"
    "\<not> op_noDefaultDeny opts \<Longrightarrow> d \<in> set defaultDeny \<Longrightarrow> inNames U (op_shim opts) d \<or> inNames U (cf_Deny cfg) d"
    "plain_commands U opts \<Longrightarrow> n \<in> set (op_shim opts @ cf_Deny cfg) \<Longrightarrow> is_ascii n \<and> n \<noteq> [] \<and> single_ext U n"
proof -
  note r = resolve_Inr[OF assms]
  have d: "distinct_commands U (op_shim opts) (op_deny opts)" using r(1) by (simp add: checkCollisions_iff)
  note D = deny_with_defaults[OF d, folded r(2)]
  then show "distinct_commands U (op_shim opts) (cf_Deny cfg)" "set (op_deny opts) \<subseteq> set (cf_Deny cfg)"
    "\<not> op_noDefaultDeny opts \<Longrightarrow> d \<in> set defaultDeny \<Longrightarrow> inNames U (op_shim opts) d \<or> inNames U (cf_Deny cfg) d"
    by blast+
  show "plain_commands U opts \<Longrightarrow> n \<in> set (op_shim opts @ cf_Deny cfg) \<Longrightarrow> is_ascii n \<and> n \<noteq> [] \<and> single_ext U n"
    using D defaults_plain[of U] by (auto simp: plain_commands_def)
qed

lemma resolved_cmdFor:
  assumes r: "resolve U h opts child = (Inr cfg, made)" and "plain_commands U opts"
    and es: "map_of es = map_of (cf_Cmds cfg)" "distinct (map fst es)"
    and n: "n \<in> set (op_shim opts @ cf_Deny cfg)" "is_ascii fl"
      "fl = shimFileName U n (h_goos h) \<or> isWindows (h_goos h) \<and> map lower_char fl = map lower_char (shimFileName U n (h_goos h))"
  shows "cmdFor U es fl (h_goos h) = n"
proof -
  have inj: "inj_on (cassetteName U) (set (op_shim opts @ cf_Deny cfg))"
    using resolved_names(1)[OF r] by (auto simp: distinct_commands_def inj_on_Un)
  have names: "\<forall>m \<in> set (op_shim opts @ cf_Deny cfg). is_ascii m \<and> m \<noteq> [] \<and> single_ext U m"
    using resolved_names(4)[OF r assms(2)] by blast
  note sh = shim_entries_cong[OF shim_entries_update es(1)[unfolded resolve_Inr(3)[OF r]] es(2), folded resolve_Inr(2)[OF r]]
  show ?thesis by (rule cmdFor_shimFile[OF sh n(1) inj names n(2,3)])
qed

lemma resolved_cmds_distinct: "resolve U h opts child = (Inr cfg, made) \<Longrightarrow> distinct (map fst (cf_Cmds cfg))"
  using shim_entries_update unfolding resolve_Inr(3) shim_entries_def by blast

subsection \<open>Properties\<close>

text \<open>C22: The layers compose as documented. When a configuration loads, it is made of the user's
  file, the project's file (or the one given, which then must exist), the environment and the
  flags: each scalar is the one of the highest layer that sets it, each list is the union of all
  layers in this order without repetitions, and no name is both scrubbed and exempt, or both
  shimmed and denied.\<close>

theorem config_layers_precedence:
  assumes "loadLayers dec dur configPath flags w = Inr m"
  shows "\<exists>user project env.
      (if userConfigPath (w_getenv w) = [] then Inr no_settings else loadFile dec dur (userConfigPath (w_getenv w)) False w) = Inr user
    \<and> loadFile dec dur (if configPath \<noteq> [] then configPath else projectConfigName) (configPath \<noteq> []) w = Inr project
    \<and> envSettings dur (w_getenv w) = Inr env
    \<and> (let layers = [user, project, env, flags]; hi = rev layers in
         cg_Mode m = first_set (map cg_Mode hi) \<and> cg_Cassettes m = first_set (map cg_Cassettes hi)
       \<and> cg_Strict m = first_set (map cg_Strict hi) \<and> cg_NoDefaultDeny m = first_set (map cg_NoDefaultDeny hi)
       \<and> cg_StdinWait m = first_set (map cg_StdinWait hi) \<and> cg_ReportFile m = first_set (map cg_ReportFile hi)
       \<and> cg_Shim m = nub (concat (map cg_Shim layers)) \<and> cg_Deny m = nub (concat (map cg_Deny layers))
       \<and> cg_Env m = nub (concat (map cg_Env layers))
       \<and> sc_Allow (cg_Scrub m) = nub (concat (map (sc_Allow \<circ> cg_Scrub) layers))
       \<and> sc_Deny (cg_Scrub m) = nub (concat (map (sc_Deny \<circ> cg_Scrub) layers)))
    \<and> set (sc_Deny (cg_Scrub m)) \<inter> set (sc_Allow (cg_Scrub m)) = {} \<and> set (cg_Shim m) \<inter> set (cg_Deny m) = {}"
proof -
  obtain user project env where l:
    "(if userConfigPath (w_getenv w) = [] then Inr no_settings else loadFile dec dur (userConfigPath (w_getenv w)) False w) = Inr user"
    "(if configPath \<noteq> [] then loadFile dec dur configPath True w else loadFile dec dur projectConfigName False w) = Inr project"
    "envSettings dur (w_getenv w) = Inr env"
    and m: "m = mergeSettings (mergeSettings (mergeSettings user project) env) flags" "checkConflicts m = None"
    by (rule loadLayers_Inr[OF assms])
  have lists: "nub (nub (nub (a @ b) @ c) @ d) = nub (a @ b @ c @ d)" for a b c d :: "string list"
    by (simp add: nub_append flip: append_assoc)
  show ?thesis
  proof (intro exI conjI)
    show "let layers = [user, project, env, flags]; hi = rev layers in
         cg_Mode m = first_set (map cg_Mode hi) \<and> cg_Cassettes m = first_set (map cg_Cassettes hi)
       \<and> cg_Strict m = first_set (map cg_Strict hi) \<and> cg_NoDefaultDeny m = first_set (map cg_NoDefaultDeny hi)
       \<and> cg_StdinWait m = first_set (map cg_StdinWait hi) \<and> cg_ReportFile m = first_set (map cg_ReportFile hi)
       \<and> cg_Shim m = nub (concat (map cg_Shim layers)) \<and> cg_Deny m = nub (concat (map cg_Deny layers))
       \<and> cg_Env m = nub (concat (map cg_Env layers))
       \<and> sc_Allow (cg_Scrub m) = nub (concat (map (sc_Allow \<circ> cg_Scrub) layers))
       \<and> sc_Deny (cg_Scrub m) = nub (concat (map (sc_Deny \<circ> cg_Scrub) layers))"
      unfolding m(1) mergeSettings_def by (simp add: pick_first_set union_nub lists Let_def)
  qed (use l m(2) checkConflicts_None in \<open>auto split: if_splits\<close>)
qed

definition sample_flags :: settings where
  "sample_flags = no_settings\<lparr>cg_Mode := Some ''record'', cg_Shim := [''git'', ''az.exe'']\<rparr>"

definition sample_env :: "string \<Rightarrow> string" where
  "sample_env name = (if name = ''XRR_MODE'' then ''replay'' else if name = ''XRR_STRICT'' then ''0'' else [])"

lemma sample_layers:
  "loadLayers (\<lambda>_. (None, no_settings)) (\<lambda>_. None) [] sample_flags (tree_world\<lparr>w_getenv := sample_env\<rparr>)
   = Inr (sample_flags\<lparr>cg_Strict := Some False\<rparr>)"
  by (simp add: loadLayers_def userConfigPath_def sample_env_def loadFile_def os_ReadFile_def tree_world_def envSettings_def
      env_bool_def env_string_def env_list_def ParseBool_def settings_validate_def validMode_def validatePatterns_def
      mergeSettings_def union_nub nub_def pick_def no_settings_def sample_flags_def checkConflicts_def Let_def)

theorem config_layers_precedence_witness:
  "\<exists>m. loadLayers (\<lambda>_. (None, no_settings)) (\<lambda>_. None) [] sample_flags (tree_world\<lparr>w_getenv := sample_env\<rparr>) = Inr m
     \<and> cg_Mode m = Some ''record'' \<and> cg_Strict m = Some False \<and> set (cg_Shim m) \<inter> set (cg_Deny m) = {}"
  using config_layers_precedence[OF sample_layers] sample_layers by (auto simp: sample_flags_def)

text \<open>C23: What a run starts from is well-formed. When flags that pass their own check are merged
  with layers that load, the mode is one of the three modes, the error the code drops when it
  parses the waiting time again cannot occur, every command name can be a file on the PATH, and no
  scrub pattern, whatever variable it is matched with, is reported as malformed.\<close>

theorem resolved_options_well_formed:
  assumes "loadLayers dec dur configPath flags w = Inr m" "settings_validate dur flags = None"
  shows "op_mode (toOpts dur m) \<in> {ModeRecord, ModeReplay, ModePassthrough}
    \<and> (\<forall>t. cg_StdinWait m = Some t \<longrightarrow> dur t = Some (op_stdinWait (toOpts dur m)))
    \<and> (\<forall>n \<in> set (op_shim (toOpts dur m)) \<union> set (op_deny (toOpts dur m)). plain_name n)
    \<and> (\<forall>p \<in> set (op_scrubDeny (toOpts dur m)) \<union> set (op_scrubAllow (toOpts dur m)). \<forall>name. Match p name \<noteq> None)"
proof -
  obtain user project env where l:
    "(if userConfigPath (w_getenv w) = [] then Inr no_settings else loadFile dec dur (userConfigPath (w_getenv w)) False w) = Inr user"
    "(if configPath \<noteq> [] then loadFile dec dur configPath True w else loadFile dec dur projectConfigName False w) = Inr project"
    "envSettings dur (w_getenv w) = Inr env"
    and m: "m = mergeSettings (mergeSettings (mergeSettings user project) env) flags" "checkConflicts m = None"
    by (rule loadLayers_Inr[OF assms(1)])
  have "layer_ok dur user" using l(1) loadFile_ok by (auto split: if_splits)
  moreover have "layer_ok dur project" using l(2) loadFile_ok by (metis (no_types))
  moreover have "layer_ok dur flags" using assms(2) by (simp add: layer_ok_def)
  ultimately have "layer_ok dur m" unfolding m(1) by (intro merge_ok envSettings_ok[OF l(3)])
  then have v: "settings_validate dur m = None" by (simp add: layer_ok_def)
  have "validCommandName n = None \<Longrightarrow> plain_name n" for n
    by (auto simp: validCommandName_def plain_name_def list_ex_iff split: if_splits)
  then show ?thesis
    using v[unfolded settings_validate_None] Match_bad
    by (auto simp: toOpts_def mode_defs split: option.splits)
qed

theorem resolved_options_well_formed_witness:
  "\<exists>m. loadLayers (\<lambda>_. (None, no_settings)) (\<lambda>_. None) [] sample_flags (tree_world\<lparr>w_getenv := sample_env\<rparr>) = Inr m
     \<and> op_mode (toOpts (\<lambda>_. None) m) = ''record'' \<and> (\<forall>n \<in> set (op_shim (toOpts (\<lambda>_. None) m)). plain_name n)"
proof -
  have "validCommandName ''git'' = None" "validCommandName ''az.exe'' = None" by code_simp+
  then have "settings_validate (\<lambda>_. None) sample_flags = None"
    by (simp add: settings_validate_None sample_flags_def no_settings_def mode_defs)
  from resolved_options_well_formed[OF sample_layers this] sample_layers show ?thesis
    by (auto simp: toOpts_def sample_flags_def)
qed


definition sample_host :: run_host where
  "sample_host = \<lparr>h_goos = ''windows'', h_stat = (\<lambda>_. Inr True), h_mkdirAll = (\<lambda>_. None), h_cwd = Inr ''/w'',
     h_getenv = (\<lambda>_. ''/bin'')\<rparr>"

definition sample_opts :: runOpts where
  "sample_opts = (toOpts (\<lambda>_. None) sample_flags)\<lparr>op_noDefaultDeny := True\<rparr>"

lemma sample_resolve: "\<exists>cfg. resolve ascii_tables sample_host sample_opts [''make''] = (Inr cfg, [])"
proof -
  have "\<not> isl (fst (resolve ascii_tables sample_host sample_opts [''make'']))"
    "snd (resolve ascii_tables sample_host sample_opts [''make'']) = []"
    by code_simp+
  then show ?thesis
    by (cases "resolve ascii_tables sample_host sample_opts [''make'']"; cases "fst (resolve ascii_tables sample_host sample_opts [''make''])") auto
qed


text \<open>The restriction to one extension is needed: on Windows \<^verbatim>\<open>a.com\<close> and
  \<^verbatim>\<open>a.com.exe\<close> are different commands that pass the collision check, but they get
  one shim file, which then stands for the second.\<close>

theorem double_extension_shares_shim:
  "case fst (resolve ascii_tables sample_host (sample_opts\<lparr>op_shim := [''a.com'', ''a.com.exe'']\<rparr>) [''make'']) of
     Inl e \<Rightarrow> False
   | Inr cfg \<Rightarrow> cmdFor ascii_tables (cf_Cmds cfg) (shimFileName ascii_tables ''a.com'' ''windows'') ''windows'' = ''a.com.exe''
       \<and> cassetteName ascii_tables ''a.com'' \<noteq> cassetteName ascii_tables ''a.com.exe''"
  by code_simp

end
