(* ===== verification/Cli_Scrub.thy ===== *)
theory Cli_Scrub
  imports Cli_Config
begin

section \<open>Scrubbing arguments and output (cmd/xrr: scrub.go)\<close>

text \<open>
  Before a call is stored or shown, arguments that follow a credential-bearing flag or name are
  replaced by placeholders, and so is every occurrence of the value of a selected environment
  variable. The main fact is that no such value survives in a scrubbed text, as long as the
  values contain no angle bracket and do not occur in a placeholder.
\<close>

subsection \<open>Arguments\<close>

definition is_letter :: "char \<Rightarrow> bool" where
  "is_letter c \<longleftrightarrow> in_range CHR ''A'' CHR ''Z'' c \<or> in_range CHR ''a'' CHR ''z'' c"

definition is_assign_char :: "char \<Rightarrow> bool" where
  "is_assign_char c \<longleftrightarrow> is_letter c \<or> is_digit c \<or> c = CHR ''_'' \<or> c = CHR ''.'' \<or> c = CHR ''-''"

text \<open>The groups of \<^verbatim>\<open>^(-{0,2}[A-Za-z][A-Za-z0-9_.-]*)=(.*)$\<close>; no character of the first
  is an equals sign, and the dot does not match a line feed.\<close>

definition assignRe :: "string \<Rightarrow> (string \<times> string) option" where
  "assignRe s =
     (case cut_at CHR ''='' s of
        None \<Rightarrow> None
      | Some (n, v) \<Rightarrow>
          let name = dropWhile (\<lambda>c. c = CHR ''-'') n in
          if length n \<le> length name + 2 \<and> name \<noteq> [] \<and> is_letter (hd name) \<and> list_all is_assign_char name
             \<and> CHR 0x0A \<notin> set v
          then Some (n, v) else None)"

definition TrimLeftDash :: "string \<Rightarrow> string" where
  "TrimLeftDash s = dropWhile (\<lambda>c. c = CHR ''-'') s"

text \<open>The loop over the arguments after the first. A flag whose value was replaced takes its
  value with it.\<close>

fun scrub_args :: "redactor \<Rightarrow> string list \<Rightarrow> string list" where
  "scrub_args r [] = []"
| "scrub_args r [a] =
     (if IsSecretValue r a then [Placeholder r ''argv'']
      else case assignRe a of
        Some (n, v) \<Rightarrow> (case RedactField r (TrimLeftDash n) v of (red, ok) \<Rightarrow> [if ok then n @ ''='' @ red else a])
      | None \<Rightarrow> [a])"
| "scrub_args r (a # b # rest) =
     (if IsSecretValue r a then Placeholder r ''argv'' # scrub_args r (b # rest)
      else case assignRe a of
        Some (n, v) \<Rightarrow>
          (case RedactField r (TrimLeftDash n) v of
             (red, ok) \<Rightarrow> (if ok then n @ ''='' @ red else a) # scrub_args r (b # rest))
      | None \<Rightarrow>
          if prefix ''-'' a \<and> \<not> prefix ''-'' b
          then (case RedactField r (TrimLeftDash a) b of
                  (red, ok) \<Rightarrow> if ok then a # red # scrub_args r rest else a # scrub_args r (b # rest))
          else a # scrub_args r (b # rest))"

definition scrubArgv :: "redactor \<Rightarrow> string list \<Rightarrow> string list" where
  "scrubArgv r argv = (case argv of [] \<Rightarrow> [] | cmd # args \<Rightarrow> cmd # scrub_args r args)"

text \<open>A flag is never taken for the value of the flag before it, so scrubbing can be cut in
  front of it; the value after a credential-bearing flag is replaced wherever the flag stands.\<close>

lemma scrub_args_append: "prefix ''-'' f \<Longrightarrow> scrub_args r (pre @ f # rest) = scrub_args r pre @ scrub_args r (f # rest)"
proof (induction r pre rule: scrub_args.induct)
  case (2 r a)
  then show ?case by (simp split: option.split prod.split)
next
  case (3 r a b more)
  then show ?case by (auto split: option.split prod.split)
qed simp

lemma scrub_flag_value:
  assumes "prefix ''-'' f" "IsSecretKey r (TrimLeftDash f)" "assignRe f = None" "\<not> IsSecretValue r f"
    and "v \<noteq> []" "\<not> prefix ''-'' v"
  shows "scrub_args r (pre @ [f, v] @ post) = scrub_args r pre @ [f, Placeholder r (TrimLeftDash f)] @ scrub_args r post"
proof -
  have "\<not> disabled r" using assms(2) by (auto simp: IsSecretKey_def)
  then have "RedactField r (TrimLeftDash f) v = (Placeholder r (TrimLeftDash f), True)"
    using RedactField_secret assms(2,5) by blast
  then show ?thesis using assms scrub_args_append[OF assms(1), of r pre "v # post"] by simp
qed

subsection \<open>Environment values\<close>

definition minSecretLen :: nat where "minSecretLen = 8"

type_synonym envSecrets = "(string \<times> string) list"

definition matchAny :: "string list \<Rightarrow> string \<Rightarrow> bool" where
  "matchAny patterns name = list_ex (\<lambda>p. Match p name = Some True) patterns"

definition env_secret :: "redactor \<Rightarrow> string list \<Rightarrow> string list \<Rightarrow> string \<Rightarrow> (string \<times> string) option" where
  "env_secret r dny alw e =
     (case cut_at CHR ''='' e of
        None \<Rightarrow> None
      | Some (name, val) \<Rightarrow>
          if val = [] then None
          else if matchAny dny name then Some (val, Placeholder r name)
          else if matchAny alw name then None
          else if minSecretLen \<le> length val \<and> IsSecretKey r name then Some (val, Placeholder r name)
          else None)"

definition collectEnvSecrets :: "redactor \<Rightarrow> string list \<Rightarrow> string list \<Rightarrow> string list \<Rightarrow> envSecrets" where
  "collectEnvSecrets r environ dny alw =
     sort_key (\<lambda>e. - int (length (fst e))) (List.map_filter (env_secret r dny alw) environ)"

definition env_scrub :: "envSecrets \<Rightarrow> string \<Rightarrow> string" where
  "env_scrub es s = foldl (\<lambda>s (v, ph). replace_all v ph s) s es"

definition scrubAll :: "envSecrets \<Rightarrow> string list \<Rightarrow> string list" where
  "scrubAll es xs = map (env_scrub es) xs"

subsection \<open>No value survives\<close>

text \<open>A text that cannot straddle the border of a placeholder, nor lie inside it.\<close>

definition clear_of :: "string \<Rightarrow> string \<Rightarrow> bool" where
  "clear_of u ph \<longleftrightarrow> u \<noteq> [] \<and> CHR ''<'' \<notin> set u \<and> CHR ''>'' \<notin> set u \<and> \<not> sublist u ph"

definition bracketed :: "string \<Rightarrow> bool" where
  "bracketed ph \<longleftrightarrow> (\<exists>m. ph = ''<'' @ m @ ''>'')"

lemma Placeholder_bracketed: "bracketed (Placeholder r name)"
  by (auto simp: bracketed_def Placeholder_def)

lemma replace_prefix:
  "bracketed ph \<Longrightarrow> CHR ''<'' \<notin> set u \<Longrightarrow> prefix u (replace_all v ph s) \<Longrightarrow> prefix u s"
proof (induction v ph s arbitrary: u rule: replace_all.induct)
  case (2 v ph x xs)
  show ?case
  proof (cases "v \<noteq> [] \<and> prefix v (x # xs)")
    case True
    then have "prefix u (ph @ replace_all v ph (drop (length v) (x # xs)))" using "2.prems"(3) by (simp only: replace_all.simps(2) if_True simp_thms)
    then have "u = []" using "2.prems"(1,2) by (cases u) (auto simp: bracketed_def)
    then show ?thesis by simp
  next
    case False
    then show ?thesis using "2.prems" "2.IH"(2)[OF False] by (cases u) (auto simp: replace_all.simps(2))
  qed
qed simp

lemma replace_sublist:
  "bracketed ph \<Longrightarrow> clear_of u ph \<Longrightarrow> sublist u (replace_all v ph s) \<Longrightarrow> \<exists>t. suffix t s \<and> prefix u t \<and> (v = [] \<or> \<not> prefix v t)"
proof (induction v ph s rule: replace_all.induct)
  case (2 v ph x xs)
  show ?case
  proof (cases "v \<noteq> [] \<and> prefix v (x # xs)")
    case True
    let ?R = "replace_all v ph (drop (length v) (x # xs))"
    have "sublist u (ph @ ?R)" using "2.prems"(3) True by (simp only: replace_all.simps(2) if_True simp_thms)
    then consider "sublist u ph" | "sublist u ?R" | u1 u2 where "u = u1 @ u2" "suffix u1 ph" "prefix u2 ?R"
      by (auto simp: sublist_append)
    then have "sublist u ?R"
    proof cases
      case 3
      have "u1 = []"
      proof (rule ccontr)
        assume "u1 \<noteq> []"
        moreover obtain m where "ph = ''<'' @ m @ ''>''" using "2.prems"(1) by (auto simp: bracketed_def)
        ultimately have "last u1 = CHR ''>''"
          using 3(2) by (metis append_is_Nil_conv last_appendR last_snoc list.discI suffix_def append.assoc)
        with last_in_set[OF \<open>u1 \<noteq> []\<close>] 3(1) "2.prems"(2) show False by (auto simp: clear_of_def)
      qed
      with 3 show ?thesis by (simp add: prefix_imp_sublist)
    qed (use "2.prems"(2) in \<open>auto simp: clear_of_def\<close>)
    from "2.IH"(1)[OF True "2.prems"(1,2) this] show ?thesis
      by (meson suffix_drop suffix_order.trans)
  next
    case False
    then have "sublist u (x # replace_all v ph xs)" using "2.prems"(3) by (simp only: replace_all.simps(2) if_False)
    then consider "prefix u (x # replace_all v ph xs)" | "sublist u (replace_all v ph xs)"
      by (auto simp: sublist_Cons_right)
    then show ?thesis
    proof cases
      case 1
      then obtain u' where u: "u = x # u'" "prefix u' (replace_all v ph xs)"
        using "2.prems"(2) by (cases u) (auto simp: clear_of_def)
      then have "prefix u (x # xs)"
        using replace_prefix[OF "2.prems"(1) _ u(2)] "2.prems"(2) by (simp add: clear_of_def)
      then show ?thesis using False by (intro exI[of _ "x # xs"]) auto
    next
      case 2
      from "2.IH"(2)[OF False "2.prems"(1,2) 2] show ?thesis by (meson suffix_ConsI)
    qed
  qed
qed (auto simp: clear_of_def)

lemma replace_absent:
  assumes "bracketed ph" "clear_of v ph"
  shows "\<not> sublist v (replace_all v ph s)"
  using replace_sublist[OF assms(1) assms(2), of v s] assms(2) by (auto simp: clear_of_def)

lemma replace_keeps_absent:
  assumes "bracketed ph" "clear_of u ph" "\<not> sublist u s"
  shows "\<not> sublist u (replace_all v ph s)"
proof
  assume "sublist u (replace_all v ph s)"
  then obtain t where "suffix t s" "prefix u t" using replace_sublist[OF assms(1,2)] by blast
  then have "sublist u s" by (meson prefix_imp_sublist suffix_imp_sublist sublist_order.order_trans)
  with assms(3) show False ..
qed

lemma env_scrub_Cons: "env_scrub ((v, ph) # es) s = env_scrub es (replace_all v ph s)"
  by (simp add: env_scrub_def)

lemma env_scrub_keeps_absent:
  "\<forall>(v, ph) \<in> set es. bracketed ph \<and> clear_of u ph \<Longrightarrow> \<not> sublist u s \<Longrightarrow> \<not> sublist u (env_scrub es s)"
proof (induction es arbitrary: s)
  case Nil
  then show ?case by (simp add: env_scrub_def)
next
  case (Cons e es)
  obtain v ph where e: "e = (v, ph)" by (cases e)
  have "\<not> sublist u (replace_all v ph s)"
    using Cons.prems by (intro replace_keeps_absent) (auto simp: e)
  with Cons.IH[OF _ this] Cons.prems(1) show ?case by (simp add: e env_scrub_Cons)
qed

lemma env_scrub_absent:
  "\<forall>(v, ph) \<in> set es. bracketed ph \<Longrightarrow> \<forall>(v, _) \<in> set es. \<forall>(_, ph) \<in> set es. clear_of v ph \<Longrightarrow> (u, q) \<in> set es
   \<Longrightarrow> \<not> sublist u (env_scrub es s)"
proof (induction es arbitrary: s)
  case (Cons e es)
  obtain v ph where e: "e = (v, ph)" by (cases e)
  show ?case
  proof (cases "(u, q) = e")
    case True
    then have "\<not> sublist u (replace_all v ph s)"
      using Cons.prems e replace_absent[of ph v s] by auto
    moreover have "\<forall>(v, ph) \<in> set es. bracketed ph \<and> clear_of u ph"
      using Cons.prems True by fastforce
    ultimately show ?thesis unfolding e env_scrub_Cons by (rule env_scrub_keeps_absent[rotated])
  next
    case False
    then have "(u, q) \<in> set es" using Cons.prems(3) by simp
    with Cons.prems show ?thesis unfolding e env_scrub_Cons by (intro Cons.IH) auto
  qed
qed simp

lemma collectEnvSecrets_iff:
  "(v, ph) \<in> set (collectEnvSecrets r environ dny alw) \<longleftrightarrow> (\<exists>e \<in> set environ. env_secret r dny alw e = Some (v, ph))"
  by (auto simp: collectEnvSecrets_def List.map_filter_def image_iff)

lemma env_secret_bracketed: "env_secret r dny alw e = Some (v, ph) \<Longrightarrow> bracketed ph"
  unfolding env_secret_def by (cases "cut_at CHR ''='' e") (auto simp: Placeholder_bracketed split: if_split_asm)

lemma matchAny_literal: "name \<in> set dny \<Longrightarrow> literal name \<Longrightarrow> matchAny dny name"
  by (auto simp: matchAny_def list_ex_iff Match_literal intro!: bexI[of _ name])


definition sample_environ :: "string list" where
  "sample_environ = [''HOME=/root'', ''API_TOKEN=s3cr3t-value'', ''PIN=1234'']"


end
