(* ===== verification/Cli_Shim.thy ===== *)
theory Cli_Shim
  imports Cli_Scrub Adapters
begin

section \<open>Shims and runs (cmd/xrr: shim.go, report.go, run.go, main.go)\<close>

text \<open>
  A shim process answers one call of a shimmed command: it denies it, records it, replays it or
  passes it on, and appends one entry to the call log of the run. When the child of the run has
  ended, the run reads the log and decides its own exit code. The operating system is the record
  \<open>host\<close>: the environment, the file tests, standard input, and the outcome of starting a
  process. Here the call log is the list of its entries and the configuration
  handed to shims a value; the JSON files that carry both are the subject of \<open>Cli_Files\<close>.
\<close>

subsection \<open>Exit codes and the call log (main.go, report.go)\<close>

definition exitOK :: int where "exitOK = 0"
definition exitUsage :: int where "exitUsage = 2"
definition exitViolation :: int where "exitViolation = 3"
definition exitMiss :: int where "exitMiss = 125"
definition exitDenied :: int where "exitDenied = 126"
definition exitNotFound :: int where "exitNotFound = 127"

definition outRecorded :: string where "outRecorded = ''recorded''"
definition outReplayed :: string where "outReplayed = ''replayed''"
definition outPassthrough :: string where "outPassthrough = ''passthrough''"
definition outDenied :: string where "outDenied = ''denied''"
definition outMiss :: string where "outMiss = ''miss''"
definition outError :: string where "outError = ''error''"

lemmas outcome_defs = outRecorded_def outReplayed_def outPassthrough_def outDenied_def outMiss_def outError_def
lemmas exit_defs = exitOK_def exitUsage_def exitViolation_def exitMiss_def exitDenied_def exitNotFound_def

record callEntry =
  ce_Cmd :: string
  ce_Argv :: "string list"
  ce_Outcome :: string
  ce_Fingerprint :: string
  ce_ExitCode :: int
  ce_Detail :: string

definition failing :: "callEntry \<Rightarrow> bool" where
  "failing e \<longleftrightarrow> ce_Outcome e = outDenied \<or> ce_Outcome e = outMiss \<or> ce_Outcome e = outError"

definition anyFailing :: "callEntry list \<Rightarrow> bool" where
  "anyFailing calls = list_ex failing calls"

definition count_outcome :: "string \<Rightarrow> callEntry list \<Rightarrow> nat" where
  "count_outcome x calls = length (filter (\<lambda>c. ce_Outcome c = x) calls)"

definition pad_right :: "nat \<Rightarrow> string \<Rightarrow> string" where
  "pad_right n s = s @ replicate (n - length s) CHR '' ''"

definition report_line :: "callEntry \<Rightarrow> string" where
  "report_line c =
     ''  '' @ ce_Outcome c @ '': '' @ join_with '' '' (ce_Argv c)
     @ (if ce_Fingerprint c \<noteq> [] then '' (fingerprint '' @ ce_Fingerprint c @ '')'' else [])
     @ (if ce_Detail c \<noteq> [] then '' - '' @ ce_Detail c else []) @ [CHR 0x0A]"

definition renderReport :: "string \<Rightarrow> callEntry list \<Rightarrow> string" where
  "renderReport mode calls =
     ''xrr run: '' @ mode @ '', '' @ show_nat (length calls) @ '' shimmed call(s)'' @ [CHR 0x0A]
     @ concat (map (\<lambda>x. if 0 < count_outcome x calls
                        then ''  '' @ pad_right 12 x @ '' '' @ show_nat (count_outcome x calls) @ [CHR 0x0A] else [])
         [outRecorded, outReplayed, outPassthrough, outDenied, outMiss, outError])
     @ concat (map report_line (filter failing calls))"

subsection \<open>Processes\<close>

text \<open>What \<^verbatim>\<open>cmd.Wait\<close> reports: success, success with standard output left open, an exit
  code, a signal, another error.\<close>

datatype wait_result = WaitOK | WaitDelayed | WaitExit int | WaitSignal int | WaitFailed

definition exitCodeOf :: "wait_result \<Rightarrow> int" where
  "exitCodeOf r =
     (case r of
        WaitOK \<Rightarrow> 0
      | WaitSignal n \<Rightarrow> 128 + n
      | WaitExit c \<Rightarrow> if 0 < c then c else 1
      | _ \<Rightarrow> 1)"

definition shim_wait :: "wait_result \<Rightarrow> int" where
  "shim_wait r = exitCodeOf (if r = WaitDelayed then WaitOK else r)"

text \<open>Standard input of a child: the file itself, or a reader pumped into a pipe, where the given
  octets come before those of the shim's own standard input.\<close>

datatype stdin_source = StdinFile | StdinPump string

record exec_call =
  x_path :: string
  x_args :: "string list"
  x_env :: "string list"
  x_stdin :: stdin_source

text \<open>A started process: how it ended, the octets pumped into it, what it wrote.\<close>

record process =
  pr_wait :: wait_result
  pr_fed :: string
  pr_stdout :: string
  pr_stderr :: string

text \<open>What happens while replay reads standard input.\<close>

datatype stdin_event = Chunk string | Closed | Idle

record host =
  h_os :: string
  h_environ :: "string list"
  h_lookupEnv :: "string \<Rightarrow> string option"
  h_pathext :: string
  h_runnable :: "string \<Rightarrow> bool"
  h_charDevice :: bool
  h_input :: "stdin_event list"
  h_pipe :: "goerr option"
  h_start :: "exec_call \<Rightarrow> process res"
  h_durationMs :: int
  h_log :: "goerr option"

text \<open>\<open>readStdinIdle\<close>: the octets until end of input or until nothing more arrives in time.\<close>

fun read_chunks :: "stdin_event list \<Rightarrow> string \<Rightarrow> string" where
  "read_chunks (Chunk b # es) acc = read_chunks es (acc @ b)"
| "read_chunks _ acc = acc"

definition readStdinIdle :: "host \<Rightarrow> string" where
  "readStdinIdle h = (if h_charDevice h then [] else read_chunks (h_input h) [])"

subsection \<open>The shim (shim.go)\<close>

record shim =
  sh_cfg :: runConfig
  sh_name :: string
  sh_bin :: string
  sh_args :: "string list"
  sh_rd :: redactor
  sh_env :: envSecrets

text \<open>The state a shim acts on: the file world, its outputs, the call log, and the processes it
  started.\<close>

record 'd shim_state =
  ss_world :: "'d world"
  ss_stdout :: string
  ss_stderr :: string
  ss_calls :: "callEntry list"
  ss_execs :: "exec_call list"

definition shim_argv :: "shim \<Rightarrow> string list" where
  "shim_argv s = sh_name s # sh_args s"

definition safeArgv :: "shim \<Rightarrow> string list" where
  "safeArgv s = scrubAll (sh_env s) (scrubArgv (sh_rd s) (shim_argv s))"

definition complain :: "string \<Rightarrow> 'd shim_state \<Rightarrow> 'd shim_state" where
  "complain msg st = st\<lparr>ss_stderr := ss_stderr st @ msg @ [CHR 0x0A]\<rparr>"

definition shim_log :: "shim \<Rightarrow> host \<Rightarrow> string \<Rightarrow> string \<Rightarrow> int \<Rightarrow> string \<Rightarrow> 'd shim_state \<Rightarrow> 'd shim_state" where
  "shim_log s h outcome fp code detail st =
     (case h_log h of
        Some e \<Rightarrow> complain (''xrr shim '' @ sh_name s @ '': log call: '' @ err_text e) st
      | None \<Rightarrow> st\<lparr>ss_calls := ss_calls st @
          [\<lparr>ce_Cmd = sh_name s, ce_Argv = safeArgv s, ce_Outcome = outcome, ce_Fingerprint = fp,
            ce_ExitCode = code, ce_Detail = detail\<rparr>]\<rparr>)"

definition errNotFound :: goerr where "errNotFound = ErrNew ''real binary not found''"

text \<open>The result of \<open>execReal\<close>: exit code, error, and the process when one was started.
  Whatever a process writes reaches the shim's own outputs.\<close>

definition execReal ::
  "unicode \<Rightarrow> shim \<Rightarrow> host \<Rightarrow> stdin_source \<Rightarrow> bool \<Rightarrow> 'd shim_state
   \<Rightarrow> (int \<times> goerr option \<times> process option) \<times> 'd shim_state" where
  "execReal U s h inp tee st =
     (case lookPathIn (h_runnable h) (sh_bin s) (cf_RealPath (sh_cfg s)) (h_os h) (h_pathext h) of
        None \<Rightarrow> ((exitNotFound, Some errNotFound, None), st)
      | Some path \<Rightarrow>
          if \<not> (inp = StdinFile \<and> \<not> tee) \<and> h_pipe h \<noteq> None then ((exitNotFound, h_pipe h, None), st)
          else
            let call = \<lparr>x_path = path, x_args = sh_bin s # sh_args s,
                        x_env = withEnvOS U (h_environ h) ''PATH'' (cf_RealPath (sh_cfg s)) (h_os h),
                        x_stdin = (if inp = StdinFile \<and> tee then StdinPump [] else inp)\<rparr>
            in case h_start h call of
                 Inl e \<Rightarrow> ((exitNotFound, None, None), complain (''xrr: run '' @ path @ '': '' @ err_text e) st)
               | Inr p \<Rightarrow>
                   ((shim_wait (pr_wait p), None, Some p),
                    st\<lparr>ss_execs := ss_execs st @ [call], ss_stdout := ss_stdout st @ pr_stdout p,
                       ss_stderr := ss_stderr st @ pr_stderr p\<rparr>))"

definition notFound :: "shim \<Rightarrow> host \<Rightarrow> 'd shim_state \<Rightarrow> int \<times> 'd shim_state" where
  "notFound s h st =
     (exitNotFound,
      shim_log s h outError [] exitNotFound ''real binary not found on original PATH''
        (complain (''xrr: '' @ sh_name s @ '': real binary not found on the original PATH'') st))"

definition passthrough :: "unicode \<Rightarrow> shim \<Rightarrow> host \<Rightarrow> 'd shim_state \<Rightarrow> int \<times> 'd shim_state" where
  "passthrough U s h st =
     (case execReal U s h StdinFile False st of
        ((code, err, p), st1) \<Rightarrow>
          if err = Some errNotFound then notFound s h st1
          else (code, shim_log s h outPassthrough [] code [] st1))"

definition captureEnv :: "shim \<Rightarrow> host \<Rightarrow> (string \<times> string) list" where
  "captureEnv s h =
     foldl (\<lambda>m k. case h_lookupEnv h k of Some v \<Rightarrow> AList.update k (env_scrub (sh_env s) v) m | None \<Rightarrow> m) []
       (cf_EnvCapture (sh_cfg s))"

definition saveFailed :: "shim \<Rightarrow> host \<Rightarrow> string \<Rightarrow> int \<Rightarrow> goerr \<Rightarrow> 'd shim_state \<Rightarrow> int \<times> 'd shim_state" where
  "saveFailed s h fp code err st =
     (code,
      shim_log s h outError fp code (''cassette write failed: '' @ err_text err)
        (complain (''xrr: record '' @ sh_name s @ '': '' @ err_text err) st))"

text \<open>\<open>stdinSource\<close> hides the file unless standard input is a character device.\<close>

definition stdinSource :: "host \<Rightarrow> stdin_source" where
  "stdinSource h = (if h_charDevice h then StdinFile else StdinPump [])"

definition live_request :: "shim \<Rightarrow> string \<Rightarrow> exec_Request" where
  "live_request s stdin = \<lparr>er_Argv = Some (shim_argv s), er_Stdin = stdin, er_Cwd = [], er_Env = []\<rparr>"

definition saved_request :: "shim \<Rightarrow> host \<Rightarrow> string \<Rightarrow> exec_Request" where
  "saved_request s h stdin =
     \<lparr>er_Argv = Some (safeArgv s), er_Stdin = env_scrub (sh_env s) stdin, er_Cwd = [], er_Env = captureEnv s h\<rparr>"

definition saved_response :: "shim \<Rightarrow> host \<Rightarrow> string \<Rightarrow> string \<Rightarrow> int \<Rightarrow> exec_Response" where
  "saved_response s h out errb code =
     \<lparr>ep_Stdout = env_scrub (sh_env s) out, ep_Stderr = env_scrub (sh_env s) errb, ep_ExitCode = code,
      ep_DurationMs = h_durationMs h\<rparr>"

definition exec_fields :: "exec_Request \<Rightarrow> gval" where
  "exec_fields r = request_fields (ExecRequest r)"

definition shim_record :: "unicode \<Rightarrow> shim \<Rightarrow> host \<Rightarrow> 'd shim_state \<Rightarrow> int \<times> 'd shim_state" where
  "shim_record U s h st =
     (case execReal U s h (stdinSource h) True st of
        ((code, err, p), st1) \<Rightarrow>
          if err = Some errNotFound then notFound s h st1
          else
            let fed = (case p of Some q \<Rightarrow> pr_fed q | None \<Rightarrow> []);
                out = (case p of Some q \<Rightarrow> pr_stdout q | None \<Rightarrow> []);
                errb = (case p of Some q \<Rightarrow> pr_stderr q | None \<Rightarrow> [])
            in case exec_Fingerprint (ExecRequest (live_request s fed)) of
                 Inl ferr \<Rightarrow> saveFailed s h [] code ferr st1
               | Inr fp \<Rightarrow>
                   (case Save (NewFileCassette (cf_CassetteDir (sh_cfg s))) ''exec'' fp
                           (Some (exec_fields (saved_request s h fed)))
                           (Some (exec_response_fields (saved_response s h out errb code)))
                           (if code \<noteq> 0 then Some (ErrNew (''exit status '' @ show_int code)) else None) (ss_world st1) of
                      (Some e, w) \<Rightarrow> saveFailed s h fp code e (st1\<lparr>ss_world := w\<rparr>)
                    | (None, w) \<Rightarrow> (code, shim_log s h outRecorded fp code [] (st1\<lparr>ss_world := w\<rparr>))))"

definition miss :: "unicode \<Rightarrow> shim \<Rightarrow> host \<Rightarrow> string \<Rightarrow> string \<Rightarrow> 'd shim_state \<Rightarrow> int \<times> 'd shim_state" where
  "miss U s h fp stdin st =
     (if \<not> cf_Strict (sh_cfg s)
      then (case execReal U s h (StdinPump stdin) False st of
              ((code, err, p), st1) \<Rightarrow>
                if err = Some errNotFound then notFound s h st1
                else (code, shim_log s h outPassthrough fp code ''cassette miss, --strict=false: ran real binary'' st1))
      else
        (exitMiss,
         shim_log s h outMiss fp exitMiss []
           (complain (''xrr: cassette miss: '' @ join_with '' '' (safeArgv s) @ '' (fingerprint '' @ fp @ '', dir ''
                       @ cf_CassetteDir (sh_cfg s) @ '')'') st)))"

text \<open>\<open>dec\<close> is \<^verbatim>\<open>Node.Decode\<close> into an \<^verbatim>\<open>xexec.Response\<close>.\<close>

definition shim_replay ::
  "unicode \<Rightarrow> (ynode \<Rightarrow> exec_Response res) \<Rightarrow> shim \<Rightarrow> host \<Rightarrow> 'd shim_state \<Rightarrow> int \<times> 'd shim_state" where
  "shim_replay U dec s h st =
     (let stdin = readStdinIdle h in
      case exec_Fingerprint (ExecRequest (live_request s stdin)) of
        Inl e \<Rightarrow>
          (exitUsage, shim_log s h outError [] exitUsage (err_text e)
             (complain (''xrr: fingerprint '' @ sh_name s @ '': '' @ err_text e) st))
      | Inr fp \<Rightarrow>
          (case Load_as (y_map (w_yaml (ss_world st))) dec (NewFileCassette (cf_CassetteDir (sh_cfg s))) ''exec'' fp (ss_world st) of
             Inl e \<Rightarrow>
               if err_is e ErrCassetteMiss then miss U s h fp stdin st
               else (exitUsage, shim_log s h outError fp exitUsage (err_text e)
                       (complain (''xrr: load cassette for '' @ sh_name s @ '': '' @ err_text e) st))
           | Inr (_, resp, recErr) \<Rightarrow>
               let code = (if ep_ExitCode resp < 0 \<or> ep_ExitCode resp = 0 \<and> recErr \<noteq> [] then 1 else ep_ExitCode resp)
               in (code, shim_log s h outReplayed fp code []
                     (st\<lparr>ss_stdout := ss_stdout st @ ep_Stdout resp, ss_stderr := ss_stderr st @ ep_Stderr resp\<rparr>))))"

definition shim_run ::
  "unicode \<Rightarrow> (ynode \<Rightarrow> exec_Response res) \<Rightarrow> shim \<Rightarrow> host \<Rightarrow> 'd shim_state \<Rightarrow> int \<times> 'd shim_state" where
  "shim_run U dec s h st =
     (if inNames U (cf_Deny (sh_cfg s)) (sh_name s)
      then (exitDenied,
            shim_log s h outDenied [] exitDenied ''blocked, real binary not executed''
              (complain (''xrr: denied: '' @ join_with '' '' (safeArgv s)
                 @ '' (side-effect command blocked by xrr run; real binary not executed)'') st))
      else if cf_Mode (sh_cfg s) = ModeRecord then shim_record U s h st
      else if cf_Mode (sh_cfg s) = ModeReplay then shim_replay U dec s h st
      else passthrough U s h st)"

definition new_shim :: "unicode \<Rightarrow> runConfig \<Rightarrow> (string \<Rightarrow> string) \<Rightarrow> host \<Rightarrow> string \<Rightarrow> string list \<Rightarrow> shim" where
  "new_shim U cfg getenv h fl args =
     (let bin = cmdFor U (cf_Cmds cfg) fl (h_os h); rd = NewRedactor U (RedactConfigFromEnv U getenv)
      in \<lparr>sh_cfg = cfg, sh_name = cassetteName U bin, sh_bin = bin, sh_args = args, sh_rd = rd,
          sh_env = collectEnvSecrets rd (h_environ h) (cf_ScrubDeny cfg) (cf_ScrubAllow cfg)\<rparr>)"

definition shimMain ::
  "unicode \<Rightarrow> (ynode \<Rightarrow> exec_Response res) \<Rightarrow> runConfig res \<Rightarrow> (string \<Rightarrow> string) \<Rightarrow> host \<Rightarrow> string \<Rightarrow> string list
   \<Rightarrow> 'd shim_state \<Rightarrow> int \<times> 'd shim_state" where
  "shimMain U dec loadedCfg getenv h fl args st =
     (case loadedCfg of
        Inl e \<Rightarrow> (exitUsage, complain (''xrr shim '' @ fl @ '': '' @ err_text e) st)
      | Inr cfg \<Rightarrow> shim_run U dec (new_shim U cfg getenv h fl args) h st)"

subsection \<open>The run (run.go, main.go)\<close>

text \<open>What the steps of a run return: locating the binary, creating the directories, installing the
  shims, writing their configuration, finding the child, running it, reading the call log back and
  writing the report file.\<close>

record run_io =
  io_self :: "string res"
  io_tempDir :: "string res"
  io_mkdir :: "string \<Rightarrow> goerr option"
  io_evalSymlinks :: "string \<Rightarrow> string option"
  io_link :: "string \<Rightarrow> string \<Rightarrow> goerr option"
  io_writeConfig :: "goerr option"
  io_lookPath :: "string \<Rightarrow> string res"
  io_environ :: "string list"
  io_child :: "exec_call \<Rightarrow> wait_result res"
  io_calls :: "callEntry list res"
  io_writeReport :: "goerr option"

definition waitForwardingSignals :: "run_io \<Rightarrow> exec_call \<Rightarrow> int" where
  "waitForwardingSignals io call = (case io_child io call of Inl e \<Rightarrow> exitNotFound | Inr r \<Rightarrow> exitCodeOf r)"

text \<open>The call of the child of a run.\<close>

definition child_call :: "unicode \<Rightarrow> string \<Rightarrow> run_io \<Rightarrow> runConfig \<Rightarrow> string \<Rightarrow> string \<Rightarrow> string list \<Rightarrow> exec_call" where
  "child_call U goos io cfg runDir path child =
     \<lparr>x_path = path, x_args = child,
      x_env = withEnvOS U (withEnvOS U (io_environ io) ''PATH''
                (path_Join runDir binSubdir @ '':'' @ cf_RealPath cfg) goos) runDirEnv runDir goos,
      x_stdin = StdinFile\<rparr>"

definition execute :: "unicode \<Rightarrow> string \<Rightarrow> run_io \<Rightarrow> runOpts \<Rightarrow> runConfig \<Rightarrow> string list \<Rightarrow> int" where
  "execute U goos io opts cfg child =
     (case io_self io of
        Inl e \<Rightarrow> exitUsage
      | Inr self \<Rightarrow>
          (case io_tempDir io of
             Inl e \<Rightarrow> exitUsage
           | Inr runDir \<Rightarrow>
               let binDir = path_Join runDir binSubdir in
               if io_mkdir io binDir \<noteq> None then exitUsage
               else if fst (installShims U (io_evalSymlinks io) (io_link io) binDir self (op_shim opts @ cf_Deny cfg) goos) \<noteq> None
               then exitUsage
               else if io_writeConfig io \<noteq> None then exitUsage
               else case io_lookPath io (hd child) of
                 Inl e \<Rightarrow> exitNotFound
               | Inr path \<Rightarrow>
                   let code = waitForwardingSignals io (child_call U goos io cfg runDir path child) in
                   (case io_calls io of
                      Inl e \<Rightarrow> exitViolation
                    | Inr calls \<Rightarrow>
                        if op_reportFile opts \<noteq> [] \<and> io_writeReport io \<noteq> None then exitViolation
                        else if code \<noteq> 0 then code
                        else if anyFailing calls then exitViolation
                        else exitOK)))"

text \<open>\<open>runCmd\<close> from the point where the flags are parsed: \<open>fl\<close> holds the flags that
  were given, \<open>args\<close> what follows them.\<close>

definition runCmd ::
  "unicode \<Rightarrow> ('d \<Rightarrow> goerr option \<times> settings) \<Rightarrow> (string \<Rightarrow> int option) \<Rightarrow> run_host \<Rightarrow> run_io \<Rightarrow> settings \<Rightarrow> string
   \<Rightarrow> string list \<Rightarrow> 'd world \<Rightarrow> int" where
  "runCmd U dec dur h io fl configPath args w =
     (if settings_validate dur fl \<noteq> None then exitUsage
      else case loadLayers dec dur configPath fl w of
        Inl e \<Rightarrow> exitUsage
      | Inr layers \<Rightarrow>
          let opts = toOpts dur layers in
          (case resolve U h opts args of
             (Inl e, _) \<Rightarrow> exitUsage
           | (Inr cfg, _) \<Rightarrow> execute U (h_goos h) io opts cfg args))"

definition dispatch :: "(string list \<Rightarrow> int) \<Rightarrow> string list \<Rightarrow> int" where
  "dispatch run args =
     (case args of
        [] \<Rightarrow> exitUsage
      | cmd # rest \<Rightarrow>
          if cmd = ''run'' then run rest
          else if cmd \<in> set [''-v'', ''--version'', ''version''] then exitOK
          else if cmd \<in> set [''-h'', ''--help'', ''help''] then exitOK
          else exitUsage)"

text \<open>\<open>runAsShim\<close> decides by the place of the executable whether the process is a shim.\<close>

definition runAsShim :: "(string \<Rightarrow> bool) \<Rightarrow> (string \<Rightarrow> string \<Rightarrow> int) \<Rightarrow> string res \<Rightarrow> int option" where
  "runAsShim is_file serve exe =
     (case exe of
        Inl e \<Rightarrow> None
      | Inr x \<Rightarrow> (case shimIdentity is_file x of None \<Rightarrow> None | Some (runDir, fl) \<Rightarrow> Some (serve runDir fl)))"

definition resolveVersion :: "string \<Rightarrow> string option \<Rightarrow> string" where
  "resolveVersion version buildInfo =
     (if version \<noteq> [] then version
      else case buildInfo of Some v \<Rightarrow> if v \<noteq> [] \<and> v \<noteq> ''(devel)'' then v else ''dev'' | None \<Rightarrow> ''dev'')"

subsection \<open>What one shim call does\<close>

lemma complain_fields [simp]:
  "ss_calls (complain m st) = ss_calls st" "ss_execs (complain m st) = ss_execs st"
  "ss_world (complain m st) = ss_world st" "ss_stdout (complain m st) = ss_stdout st"
  by (simp_all add: complain_def)

lemma shim_log_fields [simp]:
  "ss_execs (shim_log s h out fp code d st) = ss_execs st" "ss_world (shim_log s h out fp code d st) = ss_world st"
  "ss_stdout (shim_log s h out fp code d st) = ss_stdout st"
  by (simp_all add: shim_log_def split: option.split)

lemma shim_log_calls:
  "h_log h = None \<Longrightarrow> ss_calls (shim_log s h out fp code d st) = ss_calls st @
     [\<lparr>ce_Cmd = sh_name s, ce_Argv = safeArgv s, ce_Outcome = out, ce_Fingerprint = fp, ce_ExitCode = code, ce_Detail = d\<rparr>]"
  by (simp add: shim_log_def)

lemma shim_log_stderr: "h_log h = None \<Longrightarrow> ss_stderr (shim_log s h out fp code d st) = ss_stderr st"
  by (simp add: shim_log_def)

lemma execReal_fields:
  "ss_calls (snd (execReal U s h i t st)) = ss_calls st" "ss_world (snd (execReal U s h i t st)) = ss_world st"
  by (simp_all add: execReal_def Let_def split: option.split sum.split)

text \<open>One call, one entry: whatever happens, a shim whose log works appends exactly one entry, with
  its scrubbed arguments and the exit code it returns.\<close>

definition logs_one :: "shim \<Rightarrow> 'd shim_state \<Rightarrow> int \<times> 'd shim_state \<Rightarrow> bool" where
  "logs_one s st r \<longleftrightarrow> (\<exists>e. ss_calls (snd r) = ss_calls st @ [e] \<and> ce_ExitCode e = fst r \<and> ce_Argv e = safeArgv s)"

lemma notFound_logs: "h_log h = None \<Longrightarrow> ss_calls st1 = ss_calls st \<Longrightarrow> logs_one s st (notFound s h st1)"
  by (simp add: logs_one_def notFound_def shim_log_calls)

lemma saveFailed_logs: "h_log h = None \<Longrightarrow> ss_calls st1 = ss_calls st \<Longrightarrow> logs_one s st (saveFailed s h fp c e st1)"
  by (simp add: logs_one_def saveFailed_def shim_log_calls)

lemma log_logs: "h_log h = None \<Longrightarrow> ss_calls st1 = ss_calls st \<Longrightarrow> logs_one s st (c, shim_log s h out fp c d st1)"
  by (simp add: logs_one_def shim_log_calls)

lemmas logs = notFound_logs saveFailed_logs log_logs

lemma shim_run_logs: "h_log h = None \<Longrightarrow> logs_one s st (shim_run U dec s h st)"
proof -
  assume l: "h_log h = None"
  have x: "ss_calls st1 = ss_calls st" if "execReal U s h i t st = (r, st1)" for i t r st1
    using execReal_fields(1)[of U s h i t st] that by simp
  have "logs_one s st (miss U s h fp inp st)" for fp inp
    using l x by (auto simp: miss_def intro!: logs split: prod.split)
  then have "logs_one s st (shim_replay U dec s h st)"
    using l by (auto simp: shim_replay_def Let_def intro!: logs split: sum.split prod.split)
  moreover have "logs_one s st (shim_record U s h st)"
    using l x by (auto simp: shim_record_def Let_def intro!: logs split: sum.split prod.split option.split)
  moreover have "logs_one s st (passthrough U s h st)"
    using l x by (auto simp: passthrough_def intro!: logs split: prod.split)
  ultimately show ?thesis using l by (simp add: shim_run_def log_logs)
qed

subsection \<open>A run and its shims\<close>

text \<open>The calls of a run, one shim after the other on the same state.\<close>

definition shim_calls ::
  "unicode \<Rightarrow> (ynode \<Rightarrow> exec_Response res) \<Rightarrow> (shim \<times> host) list \<Rightarrow> 'd shim_state \<Rightarrow> 'd shim_state" where
  "shim_calls U dec cs st = fold (\<lambda>(s, h) st. snd (shim_run U dec s h st)) cs st"

lemma shim_calls_log:
  "list_all (\<lambda>(s, h). h_log h = None) cs \<Longrightarrow>
   \<exists>es. ss_calls (shim_calls U dec cs st) = ss_calls st @ es \<and> length es = length cs"
proof (induction cs arbitrary: st)
  case (Cons c cs)
  obtain s h where c: "c = (s, h)" by (cases c)
  obtain e where "ss_calls (snd (shim_run U dec s h st)) = ss_calls st @ [e]"
    using shim_run_logs[of h s st U dec] Cons.prems by (auto simp: c logs_one_def)
  moreover obtain es where "ss_calls (shim_calls U dec cs (snd (shim_run U dec s h st)))
      = ss_calls (snd (shim_run U dec s h st)) @ es" "length es = length cs"
    using Cons.IH[of "snd (shim_run U dec s h st)"] Cons.prems by auto
  ultimately show ?case by (intro exI[of _ "e # es"]) (simp add: c shim_calls_def)
qed (simp add: shim_calls_def)

lemma execute_failing:
  assumes "io_calls io = Inr calls" "anyFailing calls"
  shows "execute U goos io opts cfg child \<noteq> 0"
  using assms by (auto simp: execute_def exit_defs Let_def split: sum.split)

lemma shim_name:
  assumes r: "resolve U h opts child = (Inr cfg, made)" and p: "plain_commands U opts" and os: "h_os k = h_goos h"
    and n: "n \<in> set (op_shim opts @ cf_Deny cfg)"
  shows "sh_name (new_shim U cfg getenv k (shimFileName U n (h_goos h)) args) = cassetteName U n"
    "sh_bin (new_shim U cfg getenv k (shimFileName U n (h_goos h)) args) = n"
proof -
  have "is_ascii (shimFileName U n (h_goos h))"
    using resolved_names(4)[OF r p n] by (auto simp: shimFileName_def) (simp add: is_ascii_def)
  then have "cmdFor U (cf_Cmds cfg) (shimFileName U n (h_goos h)) (h_goos h) = n"
    using resolved_cmdFor[OF r p refl resolved_cmds_distinct[OF r] n] by simp
  then show "sh_name (new_shim U cfg getenv k (shimFileName U n (h_goos h)) args) = cassetteName U n"
    "sh_bin (new_shim U cfg getenv k (shimFileName U n (h_goos h)) args) = n"
    by (simp_all add: new_shim_def Let_def os)
qed

subsection \<open>Properties\<close>

text \<open>C16: A denied command never runs, and the run that tried it fails. Take any command that a
  resolved configuration denies and call its shim with any arguments in any mode: it exits with
  126, starts no process, touches neither the cassettes nor standard output; and whatever shims
  run before and after it, a run that finds the resulting call log exits with a code other than
  zero.\<close>

theorem denied_command_never_runs:
  assumes "resolve U h opts child = (Inr cfg, made)" "plain_commands U opts" "n \<in> set (cf_Deny cfg)"
    and "h_os k = h_goos h" "h_log k = None" "list_all (\<lambda>(s, h). h_log h = None) post"
  shows "let s = new_shim U cfg getenv k (shimFileName U n (h_goos h)) args; r = shim_run U dec s k st
    in fst r = exitDenied \<and> ss_execs (snd r) = ss_execs st \<and> ss_world (snd r) = ss_world st
      \<and> ss_stdout (snd r) = ss_stdout st
      \<and> (io_calls io = Inr (ss_calls (shim_calls U dec post (snd r))) \<longrightarrow> execute U goos io opts' cfg' child' \<noteq> 0)"
proof -
  let ?s = "new_shim U cfg getenv k (shimFileName U n (h_goos h)) args"
  have n: "n \<in> set (op_shim opts @ cf_Deny cfg)" using assms(3) by simp
  have "single_ext U n" using resolved_names(4)[OF assms(1,2) n] by blast
  then have "inNames U (cf_Deny cfg) (sh_name ?s)"
    using assms(3) shim_name(1)[OF assms(1,2,4) n, of getenv args] by (auto simp: inNames_iff single_ext_def)
  moreover have "sh_cfg ?s = cfg" by (simp add: new_shim_def Let_def)
  ultimately have run: "shim_run U dec ?s k st = (exitDenied,
      shim_log ?s k outDenied [] exitDenied ''blocked, real binary not executed''
        (complain (''xrr: denied: '' @ join_with '' '' (safeArgv ?s)
           @ '' (side-effect command blocked by xrr run; real binary not executed)'') st))"
    by (simp add: shim_run_def)
  obtain es where "ss_calls (shim_calls U dec post (snd (shim_run U dec ?s k st)))
      = ss_calls (snd (shim_run U dec ?s k st)) @ es"
    using shim_calls_log[OF assms(6)] by blast
  then have "anyFailing (ss_calls (shim_calls U dec post (snd (shim_run U dec ?s k st))))"
    by (simp add: run shim_log_calls[OF assms(5)] anyFailing_def failing_def)
  then show ?thesis
    using execute_failing by (simp add: Let_def run)
qed

text \<open>C40: Strict replay is hermetic: a replaying shim whose configuration is strict starts no process
  and writes no cassette, and what it returns and prints does not depend on the binaries that are
  installed or on what they would do.\<close>

theorem strict_replay_is_hermetic:
  assumes "cf_Mode (sh_cfg s) = ModeReplay" "cf_Strict (sh_cfg s)"
  shows "ss_execs (snd (shim_run U dec s h st)) = ss_execs st
    \<and> ss_world (snd (shim_run U dec s h st)) = ss_world st
    \<and> shim_run U dec s (h\<lparr>h_runnable := f, h_pipe := e, h_start := g\<rparr>) st = shim_run U dec s h st"
proof -
  let ?k = "h\<lparr>h_runnable := f, h_pipe := e, h_start := g\<rparr>"
  have l: "shim_log s ?k out fp c d x = shim_log s h out fp c d x" for out fp c d and x :: "'a shim_state"
    by (simp add: shim_log_def)
  have "miss U s ?k fp i x = miss U s h fp i x" "ss_execs (snd (miss U s h fp i x)) = ss_execs x"
    "ss_world (snd (miss U s h fp i x)) = ss_world x" for fp i and x :: "'a shim_state"
    using assms(2) by (simp_all add: miss_def l)
  then show ?thesis
    using assms(1)
    by (simp add: shim_run_def shim_replay_def readStdinIdle_def l mode_defs Let_def split: sum.split prod.split)
qed

text \<open>The law of the YAML library that replay relies on: an encoded response decodes to itself.\<close>

definition decodes_response :: "'d yaml \<Rightarrow> (ynode \<Rightarrow> exec_Response res) \<Rightarrow> bool" where
  "decodes_response Y dec \<longleftrightarrow>
     (\<forall>p n. plain (exec_response_fields p) \<and> in_int64 (ep_ExitCode p) \<and> in_int64 (ep_DurationMs p)
        \<and> y_encode Y (exec_response_fields p) = Inr n \<longrightarrow> dec n = Inr p)"

lemma show_int_utf8: "utf8_valid (''exit status '' @ show_int c)"
proof -
  have "list_all (\<lambda>c. (of_char c :: nat) < 128) (show_nat n)" for n
    using show_nat_digits[of n] by (auto simp: list_all_iff is_digit_def)
  then have "is_ascii (show_int c)" by (simp add: show_int_def is_ascii_def)
  then have "is_ascii (''exit status '' @ show_int c)" by (simp add: is_ascii_def)
  then show ?thesis by (rule is_ascii_utf8_valid)
qed

lemma shim_record_saved:
  assumes live: "execReal U s h (stdinSource h) True st = ((code, None, Some p), st1)"
    and rec: "shim_record U s h st = (c', st2)" "h_log h = None" "ce_Outcome (last (ss_calls st2)) = outRecorded"
    and fp: "exec_Fingerprint (ExecRequest (live_request s (pr_fed p))) = Inr fp"
  shows "c' = code" "ss_stdout st2 = ss_stdout st1" "ss_stderr st2 = ss_stderr st1"
    "Save (NewFileCassette (cf_CassetteDir (sh_cfg s))) ''exec'' fp
       (Some (exec_fields (saved_request s h (pr_fed p))))
       (Some (exec_response_fields (saved_response s h (pr_stdout p) (pr_stderr p) code)))
       (if code \<noteq> 0 then Some (ErrNew (''exit status '' @ show_int code)) else None) (ss_world st) = (None, ss_world st2)"
proof -
  let ?sv = "Save (NewFileCassette (cf_CassetteDir (sh_cfg s))) ''exec'' fp
       (Some (exec_fields (saved_request s h (pr_fed p))))
       (Some (exec_response_fields (saved_response s h (pr_stdout p) (pr_stderr p) code)))
       (if code \<noteq> 0 then Some (ErrNew (''exit status '' @ show_int code)) else None) (ss_world st)"
  have w: "ss_world st1 = ss_world st" using execReal_fields(2)[of U s h "stdinSource h" True st] live by simp
  obtain e w2 where sv: "?sv = (e, w2)" by fastforce
  have r: "shim_record U s h st = (case e of
      Some e \<Rightarrow> saveFailed s h fp code e (st1\<lparr>ss_world := w2\<rparr>)
    | None \<Rightarrow> (code, shim_log s h outRecorded fp code [] (st1\<lparr>ss_world := w2\<rparr>)))"
    using live fp sv by (simp add: shim_record_def w Let_def errNotFound_def split: option.split)
  have "e = None"
  proof (rule ccontr)
    assume "e \<noteq> None"
    then have "ce_Outcome (last (ss_calls st2)) = outError"
      using rec(1,2) r by (auto simp: saveFailed_def shim_log_calls)
    then show False using rec(3) by (simp add: outcome_defs)
  qed
  then have "st2 = shim_log s h outRecorded fp code [] (st1\<lparr>ss_world := w2\<rparr>)" "c' = code"
    using rec(1) r by auto
  then show "c' = code" "ss_stdout st2 = ss_stdout st1" "ss_stderr st2 = ss_stderr st1" "?sv = (None, ss_world st2)"
    using sv rec(2) \<open>e = None\<close> by (simp_all add: shim_log_stderr)
qed

lemma shim_replay_hit:
  assumes fp: "exec_Fingerprint (ExecRequest (live_request s (readStdinIdle h))) = Inr fp"
    and "Load_as (y_map (w_yaml (ss_world st))) dec (NewFileCassette (cf_CassetteDir (sh_cfg s))) ''exec'' fp (ss_world st)
      = Inr (q, resp, if ep_ExitCode resp = 0 then [] else e)"
    and "0 \<le> ep_ExitCode resp"
  shows "shim_replay U dec s h st = (ep_ExitCode resp, shim_log s h outReplayed fp (ep_ExitCode resp) []
     (st\<lparr>ss_stdout := ss_stdout st @ ep_Stdout resp, ss_stderr := ss_stderr st @ ep_Stderr resp\<rparr>))"
  using assms by (auto simp: shim_replay_def Let_def)

text \<open>What a recorded call leaves to be loaded: the scrubbed response, under the fingerprint of the
  live request.\<close>

lemma shim_recorded_loads:
  assumes live: "execReal U s h (stdinSource h) True st = ((code, None, Some p), st1)" "in_int64 code" "in_int64 (h_durationMs h)"
    and c: "c = NewFileCassette (cf_CassetteDir (sh_cfg s))" "store_ok c (ss_world st)" "decodes_response (w_yaml (ss_world st)) dec"
    and req: "exec_ok (live_request s (pr_fed p))" "exec_fields (saved_request s h (pr_fed p)) = GMap qvs"
      "plain (GMap qvs)" "untouched c (ss_world st) (GMap qvs)"
    and resp: "exec_response_fields (saved_response s h (pr_stdout p) (pr_stderr p) code) = g" "plain g"
      "untouched c (ss_world st) g"
    and rec: "shim_record U s h st = (c', st2)" "h_log h = None" "ce_Outcome (last (ss_calls st2)) = outRecorded"
  obtains fp q where "exec_Fingerprint (ExecRequest (live_request s (pr_fed p))) = Inr fp" "key_ok (''exec'', fp)"
    "Save c ''exec'' fp (Some (GMap qvs)) (Some g)
       (if code \<noteq> 0 then Some (ErrNew (''exit status '' @ show_int code)) else None) (ss_world st) = (None, ss_world st2)"
    "Load_as (y_map (w_yaml (ss_world st2))) dec c ''exec'' fp (ss_world st2)
       = Inr (q, saved_response s h (pr_stdout p) (pr_stderr p) code, if code = 0 then [] else ''exit status '' @ show_int code)"
proof -
  let ?r = "saved_response s h (pr_stdout p) (pr_stderr p) code"
  let ?e = "if code \<noteq> 0 then Some (ErrNew (''exit status '' @ show_int code)) else None"
  obtain fp where fp: "exec_Fingerprint (ExecRequest (live_request s (pr_fed p))) = Inr fp" "key_ok (''exec'', fp)"
    using exec.fp_total[OF req(1)] by (auto simp: key_ok_def field_names)
  note saved = shim_record_saved(4)[OF live(1) rec fp(1), unfolded req(2) resp(1), folded c(1)]
  obtain q where q: "stored_as (y_map (w_yaml (ss_world st))) (ss_world st) (activeRedactor c (ss_world st)) (GMap qvs) = Inr q"
    using stored_map_untouched[OF c(2) req(3,4)] by (auto simp: stored_map_def stored_as_def)
  have Y: "yaml_ok (w_yaml (ss_world st))" using c(2) by (simp add: store_ok_def world_ok_def)
  obtain n where n: "y_encode (w_yaml (ss_world st)) g = Inr n" using encode_plain[OF Y resp(2)] by blast
  have "dec n = Inr ?r"
    using c(3)[unfolded decodes_response_def, rule_format, of ?r n] resp(1,2) n live(2,3) by (simp add: saved_response_def)
  then have p: "stored_as dec (ss_world st) (activeRedactor c (ss_world st)) g = Inr ?r"
    using n resp(3) by (simp add: stored_as_def untouched_def)
  have "interaction_ok (Some (GMap qvs), Some g, ?e)"
    using req(3) resp(2) show_int_utf8[of code] by (simp add: interaction_ok_def normalizePayload_def)
  from Load_as_Save[OF c(2) fp(2) this saved, of "y_map (w_yaml (ss_world st))" dec]
  have "Load_as (y_map (w_yaml (ss_world st))) dec c ''exec'' fp (ss_world st2) = Inr (q, ?r, errstr ?e)"
    using q p by (simp add: normalizePayload_def)
  moreover have "w_yaml (ss_world st2) = w_yaml (ss_world st)"
    using same_but_files_fields(1)[OF Save_other(1)[OF saved]] .
  ultimately show thesis by (intro that[OF fp saved, of q]) simp
qed

text \<open>What a shim records it replays. When a recording shim ran the real binary and logged the
  call as recorded, a strict or lenient replaying shim of the same command, called with the same
  arguments and fed the octets the real binary was fed, prints the recorded standard output and
  standard error (with the selected secrets of the environment replaced) and returns the same exit
  code, without starting a process; while recording, the caller saw the unscrubbed output. The
  payloads are ones the cassette redactor leaves alone.\<close>

theorem shim_record_then_replay:
  assumes s: "cf_Mode (sh_cfg s) = ModeRecord" "\<not> inNames U (cf_Deny (sh_cfg s)) (sh_name s)"
    and t: "t = s\<lparr>sh_cfg := (sh_cfg s)\<lparr>cf_Mode := ModeReplay\<rparr>\<rparr>" "readStdinIdle k = pr_fed p" "h_log k = None"
    and live: "execReal U s h (stdinSource h) True st = ((code, None, Some p), st1)" "0 \<le> code" "in_int64 code"
      "in_int64 (h_durationMs h)"
    and c: "c = NewFileCassette (cf_CassetteDir (sh_cfg s))" "store_ok c (ss_world st)" "decodes_response (w_yaml (ss_world st)) dec"
    and req: "exec_ok (live_request s (pr_fed p))" "exec_fields (saved_request s h (pr_fed p)) = GMap qvs"
      "plain (GMap qvs)" "untouched c (ss_world st) (GMap qvs)"
    and resp: "exec_response_fields (saved_response s h (pr_stdout p) (pr_stderr p) code) = g" "plain g"
      "untouched c (ss_world st) g"
    and rec: "shim_run U dec s h st = (c', st2)" "h_log h = None" "ce_Outcome (last (ss_calls st2)) = outRecorded"
    and later: "ss_world st3 = ss_world st2"
  shows "c' = code \<and> ss_stdout st2 = ss_stdout st1
    \<and> (\<exists>st4. shim_run U dec t k st3 = (code, st4) \<and> ss_execs st4 = ss_execs st3 \<and> ss_world st4 = ss_world st3
         \<and> ss_stdout st4 = ss_stdout st3 @ env_scrub (sh_env s) (pr_stdout p)
         \<and> ss_stderr st4 = ss_stderr st3 @ env_scrub (sh_env s) (pr_stderr p))"
proof -
  let ?r = "saved_response s h (pr_stdout p) (pr_stderr p) code"
  have r: "shim_record U s h st = (c', st2)" using rec(1) s by (simp add: shim_run_def mode_defs)
  obtain fp q where fp: "exec_Fingerprint (ExecRequest (live_request s (pr_fed p))) = Inr fp"
    and load: "Load_as (y_map (w_yaml (ss_world st2))) dec c ''exec'' fp (ss_world st2)
       = Inr (q, ?r, if code = 0 then [] else ''exit status '' @ show_int code)"
    by (rule shim_recorded_loads[OF live(1,3,4) c req resp r rec(2,3)])
  have load3: "Load_as (y_map (w_yaml (ss_world st3))) dec (NewFileCassette (cf_CassetteDir (sh_cfg t))) ''exec'' fp
      (ss_world st3) = Inr (q, ?r, if ep_ExitCode ?r = 0 then [] else ''exit status '' @ show_int code)"
    using load by (simp add: later c(1) t(1) saved_response_def)
  have "exec_Fingerprint (ExecRequest (live_request t (readStdinIdle k))) = Inr fp"
    using fp by (simp add: t(1,2) live_request_def shim_argv_def)
  from shim_replay_hit[OF this load3] live(2)
  have "shim_run U dec t k st3 = (code, shim_log t k outReplayed fp code []
      (st3\<lparr>ss_stdout := ss_stdout st3 @ ep_Stdout ?r, ss_stderr := ss_stderr st3 @ ep_Stderr ?r\<rparr>))"
    using s(2) by (simp add: shim_run_def t(1) mode_defs saved_response_def)
  then show ?thesis
    using shim_record_saved(1,2)[OF live(1) r rec(2,3) fp] t(3) by (simp add: shim_log_stderr saved_response_def)
qed

text \<open>A terminal is not passed on as a file while recording, since the tee is always set: the child
  reads a pipe, what is typed is recorded, and the replay, which takes a terminal for empty input,
  looks for a recording of another text.\<close>

theorem terminal_input_is_pumped:
  assumes "h_charDevice h" "execReal U s h (stdinSource h) True st = ((code, None, Some p), st1)"
    and "exec_ok (live_request s (pr_fed p))" "pr_fed p \<noteq> []"
  shows "x_stdin (last (ss_execs st1)) = StdinPump [] \<and> readStdinIdle h = []
    \<and> CanonicalJSON (exec_inputs (live_request s (pr_fed p))) \<noteq> CanonicalJSON (exec_inputs (live_request s (readStdinIdle h)))"
proof -
  have r: "readStdinIdle h = []" using assms(1) by (simp add: readStdinIdle_def)
  have "exec_ok (live_request s [])" using assms(3) by (simp add: exec_ok_def live_request_def)
  then show ?thesis
    using assms r exec.text_iff[OF assms(3)]
    by (auto simp: execReal_def stdinSource_def live_request_def Let_def split: option.splits sum.splits if_splits)
qed

subsection \<open>Closed examples\<close>

definition or_zero :: "'a \<Rightarrow> 'a option \<Rightarrow> 'a" where
  "or_zero z x = (case x of Some v \<Rightarrow> v | None \<Rightarrow> z)"

definition view_response :: "gval \<Rightarrow> exec_Response" where
  "view_response g =
     \<lparr>ep_Stdout = or_zero [] (Option.bind (g_field g ''stdout'') g_str),
      ep_Stderr = or_zero [] (Option.bind (g_field g ''stderr'') g_str),
      ep_ExitCode = or_zero 0 (Option.bind (g_field g ''exit_code'') g_int),
      ep_DurationMs = or_zero 0 (Option.bind (g_field g ''duration_ms'') g_int)\<rparr>"

definition tree_dec :: "ynode \<Rightarrow> exec_Response res" where
  "tree_dec n = Inr (view_response (tree_decode n))"

lemma tree_dec_ok: "decodes_response tree_yaml tree_dec"
  unfolding decodes_response_def
proof (intro allI impI, elim conjE)
  fix p n
  assume "plain (exec_response_fields p)" "y_encode tree_yaml (exec_response_fields p) = Inr n"
  then have "tree_decode n = exec_response_fields p"
    using tree_decode_encode by (auto simp: tree_yaml_def plain_json_ok split: if_splits)
  then show "tree_dec n = Inr p"
    by (simp add: tree_dec_def view_response_def or_zero_def exec_response_fields_def)
qed

definition sample_cfg :: runConfig where
  "sample_cfg = \<lparr>cf_Mode = ModeRecord, cf_CassetteDir = ''d'', cf_RealPath = ''/bin'', cf_Strict = True, cf_Deny = [''open''],
     cf_EnvCapture = [], cf_ScrubDeny = [], cf_ScrubAllow = [], cf_Cmds = [(''x'', ''x'')], cf_StdinWaitMs = 250\<rparr>"

definition sample_shim :: shim where
  "sample_shim = \<lparr>sh_cfg = sample_cfg, sh_name = ''x'', sh_bin = ''x'', sh_args = [], sh_rd = default_redactor, sh_env = []\<rparr>"

definition sample_process :: process where
  "sample_process = \<lparr>pr_wait = WaitExit 3, pr_fed = [], pr_stdout = ''x'', pr_stderr = []\<rparr>"

definition shim_host :: host where
  "shim_host = \<lparr>h_os = ''linux'', h_environ = [], h_lookupEnv = (\<lambda>_. None), h_pathext = [], h_runnable = (\<lambda>p. p = ''/bin/x''),
     h_charDevice = False, h_input = [Closed], h_pipe = None, h_start = (\<lambda>_. Inr sample_process), h_durationMs = 0, h_log = None\<rparr>"

definition shim_start :: "ynode shim_state" where
  "shim_start = \<lparr>ss_world = tree_world, ss_stdout = [], ss_stderr = [], ss_calls = [], ss_execs = []\<rparr>"

theorem strict_replay_is_hermetic_witness:
  "let s = sample_shim\<lparr>sh_cfg := sample_cfg\<lparr>cf_Mode := ModeReplay\<rparr>\<rparr> in
   shim_run ascii_tables tree_dec s (shim_host\<lparr>h_runnable := (\<lambda>_. False), h_pipe := None, h_start := (\<lambda>_. Inl ErrEOF)\<rparr>) shim_start
   = shim_run ascii_tables tree_dec s shim_host shim_start"
proof -
  let ?s = "sample_shim\<lparr>sh_cfg := sample_cfg\<lparr>cf_Mode := ModeReplay\<rparr>\<rparr>"
  have "cf_Mode (sh_cfg ?s) = ModeReplay" "cf_Strict (sh_cfg ?s)" by (simp_all add: sample_cfg_def)
  from strict_replay_is_hermetic[OF this, where st = shim_start] show ?thesis by (simp only: Let_def)
qed

lemma sample_names: "plain_commands ascii_tables (sample_opts\<lparr>op_deny := [''open'']\<rparr>)"
  unfolding plain_commands_def single_ext_def by code_simp

lemma sample_denied:
  "\<exists>cfg. resolve ascii_tables sample_host (sample_opts\<lparr>op_deny := [''open'']\<rparr>) [''make''] = (Inr cfg, []) \<and> ''open'' \<in> set (cf_Deny cfg)"
proof -
  let ?r = "resolve ascii_tables sample_host (sample_opts\<lparr>op_deny := [''open'']\<rparr>) [''make'']"
  have "\<not> isl (fst ?r)" "snd ?r = []" by code_simp+
  then obtain cfg where "?r = (Inr cfg, [])" by (cases ?r; cases "fst ?r") auto
  moreover from resolved_names(2)[OF this] have "''open'' \<in> set (cf_Deny cfg)" by simp
  ultimately show ?thesis by blast
qed

theorem denied_command_never_runs_witness:
  "\<exists>cfg. resolve ascii_tables sample_host (sample_opts\<lparr>op_deny := [''open'']\<rparr>) [''make''] = (Inr cfg, [])
     \<and> (let r = shim_run ascii_tables tree_dec (new_shim ascii_tables cfg (\<lambda>_. []) (shim_host\<lparr>h_os := ''windows''\<rparr>) ''open.exe'' [''a''])
                  (shim_host\<lparr>h_os := ''windows''\<rparr>) shim_start
        in fst r = 126 \<and> ss_execs (snd r) = [])"
proof -
  obtain cfg where r: "resolve ascii_tables sample_host (sample_opts\<lparr>op_deny := [''open'']\<rparr>) [''make''] = (Inr cfg, [])"
    and d: "''open'' \<in> set (cf_Deny cfg)" using sample_denied by blast
  have h: "h_os (shim_host\<lparr>h_os := ''windows''\<rparr>) = h_goos sample_host" "h_log (shim_host\<lparr>h_os := ''windows''\<rparr>) = None"
    by (simp_all add: sample_host_def shim_host_def)
  have f: "shimFileName ascii_tables ''open'' (h_goos sample_host) = ''open.exe''" by code_simp
  have "list_all (\<lambda>(s :: shim, h). h_log h = None) []" by simp
  from denied_command_never_runs[OF r sample_names d h this, where st = shim_start] show ?thesis
    unfolding f using r by (auto simp: Let_def exitDenied_def, simp add: shim_start_def)
qed

lemma sample_exec:
  "\<exists>st1. execReal ascii_tables sample_shim shim_host (stdinSource shim_host) True shim_start = ((3, None, Some sample_process), st1)
     \<and> ss_stdout st1 = ''x''"
proof -
  have "lookPathIn (h_runnable shim_host) ''x'' ''/bin'' ''linux'' [] = Some ''/bin/x''" by code_simp
  then show ?thesis
    by (simp add: execReal_def sample_shim_def sample_cfg_def shim_host_def stdinSource_def sample_process_def
        shim_wait_def exitCodeOf_def shim_start_def Let_def)
qed

lemma sample_fields:
  "exec_fields (saved_request sample_shim shim_host []) = GMap [(''argv'', GList [GStr ''x''])]"
  "exec_response_fields (saved_response sample_shim shim_host ''x'' [] 3) = GMap [(''stdout'', GStr ''x''), (''exit_code'', GInt 3)]"
proof -
  have "safeArgv sample_shim = [''x'']"
    by (simp add: safeArgv_def sample_shim_def shim_argv_def scrubArgv_def scrubAll_def env_scrub_def)
  then show "exec_fields (saved_request sample_shim shim_host []) = GMap [(''argv'', GList [GStr ''x''])]"
    by (simp add: exec_fields_def saved_request_def captureEnv_def sample_shim_def sample_cfg_def env_scrub_def yaml_strs_def)
qed (simp add: exec_response_fields_def saved_response_def sample_shim_def shim_host_def env_scrub_def)

lemma sample_untouched:
  "untouched (NewFileCassette ''d'') tree_world (GMap [(''argv'', GList [GStr ''x''])])"
  "untouched (NewFileCassette ''d'') tree_world (GMap [(''stdout'', GStr ''x''), (''exit_code'', GInt 3)])"
  by (rule untouched_exec_samples)+

theorem shim_record_then_replay_witness:
  "\<exists>st2 st4. shim_run ascii_tables tree_dec sample_shim shim_host shim_start = (3, st2) \<and> ss_stdout st2 = ''x''
     \<and> shim_run ascii_tables tree_dec (sample_shim\<lparr>sh_cfg := (sh_cfg sample_shim)\<lparr>cf_Mode := ModeReplay\<rparr>\<rparr>) shim_host
         (shim_start\<lparr>ss_world := ss_world st2\<rparr>) = (3, st4)
     \<and> ss_stdout st4 = ''x'' \<and> ss_execs st4 = []"
proof -
  let ?c = "NewFileCassette ''d''" and ?U = "ascii_tables"
  let ?t = "sample_shim\<lparr>sh_cfg := (sh_cfg sample_shim)\<lparr>cf_Mode := ModeReplay\<rparr>\<rparr>"
  obtain st1 where live: "execReal ?U sample_shim shim_host (stdinSource shim_host) True shim_start = ((3, None, Some sample_process), st1)"
    and out: "ss_stdout st1 = ''x''" using sample_exec by blast
  have pr: "pr_fed sample_process = []" "pr_stdout sample_process = ''x''" "pr_stderr sample_process = []"
    by (simp_all add: sample_process_def)
  have cfg: "cf_Mode (sh_cfg sample_shim) = ModeRecord" "\<not> inNames ?U (cf_Deny (sh_cfg sample_shim)) (sh_name sample_shim)"
    "cf_CassetteDir (sh_cfg sample_shim) = ''d''" "sh_env sample_shim = []" "h_log shim_host = None"
    "readStdinIdle shim_host = []" "h_durationMs shim_host = 0" "exec_ok (live_request sample_shim [])"
    by code_simp+
  obtain fp where fp: "exec_Fingerprint (ExecRequest (live_request sample_shim [])) = Inr fp"
    using exec.fp_total[OF cfg(8)] by blast
  have "fst (Save ?c ''exec'' fp (Some (exec_fields (saved_request sample_shim shim_host [])))
      (Some (exec_response_fields (saved_response sample_shim shim_host ''x'' [] 3)))
      (Some (ErrNew (''exit status '' @ show_int 3))) tree_world) = None"
    unfolding sample_fields by (rule tree_save) (simp_all add: normalizePayload_def)
  then obtain w2 where sv: "Save ?c ''exec'' fp (Some (exec_fields (saved_request sample_shim shim_host [])))
      (Some (exec_response_fields (saved_response sample_shim shim_host ''x'' [] 3)))
      (Some (ErrNew (''exit status '' @ show_int 3))) tree_world = (None, w2)"
    by (metis prod.collapse)
  have w1: "ss_world st1 = tree_world"
    using execReal_fields(2)[of ?U sample_shim shim_host "stdinSource shim_host" True shim_start] live by (simp add: shim_start_def)
  define st2 where "st2 = shim_log sample_shim shim_host outRecorded fp 3 [] (st1\<lparr>ss_world := w2\<rparr>)"
  have rec: "shim_run ?U tree_dec sample_shim shim_host shim_start = (3, st2)"
    using live fp sv cfg by (simp add: shim_run_def mode_defs shim_record_def Let_def pr w1 st2_def)
  have last: "ce_Outcome (last (ss_calls st2)) = outRecorded" by (simp add: st2_def shim_log_calls[OF cfg(5)])
  have plain: "plain (GMap [(''argv'', GList [GStr ''x''])])"
    "plain (GMap [(''stdout'', GStr ''x''), (''exit_code'', GInt 3)])" by code_simp+
  have "3 = (3 :: int) \<and> ss_stdout st2 = ss_stdout st1
    \<and> (\<exists>st4. shim_run ?U tree_dec ?t shim_host (shim_start\<lparr>ss_world := ss_world st2\<rparr>) = (3, st4)
         \<and> ss_execs st4 = ss_execs (shim_start\<lparr>ss_world := ss_world st2\<rparr>)
         \<and> ss_world st4 = ss_world (shim_start\<lparr>ss_world := ss_world st2\<rparr>)
         \<and> ss_stdout st4 = ss_stdout (shim_start\<lparr>ss_world := ss_world st2\<rparr>) @ env_scrub (sh_env sample_shim) (pr_stdout sample_process)
         \<and> ss_stderr st4 = ss_stderr (shim_start\<lparr>ss_world := ss_world st2\<rparr>) @ env_scrub (sh_env sample_shim) (pr_stderr sample_process))"
    by (rule shim_record_then_replay[OF cfg(1,2) refl _ cfg(5) live _ _ _ refl _ _ _ _ plain(1) _ _ plain(2) _ rec cfg(5) last])
      (use cfg tree_dec_ok tree_world_ok sample_fields sample_untouched in
        \<open>simp_all add: pr in_int64_def shim_start_def tree_world_def[symmetric], simp_all add: tree_world_def\<close>)
  then show ?thesis
    using rec out by (auto simp: cfg(4) pr env_scrub_def shim_start_def)
qed

end
