(* ===== verification/Cli_Files.thy ===== *)
theory Cli_Files
  imports Go_Json Cli_Shim
begin

section \<open>The files of a run (cmd/xrr: config.go, report.go)\<close>

text \<open>
  A run hands its configuration to the shims as a JSON file of the run directory, and the shims
  hand their calls back as lines of a JSON log in it; at the end the run may write a report. The
  files are octet strings by path. A failing write either does not open the file or leaves the
  first octets of what was to be written.

  The configuration read is the configuration written, and the log file refines the list of calls
  that \<^theory_text>\<open>Cli_Shim\<close> works on: appending a call and reading the log back appends the
  entry to the list.
\<close>

record run_files =
  rf_files :: "string \<Rightarrow> string option"
  rf_read_fault :: "string \<Rightarrow> goerr option"
  rf_write_fault :: "string \<Rightarrow> (goerr \<times> nat option) option"

definition rf_ReadFile :: "string \<Rightarrow> run_files \<Rightarrow> string res" where
  "rf_ReadFile path fs =
     (case rf_read_fault fs path of
        Some e \<Rightarrow> Inl e
      | None \<Rightarrow> (case rf_files fs path of
            None \<Rightarrow> Inl (ErrNotExist (''open '' @ path @ '': no such file or directory''))
          | Some s \<Rightarrow> Inr s))"

text \<open>\<open>rf_put old path s\<close> opens the file with contents \<open>old\<close> and writes \<open>s\<close>: after truncating
  it the old contents are empty, with \<^verbatim>\<open>O_APPEND\<close> they are what is there.\<close>

definition rf_put :: "string \<Rightarrow> string \<Rightarrow> string \<Rightarrow> run_files \<Rightarrow> goerr option \<times> run_files" where
  "rf_put old path s fs =
     (case rf_write_fault fs path of
        None \<Rightarrow> (None, fs\<lparr>rf_files := (rf_files fs)(path \<mapsto> old @ s)\<rparr>)
      | Some (e, None) \<Rightarrow> (Some e, fs)
      | Some (e, Some n) \<Rightarrow> (Some e, fs\<lparr>rf_files := (rf_files fs)(path \<mapsto> old @ take n s)\<rparr>))"

definition rf_WriteFile :: "string \<Rightarrow> string \<Rightarrow> run_files \<Rightarrow> goerr option \<times> run_files" where
  "rf_WriteFile path s fs = rf_put [] path s fs"

definition rf_Append :: "string \<Rightarrow> string \<Rightarrow> run_files \<Rightarrow> goerr option \<times> run_files" where
  "rf_Append path s fs = rf_put (case rf_files fs path of None \<Rightarrow> [] | Some c \<Rightarrow> c) path s fs"

subsection \<open>The configuration file (config.go)\<close>

definition config_json :: "runConfig \<Rightarrow> json" where
  "config_json c = JObj
     ([(''mode'', JStr (cf_Mode c))] @ omit_string ''cassette_dir'' (cf_CassetteDir c)
      @ [(''real_path'', JStr (cf_RealPath c)), (''strict'', JBool (cf_Strict c)), (''deny'', json_strings (cf_Deny c))]
      @ omit_strings ''env_capture'' (cf_EnvCapture c) @ omit_strings ''scrub_deny'' (cf_ScrubDeny c)
      @ omit_strings ''scrub_allow'' (cf_ScrubAllow c)
      @ (if cf_Cmds c = [] then [] else [(''cmds'', json_map (map (\<lambda>(k, v). (k, JStr v)) (cf_Cmds c)))])
      @ [(''stdin_wait_ms'', JNum (show_int (cf_StdinWaitMs c)))])"

definition config_fields :: "(string \<times> runConfig setter) list" where
  "config_fields =
     [(''mode'', set_string (\<lambda>v. cf_Mode_update (\<lambda>_. v))),
      (''cassette_dir'', set_string (\<lambda>v. cf_CassetteDir_update (\<lambda>_. v))),
      (''real_path'', set_string (\<lambda>v. cf_RealPath_update (\<lambda>_. v))),
      (''strict'', set_bool (\<lambda>v. cf_Strict_update (\<lambda>_. v))),
      (''deny'', set_strings cf_Deny (\<lambda>v. cf_Deny_update (\<lambda>_. v))),
      (''env_capture'', set_strings cf_EnvCapture (\<lambda>v. cf_EnvCapture_update (\<lambda>_. v))),
      (''scrub_deny'', set_strings cf_ScrubDeny (\<lambda>v. cf_ScrubDeny_update (\<lambda>_. v))),
      (''scrub_allow'', set_strings cf_ScrubAllow (\<lambda>v. cf_ScrubAllow_update (\<lambda>_. v))),
      (''cmds'', set_string_map cf_Cmds (\<lambda>v. cf_Cmds_update (\<lambda>_. v))),
      (''stdin_wait_ms'', set_int (\<lambda>v. cf_StdinWaitMs_update (\<lambda>_. v)))]"

definition zero_config :: runConfig where
  "zero_config = \<lparr>cf_Mode = [], cf_CassetteDir = [], cf_RealPath = [], cf_Strict = False, cf_Deny = [],
     cf_EnvCapture = [], cf_ScrubDeny = [], cf_ScrubAllow = [], cf_Cmds = [], cf_StdinWaitMs = 0\<rparr>"

definition writeConfig :: "string \<Rightarrow> runConfig \<Rightarrow> run_files \<Rightarrow> goerr option \<times> run_files" where
  "writeConfig runDir c fs = rf_WriteFile (path_Join runDir configFile) (json_Marshal (config_json c)) fs"

definition loadConfig :: "unicode \<Rightarrow> string \<Rightarrow> run_files \<Rightarrow> runConfig res" where
  "loadConfig U runDir fs =
     (case rf_ReadFile (path_Join runDir configFile) fs of
        Inl e \<Rightarrow> Inl e
      | Inr b \<Rightarrow>
          (case json_Unmarshal U config_fields b zero_config of
             Inl e \<Rightarrow> Inl (ErrWrap (''parse '' @ configFile) e)
           | Inr c \<Rightarrow> Inr c))"

subsection \<open>The call log (report.go)\<close>

definition callsFile :: string where "callsFile = ''calls.jsonl''"

definition call_json :: "callEntry \<Rightarrow> json" where
  "call_json e = JObj
     ([(''cmd'', JStr (ce_Cmd e)), (''argv'', json_strings (ce_Argv e)), (''outcome'', JStr (ce_Outcome e))]
      @ omit_string ''fingerprint'' (ce_Fingerprint e) @ [(''exit_code'', JNum (show_int (ce_ExitCode e)))]
      @ omit_string ''detail'' (ce_Detail e))"

definition call_fields :: "(string \<times> callEntry setter) list" where
  "call_fields =
     [(''cmd'', set_string (\<lambda>v. ce_Cmd_update (\<lambda>_. v))),
      (''argv'', set_strings ce_Argv (\<lambda>v. ce_Argv_update (\<lambda>_. v))),
      (''outcome'', set_string (\<lambda>v. ce_Outcome_update (\<lambda>_. v))),
      (''fingerprint'', set_string (\<lambda>v. ce_Fingerprint_update (\<lambda>_. v))),
      (''exit_code'', set_int (\<lambda>v. ce_ExitCode_update (\<lambda>_. v))),
      (''detail'', set_string (\<lambda>v. ce_Detail_update (\<lambda>_. v)))]"

definition zero_call :: callEntry where
  "zero_call = \<lparr>ce_Cmd = [], ce_Argv = [], ce_Outcome = [], ce_Fingerprint = [], ce_ExitCode = 0, ce_Detail = []\<rparr>"

definition appendCall :: "string \<Rightarrow> callEntry \<Rightarrow> run_files \<Rightarrow> goerr option \<times> run_files" where
  "appendCall runDir e fs = rf_Append (path_Join runDir callsFile) (json_Marshal (call_json e) @ [CHR 0x0A]) fs"

fun read_lines :: "unicode \<Rightarrow> string list \<Rightarrow> callEntry list res" where
  "read_lines U [] = Inr []"
| "read_lines U (l # ls) =
     (if l = [] then read_lines U ls
      else case json_Unmarshal U call_fields l zero_call of
        Inl e \<Rightarrow> Inl (ErrWrap ''call log'' e)
      | Inr c \<Rightarrow> map_sum id (\<lambda>cs. c # cs) (read_lines U ls))"

definition readCalls :: "unicode \<Rightarrow> string \<Rightarrow> run_files \<Rightarrow> callEntry list res" where
  "readCalls U runDir fs =
     (case rf_ReadFile (path_Join runDir callsFile) fs of
        Inl e \<Rightarrow> if os_IsNotExist e then Inr [] else Inl e
      | Inr b \<Rightarrow> read_lines U (split_on (CHR 0x0A) b))"

subsection \<open>The report file (report.go)\<close>

definition counts_of :: "callEntry list \<Rightarrow> (string \<times> nat) list" where
  "counts_of calls =
     foldl (\<lambda>m c. AList.update (ce_Outcome c) (Suc (case map_of m (ce_Outcome c) of None \<Rightarrow> 0 | Some n \<Rightarrow> n)) m) [] calls"

definition report_json :: "string \<Rightarrow> callEntry list \<Rightarrow> json" where
  "report_json mode calls = JObj
     [(''mode'', JStr mode), (''failed'', JBool (anyFailing calls)),
      (''counts'', json_map (map (\<lambda>(k, n). (k, JNum (show_int (int n)))) (counts_of calls))),
      (''calls'', JArr (map call_json calls))]"

definition writeReportFile :: "string \<Rightarrow> string \<Rightarrow> callEntry list \<Rightarrow> run_files \<Rightarrow> goerr option \<times> run_files" where
  "writeReportFile path mode calls fs = rf_WriteFile path (json_MarshalIndent (report_json mode calls) @ [CHR 0x0A]) fs"

subsection \<open>Reading the log back\<close>

definition san_call :: "callEntry \<Rightarrow> callEntry" where
  "san_call e = \<lparr>ce_Cmd = sanitize (ce_Cmd e), ce_Argv = map sanitize (ce_Argv e), ce_Outcome = sanitize (ce_Outcome e),
     ce_Fingerprint = sanitize (ce_Fingerprint e), ce_ExitCode = ce_ExitCode e, ce_Detail = sanitize (ce_Detail e)\<rparr>"

lemmas ascii_names = sanitize_ascii is_ascii_def

lemma call_json_wf: "json_wf (call_json e)" "fits 10000 (call_json e)"
  by (simp_all add: call_json_def omit_string_def json_strings_def list_all_iff read_show_int)

lemma call_json_san:
  "json_san (call_json e) = call_json (san_call e)"
  by (simp add: call_json_def san_call_def omit_string_def ascii_names)

lemmas struct_defs = json_into_def set_member_def find_field_def set_string_def set_bool_def set_int_def set_strings_def
  json_strings_def dec_elems_strings or_first_def parse_int64_show

lemma call_decoded: "in_int64 (ce_ExitCode e) \<Longrightarrow> json_into U call_fields zero_call (call_json e) = (None, e)"
  by (cases "ce_Fingerprint e = []"; cases "ce_Detail e = []")
    (simp_all add: call_json_def call_fields_def zero_call_def omit_string_def struct_defs)

lemma call_line: "in_int64 (ce_ExitCode e) \<Longrightarrow> json_Unmarshal U call_fields (json_Marshal (call_json e)) zero_call = Inr (san_call e)"
  using call_decoded[of "san_call e" U]
  by (simp add: json_Unmarshal_def json_parse_Marshal[OF call_json_wf] call_json_san san_call_def)

text \<open>A log every write to which was complete ends in a line end; it is read line by line.\<close>

definition whole_lines :: "string \<Rightarrow> bool" where
  "whole_lines s \<longleftrightarrow> s = [] \<or> last s = CHR 0x0A"

lemma read_lines_append:
  "read_lines U (xs @ ys) = (case read_lines U xs of Inl e \<Rightarrow> Inl e | Inr cs \<Rightarrow> map_sum id (\<lambda>ds. cs @ ds) (read_lines U ys))"
  by (induction xs) (cases "read_lines U ys"; auto split: sum.splits)+

lemma read_whole_lines:
  assumes "whole_lines s" "CHR 0x0A \<notin> set l" "l \<noteq> []"
  shows "read_lines U (split_on (CHR 0x0A) (s @ l @ [CHR 0x0A])) =
    (case read_lines U (split_on (CHR 0x0A) s) of
       Inl e \<Rightarrow> Inl e
     | Inr cs \<Rightarrow>
         (case json_Unmarshal U call_fields l zero_call of
            Inl e \<Rightarrow> Inl (ErrWrap ''call log'' e)
          | Inr c \<Rightarrow> Inr (cs @ [c])))"
proof -
  have one: "split_on (CHR 0x0A) (l @ [CHR 0x0A]) = [l, []]"
    using split_on_append[of "CHR 0x0A" l "[]"] split_on_plain[OF assms(2)] by simp
  have blank: "read_lines U (xs @ [[]]) = read_lines U xs" for xs
    by (simp add: read_lines_append split: sum.splits)
  show ?thesis
  proof (cases "s = []")
    case True
    then show ?thesis using one assms(3) by (simp split: sum.split)
  next
    case False
    then obtain b where s: "s = b @ [CHR 0x0A]" using assms(1) by (metis whole_lines_def append_butlast_last_id)
    have "split_on (CHR 0x0A) s = split_on (CHR 0x0A) b @ [[]]" using split_on_append[of "CHR 0x0A" b "[]"] s by simp
    moreover have "split_on (CHR 0x0A) (s @ l @ [CHR 0x0A]) = (split_on (CHR 0x0A) b @ [l]) @ [[]]"
      using split_on_append[of "CHR 0x0A" b "l @ [CHR 0x0A]"] one s by simp
    ultimately show ?thesis
      using assms(3) unfolding blank by (simp add: read_lines_append blank split: sum.split)
  qed
qed

text \<open>The abstraction: the log of a run directory as a list of entries.\<close>

definition log_ok :: "string \<Rightarrow> run_files \<Rightarrow> bool" where
  "log_ok runDir fs \<longleftrightarrow> rf_read_fault fs (path_Join runDir callsFile) = None
     \<and> (\<forall>s. rf_files fs (path_Join runDir callsFile) = Some s \<longrightarrow> whole_lines s)"

lemma appendCall_step:
  assumes "log_ok runDir fs" "in_int64 (ce_ExitCode e)" "appendCall runDir e fs = (None, fs')"
  shows "log_ok runDir fs'" "readCalls U runDir fs' = map_sum id (\<lambda>cs. cs @ [san_call e]) (readCalls U runDir fs)"
proof -
  let ?p = "path_Join runDir callsFile" and ?l = "json_Marshal (call_json e)"
  let ?old = "case rf_files fs ?p of None \<Rightarrow> [] | Some c \<Rightarrow> c"
  have fs': "fs' = fs\<lparr>rf_files := (rf_files fs)(?p \<mapsto> ?old @ ?l @ [CHR 0x0A])\<rparr>"
    using assms(3) by (auto simp: appendCall_def rf_Append_def rf_put_def split: option.splits)
  have old: "whole_lines ?old" using assms(1) by (auto simp: log_ok_def whole_lines_def split: option.splits)
  have l: "CHR 0x0A \<notin> set ?l" "?l \<noteq> []"
    using json_Marshal_line[OF call_json_wf(1)] by (simp_all add: json_Marshal_def call_json_def)
  show "log_ok runDir fs'" using assms(1) by (simp add: log_ok_def fs' whole_lines_def)
  have "readCalls U runDir fs = read_lines U (split_on (CHR 0x0A) ?old)"
    using assms(1) by (auto simp: readCalls_def rf_ReadFile_def log_ok_def split: option.splits)
  moreover have "readCalls U runDir fs' = read_lines U (split_on (CHR 0x0A) (?old @ ?l @ [CHR 0x0A]))"
    using assms(1) by (simp add: readCalls_def rf_ReadFile_def log_ok_def fs')
  ultimately show "readCalls U runDir fs' = map_sum id (\<lambda>cs. cs @ [san_call e]) (readCalls U runDir fs)"
    using read_whole_lines[OF old l, of U] call_line[OF assms(2), of U] by (simp split: sum.split)
qed

text \<open>Entries added one after the other; the first failure ends it.\<close>

fun add_all :: "('e \<Rightarrow> 's \<Rightarrow> goerr option \<times> 's) \<Rightarrow> 'e list \<Rightarrow> 's \<Rightarrow> goerr option \<times> 's" where
  "add_all add [] s = (None, s)"
| "add_all add (e # es) s = (case add e s of (Some err, s1) \<Rightarrow> (Some err, s1) | (None, s1) \<Rightarrow> add_all add es s1)"

text \<open>
  The interface of an append-only log: whatever was logged with success is read back, in order,
  after what was there. The file and the list of entries the shims are modelled with both provide
  it.
\<close>

locale append_log =
  fixes add :: "'e \<Rightarrow> 's \<Rightarrow> goerr option \<times> 's"
    and read :: "'s \<Rightarrow> 'e list res"
    and good :: "'s \<Rightarrow> bool"
    and ok :: "'e \<Rightarrow> bool"
    and view :: "'e \<Rightarrow> 'e"
  assumes add_good: "good s \<Longrightarrow> ok e \<Longrightarrow> add e s = (None, s') \<Longrightarrow> good s'"
    and read_add: "good s \<Longrightarrow> ok e \<Longrightarrow> add e s = (None, s') \<Longrightarrow> read s' = map_sum id (\<lambda>cs. cs @ [view e]) (read s)"
begin

lemma read_all:
  "good s \<Longrightarrow> list_all ok es \<Longrightarrow> add_all add es s = (None, s') \<Longrightarrow> read s = Inr cs
    \<Longrightarrow> good s' \<and> read s' = Inr (cs @ map view es)"
proof (induction es arbitrary: s cs)
  case (Cons e es)
  then obtain s1 where s1: "add e s = (None, s1)" "add_all add es s1 = (None, s')"
    by (auto split: prod.splits option.splits)
  have "ok e" using Cons.prems(2) by simp
  then have "good s1" "read s1 = Inr (cs @ [view e])"
    using add_good[OF Cons.prems(1) _ s1(1)] read_add[OF Cons.prems(1) _ s1(1)] Cons.prems(4) by simp_all
  then show ?case using Cons.IH[OF _ _ s1(2)] Cons.prems(2) by simp
qed simp

end

interpretation file_log: append_log "appendCall runDir" "readCalls U runDir" "log_ok runDir" "\<lambda>e. in_int64 (ce_ExitCode e)" san_call
  for U :: unicode and runDir :: string
  by unfold_locales (use appendCall_step in blast)+

interpretation list_log: append_log "\<lambda>e st. (None, st @ [e])" Inr "\<lambda>_. True" "\<lambda>_. True" "\<lambda>e. e"
  by unfold_locales auto

text \<open>A sequence of calls appended to the log, as the shims of a run do it in whatever order they
  come.\<close>

abbreviation append_calls :: "string \<Rightarrow> callEntry list \<Rightarrow> run_files \<Rightarrow> goerr option \<times> run_files" where
  "append_calls runDir \<equiv> add_all (appendCall runDir)"

lemma san_call_valid:
  assumes "list_all utf8_valid (ce_Cmd e # ce_Outcome e # ce_Fingerprint e # ce_Detail e # ce_Argv e)"
  shows "san_call e = e"
proof -
  have "map sanitize (ce_Argv e) = ce_Argv e" using assms by (intro map_idI) (auto simp: list_all_iff sanitize_valid)
  with assms show ?thesis by (simp add: san_call_def sanitize_valid)
qed

lemma failing_san: "failing e \<Longrightarrow> failing (san_call e)"
  by (auto simp: failing_def san_call_def outcome_defs ascii_names)

text \<open>C20: The call log is a list. Appending calls to a log of whole lines, each with success, and
  reading the log gives the entries that were there followed by the appended ones, in order;
  strings come back with octets that are not UTF-8 replaced, and unchanged when there are none.
  So the list of entries the shims are modelled with is an abstraction of the file.\<close>

theorem call_log_refines_list:
  assumes "log_ok runDir fs" "readCalls U runDir fs = Inr cs"
    and "list_all (\<lambda>e. in_int64 (ce_ExitCode e)) es" "append_calls runDir es fs = (None, fs')"
  shows "readCalls U runDir fs' = Inr (cs @ map san_call es) \<and> log_ok runDir fs'
    \<and> (list_all (\<lambda>e. list_all utf8_valid (ce_Cmd e # ce_Outcome e # ce_Fingerprint e # ce_Detail e # ce_Argv e)) es
        \<longrightarrow> map san_call es = es)"
proof -
  have "map san_call es = es"
    if "list_all (\<lambda>e. list_all utf8_valid (ce_Cmd e # ce_Outcome e # ce_Fingerprint e # ce_Detail e # ce_Argv e)) es"
    using that san_call_valid by (intro map_idI) (auto simp: list_all_iff)
  then show ?thesis using file_log.read_all[OF assms(1,3,4,2)] by blast
qed

definition empty_files :: run_files where
  "empty_files = \<lparr>rf_files = (\<lambda>_. None), rf_read_fault = (\<lambda>_. None), rf_write_fault = (\<lambda>_. None)\<rparr>"

definition sample_entry :: callEntry where
  "sample_entry = \<lparr>ce_Cmd = ''git'', ce_Argv = [''git'', ''a<b''], ce_Outcome = outDenied, ce_Fingerprint = [],
     ce_ExitCode = 126, ce_Detail = [CHR 0x0A]\<rparr>"

lemma empty_log: "log_ok runDir empty_files" "readCalls U runDir empty_files = Inr []"
  by (simp_all add: log_ok_def empty_files_def readCalls_def rf_ReadFile_def)

lemma empty_append: "\<exists>fs'. append_calls runDir es (empty_files\<lparr>rf_files := f\<rparr>) = (None, fs')"
proof (induction es arbitrary: f)
  case (Cons e es)
  then show ?case by (simp add: appendCall_def rf_Append_def rf_put_def empty_files_def)
qed simp

theorem call_log_refines_list_witness:
  "\<exists>fs'. append_calls ''r'' [sample_entry, sample_entry] empty_files = (None, fs')
     \<and> readCalls ascii_tables ''r'' fs' = Inr [sample_entry, sample_entry]"
proof -
  have "empty_files\<lparr>rf_files := rf_files empty_files\<rparr> = empty_files" by simp
  then obtain fs' where a: "append_calls ''r'' [sample_entry, sample_entry] empty_files = (None, fs')"
    using empty_append[of "''r''" "[sample_entry, sample_entry]" "rf_files empty_files"] by auto
  have i: "list_all (\<lambda>e. in_int64 (ce_ExitCode e)) [sample_entry, sample_entry]" by (simp add: sample_entry_def in_int64_def)
  have "list_all (\<lambda>e. list_all utf8_valid (ce_Cmd e # ce_Outcome e # ce_Fingerprint e # ce_Detail e # ce_Argv e)) [sample_entry, sample_entry]"
    by (simp add: sample_entry_def outDenied_def is_ascii_utf8_valid is_ascii_def)
  with call_log_refines_list[OF empty_log i a, of ascii_tables] a show ?thesis by auto
qed

text \<open>A call that was denied, missed its cassette or failed is never lost: when the shims of a run
  appended their calls to its log and one of them is failing, the run that reads the log does not
  succeed, whatever the child's own exit code is.\<close>

theorem failing_call_fails_run:
  assumes "log_ok runDir fs" "readCalls U runDir fs = Inr cs"
    and "list_all (\<lambda>e. in_int64 (ce_ExitCode e)) es" "append_calls runDir es fs = (None, fs')"
    and "e \<in> set es" "failing e" "io_calls io = readCalls U runDir fs'"
  shows "execute U goos io opts cfg child \<noteq> exitOK"
proof -
  have r: "io_calls io = Inr (cs @ map san_call es)"
    using file_log.read_all[OF assms(1,3,4,2)] assms(7) by simp
  have "anyFailing (cs @ map san_call es)"
    using assms(5,6) failing_san by (auto simp: anyFailing_def list_ex_iff)
  with r show ?thesis
    by (auto simp: execute_def Let_def exit_defs split: sum.splits)
qed

definition sample_io :: run_io where
  "sample_io = \<lparr>io_self = Inr ''/bin/xrr'', io_tempDir = Inr ''r'', io_mkdir = (\<lambda>_. None), io_evalSymlinks = (\<lambda>_. None),
     io_link = (\<lambda>_ _. None), io_writeConfig = None, io_lookPath = (\<lambda>p. Inr p), io_environ = [],
     io_child = (\<lambda>_. Inr WaitOK), io_calls = Inr [], io_writeReport = None\<rparr>"

theorem failing_call_fails_run_witness:
  "\<exists>fs'. append_calls ''r'' [sample_entry] empty_files = (None, fs')
     \<and> execute ascii_tables ''linux'' (sample_io\<lparr>io_calls := readCalls ascii_tables ''r'' fs'\<rparr>) sample_opts sample_cfg [''make''] \<noteq> exitOK"
proof -
  have "empty_files\<lparr>rf_files := rf_files empty_files\<rparr> = empty_files" by simp
  then obtain fs' where a: "append_calls ''r'' [sample_entry] empty_files = (None, fs')"
    using empty_append[of "''r''" "[sample_entry]" "rf_files empty_files"] by auto
  have i: "list_all (\<lambda>e. in_int64 (ce_ExitCode e)) [sample_entry]" by (simp add: sample_entry_def in_int64_def)
  have f: "failing sample_entry" by (simp add: failing_def sample_entry_def)
  have "sample_entry \<in> set [sample_entry]"
    "io_calls (sample_io\<lparr>io_calls := readCalls ascii_tables ''r'' fs'\<rparr>) = readCalls ascii_tables ''r'' fs'" by simp_all
  with failing_call_fails_run[OF empty_log i a _ f] a show ?thesis by blast
qed

subsection \<open>Reading the configuration back\<close>

definition config_ok :: "runConfig \<Rightarrow> bool" where
  "config_ok c \<longleftrightarrow> list_all utf8_valid (cf_Mode c # cf_CassetteDir c # cf_RealPath c # cf_Deny c @ cf_EnvCapture c @ cf_ScrubDeny c
       @ cf_ScrubAllow c @ map fst (cf_Cmds c) @ map snd (cf_Cmds c))
     \<and> distinct (map fst (cf_Cmds c)) \<and> in_int64 (cf_StdinWaitMs c)"

lemma map_sanitize: "list_all utf8_valid xs \<Longrightarrow> map sanitize xs = xs"
  by (intro map_idI) (auto simp: list_all_iff sanitize_valid)

lemma cmds_json: "json_map (map (\<lambda>(k, v). (k, JStr v)) m) = JObj (map (\<lambda>(k, v). (k, JStr v)) (sort_key fst m))"
  using sort_entries[of "\<lambda>_. JStr" m] by (simp add: json_map_def)

lemma config_json_wf: "json_wf (config_json c)" "fits 10000 (config_json c)"
  by (simp_all add: config_json_def omit_string_def omit_strings_def cmds_json list_all_iff case_prod_beta
      json_strings_def read_show_int)

lemma config_json_san:
  assumes "config_ok c"
  shows "json_san (config_json c) = config_json c"
proof -
  have "map (\<lambda>(k, v). (sanitize k, json_san v)) (map (\<lambda>(k, v). (k, JStr v)) (sort_key fst (cf_Cmds c)))
      = map (\<lambda>(k, v). (k, JStr v)) (sort_key fst (cf_Cmds c))"
    using assms by (auto simp: config_ok_def list_all_iff intro!: sanitize_valid) (force)+
  moreover have "map sanitize xs = xs" if "xs \<in> {cf_Deny c, cf_EnvCapture c, cf_ScrubDeny c, cf_ScrubAllow c}" for xs
    using that assms by (intro map_sanitize) (auto simp: config_ok_def)
  moreover have "sanitize s = s" if "s \<in> {cf_Mode c, cf_CassetteDir c, cf_RealPath c}" for s
    using that assms by (auto simp: config_ok_def sanitize_valid)
  ultimately show ?thesis
    by (simp add: config_json_def omit_string_def omit_strings_def cmds_json ascii_names)
qed

lemma update_new: "k \<notin> fst ` set m \<Longrightarrow> AList.update k v m = m @ [(k, v)]"
  by (induction m) auto

lemma decoded_map:
  assumes "distinct (map fst kvs)"
  shows "set_string_map get upd st (JObj (map (\<lambda>(k, v). (k, JStr v)) kvs)) =
    (None, upd (foldl (\<lambda>m (k, v). AList.update k v m) (get st) kvs) st)"
proof -
  have "foldl (\<lambda>(e, m) (k, v). case set_string (\<lambda>s _. s) [] v of (e', s) \<Rightarrow> (or_first e e', AList.update k s m))
      (None, m0) (map (\<lambda>(k, v). (k, JStr v)) kvs) = (None, foldl (\<lambda>m (k, v). AList.update k v m) m0 kvs)" for m0
    by (induction kvs arbitrary: m0) (auto simp: set_string_def or_first_def)
  then show ?thesis by (simp add: set_string_map_def)
qed

lemma foldl_update_new:
  "distinct (map fst (m @ kvs)) \<Longrightarrow> foldl (\<lambda>m (k, v). AList.update k v m) m kvs = m @ kvs"
  by (induction kvs arbitrary: m) (auto simp: update_new)

lemma omit_decoded:
  "find_field U fds k = Some (set_string upd) \<Longrightarrow> upd [] st = st \<Longrightarrow>
     foldl (set_member U fds) (None, st) (omit_string k s) = (None, upd s st)"
  "find_field U fds k = Some (set_strings get upds) \<Longrightarrow> upds [] st = st \<Longrightarrow>
     foldl (set_member U fds) (None, st) (omit_strings k xs) = (None, upds xs st)"
  by (auto simp: omit_string_def omit_strings_def set_member_def set_string_def set_strings_def json_strings_def
      dec_elems_strings or_first_def)

lemma config_field [simp]:
  "find_field U config_fields ''mode'' = Some (set_string (\<lambda>v. cf_Mode_update (\<lambda>_. v)))"
  "find_field U config_fields ''cassette_dir'' = Some (set_string (\<lambda>v. cf_CassetteDir_update (\<lambda>_. v)))"
  "find_field U config_fields ''real_path'' = Some (set_string (\<lambda>v. cf_RealPath_update (\<lambda>_. v)))"
  "find_field U config_fields ''strict'' = Some (set_bool (\<lambda>v. cf_Strict_update (\<lambda>_. v)))"
  "find_field U config_fields ''deny'' = Some (set_strings cf_Deny (\<lambda>v. cf_Deny_update (\<lambda>_. v)))"
  "find_field U config_fields ''env_capture'' = Some (set_strings cf_EnvCapture (\<lambda>v. cf_EnvCapture_update (\<lambda>_. v)))"
  "find_field U config_fields ''scrub_deny'' = Some (set_strings cf_ScrubDeny (\<lambda>v. cf_ScrubDeny_update (\<lambda>_. v)))"
  "find_field U config_fields ''scrub_allow'' = Some (set_strings cf_ScrubAllow (\<lambda>v. cf_ScrubAllow_update (\<lambda>_. v)))"
  "find_field U config_fields ''cmds'' = Some (set_string_map cf_Cmds (\<lambda>v. cf_Cmds_update (\<lambda>_. v)))"
  "find_field U config_fields ''stdin_wait_ms'' = Some (set_int (\<lambda>v. cf_StdinWaitMs_update (\<lambda>_. v)))"
  by (simp_all add: find_field_def config_fields_def)

lemma set_member_found: "find_field U fds k = Some f \<Longrightarrow> set_member U fds (None, st) (k, j) = f st j"
  by (simp add: set_member_def or_first_def)

lemma set_found [simp]:
  "set_string upd st (JStr s) = (None, upd s st)" "set_bool updb st (JBool b) = (None, updb b st)"
  "set_strings get upds st (json_strings xs) = (None, upds xs st)"
  by (simp_all add: set_string_def set_bool_def set_strings_def json_strings_def dec_elems_strings)

lemma config_decoded:
  assumes "config_ok c"
  shows "json_into U config_fields zero_config (config_json c) = (None, c\<lparr>cf_Cmds := sort_key fst (cf_Cmds c)\<rparr>)"
proof -
  let ?F = "set_member U config_fields"
  define mm where "mm = (if cf_Cmds c = [] then [] else [(''cmds'', json_map (map (\<lambda>(k, v). (k, JStr v)) (cf_Cmds c)))])"
  have d: "distinct (map fst (sort_key fst (cf_Cmds c)))" using assms by (simp add: config_ok_def distinct_map)
  have m: "foldl ?F (None, st) mm = (None, st\<lparr>cf_Cmds := sort_key fst (cf_Cmds c)\<rparr>)" if "cf_Cmds st = []" for st
  proof (cases "cf_Cmds c = []")
    case True
    have "st\<lparr>cf_Cmds := []\<rparr> = st" using that by (cases st) simp
    with True show ?thesis by (simp add: mm_def)
  next
    case False
    have "foldl (\<lambda>m (k, v). AList.update k v m) [] (sort_key fst (cf_Cmds c)) = sort_key fst (cf_Cmds c)"
      using foldl_update_new[of "[]"] d by simp
    with False that show ?thesis
      using decoded_map[OF d, of cf_Cmds "\<lambda>v. cf_Cmds_update (\<lambda>_. v)" st]
      by (simp add: set_member_found[OF config_field(9)] cmds_json mm_def)
  qed
  have w: "set_int updi st (JNum (show_int (cf_StdinWaitMs c))) = (None, updi (cf_StdinWaitMs c) st)" for updi st
    using assms by (simp add: set_int_def parse_int64_show config_ok_def)
  note omits = omit_decoded(1)[OF config_field(2)] omit_decoded(2)[OF config_field(6)] omit_decoded(2)[OF config_field(7)]
    omit_decoded(2)[OF config_field(8)]
  show ?thesis
    unfolding config_json_def mm_def[symmetric]
    by (simp add: json_into_def zero_config_def set_member_found[OF config_field(1)] set_member_found[OF config_field(3)]
        set_member_found[OF config_field(4)] set_member_found[OF config_field(5)] set_member_found[OF config_field(10)] omits m w)
qed

lemma config_loaded:
  assumes "config_ok c" "writeConfig runDir c fs = (None, fs')" "rf_read_fault fs (path_Join runDir configFile) = None"
  shows "loadConfig U runDir fs' = Inr (c\<lparr>cf_Cmds := sort_key fst (cf_Cmds c)\<rparr>)"
proof -
  have "rf_files fs' (path_Join runDir configFile) = Some (json_Marshal (config_json c))" "rf_read_fault fs' = rf_read_fault fs"
    using assms(2) by (auto simp: writeConfig_def rf_WriteFile_def rf_put_def split: option.splits)
  then show ?thesis
    using assms(3) config_decoded[OF assms(1), of U]
    by (simp add: loadConfig_def rf_ReadFile_def json_Unmarshal_def json_parse_Marshal[OF config_json_wf] config_json_san[OF assms(1)])
qed

text \<open>C21: The configuration a run writes reaches its shims. A shim that loads the file gets every
  field as the run resolved it; only the order of the command table is not kept, and a lookup in
  it gives the same command for every shim file name.\<close>

theorem config_reaches_shims:
  assumes "config_ok c" "writeConfig runDir c fs = (None, fs')" "rf_read_fault fs (path_Join runDir configFile) = None"
  shows "\<exists>d. loadConfig U runDir fs' = Inr d \<and> d = c\<lparr>cf_Cmds := cf_Cmds d\<rparr>
    \<and> (\<forall>f. map_of (cf_Cmds d) f = map_of (cf_Cmds c) f)
    \<and> (\<forall>f goos. \<not> isWindows goos \<longrightarrow> cmdFor U (cf_Cmds d) f goos = cmdFor U (cf_Cmds c) f goos)"
proof -
  have "distinct (map fst (cf_Cmds c))" using assms(1) by (simp add: config_ok_def)
  then have "map_of (sort_key fst (cf_Cmds c)) = map_of (cf_Cmds c)"
    by (intro map_of_inject_set[THEN iffD2]) (simp_all add: distinct_map)
  with config_loaded[OF assms, of U] show ?thesis by (auto simp: cmdFor_def)
qed

definition two_cmds :: runConfig where
  "two_cmds = \<lparr>cf_Mode = ''replay'', cf_CassetteDir = ''/c'', cf_RealPath = ''/bin'', cf_Strict = True, cf_Deny = [''open''],
     cf_EnvCapture = [], cf_ScrubDeny = [], cf_ScrubAllow = [''A''], cf_Cmds = [(''open'', ''open''), (''git'', ''git'')],
     cf_StdinWaitMs = 200\<rparr>"

theorem config_reaches_shims_witness:
  "\<exists>fs' d. writeConfig ''r'' two_cmds empty_files = (None, fs') \<and> loadConfig ascii_tables ''r'' fs' = Inr d
     \<and> cf_Deny d = [''open''] \<and> map_of (cf_Cmds d) ''git'' = Some ''git''"
proof -
  have ok: "config_ok two_cmds"
    by (simp add: config_ok_def two_cmds_def in_int64_def is_ascii_utf8_valid is_ascii_def)
  obtain fs' where w: "writeConfig ''r'' two_cmds empty_files = (None, fs')"
    by (simp add: writeConfig_def rf_WriteFile_def rf_put_def empty_files_def)
  have "rf_read_fault empty_files (path_Join ''r'' configFile) = None" by (simp add: empty_files_def)
  from config_reaches_shims[OF ok w this, of ascii_tables] obtain d where
    d: "loadConfig ascii_tables ''r'' fs' = Inr d" "d = two_cmds\<lparr>cf_Cmds := cf_Cmds d\<rparr>" "map_of (cf_Cmds d) ''git'' = map_of (cf_Cmds two_cmds) ''git''"
    by blast
  have "cf_Deny d = cf_Deny two_cmds" using arg_cong[OF d(2), of cf_Deny] by simp
  with w d show ?thesis by (auto simp: two_cmds_def)
qed

text \<open>A shim that cannot read its configuration runs nothing: it reports the problem and exits with
  the usage code.\<close>

lemma shim_without_config:
  "loadConfig U runDir fs = Inl e \<Longrightarrow> shimMain U dec (loadConfig U runDir fs) getenv h f args st
    = (exitUsage, complain (''xrr shim '' @ f @ '': '' @ err_text e) st)"
  by (simp add: shimMain_def)

subsection \<open>The report\<close>

lemma counts_snoc:
  "counts_of (calls @ [c]) = AList.update (ce_Outcome c)
     (Suc (case map_of (counts_of calls) (ce_Outcome c) of None \<Rightarrow> 0 | Some n \<Rightarrow> n)) (counts_of calls)"
  by (simp add: counts_of_def)

lemma map_of_counts: "map_of (counts_of calls) k = (if count_outcome k calls = 0 then None else Some (count_outcome k calls))"
proof (induction calls rule: rev_induct)
  case (snoc c calls)
  then show ?case by (auto simp: counts_snoc update_conv count_outcome_def split: if_splits)
qed (simp add: counts_of_def count_outcome_def)

lemma counts_distinct: "distinct (map fst (counts_of calls))"
  by (induction calls rule: rev_induct) (auto simp: counts_snoc distinct_update, simp add: counts_of_def)

lemma counts_sum: "sum_list (map snd (counts_of calls)) = length calls"
proof (induction calls rule: rev_induct)
  case (snoc c calls)
  have "sum_list (map snd (AList.update k (Suc (case map_of m k of None \<Rightarrow> 0 | Some n \<Rightarrow> n)) m)) = Suc (sum_list (map snd m))"
    for k and m :: "(string \<times> nat) list"
    by (induction m) auto
  with snoc show ?case by (simp add: counts_snoc)
qed (simp add: counts_of_def)

lemma report_json_wf: "json_wf (report_json mode calls)" "fits 10000 (report_json mode calls)"
proof -
  have m: "json_map (map (\<lambda>(k, n). (k, JNum (show_int (int n)))) m) = JObj (map (\<lambda>(k, n). (k, JNum (show_int (int n)))) (sort_key fst m))" for m
    using sort_entries[of "\<lambda>_ n. JNum (show_int (int n))" m] by (simp add: json_map_def)
  show "json_wf (report_json mode calls)" "fits 10000 (report_json mode calls)"
    using call_json_wf(1) unfolding report_json_def m
    by (auto simp: list_all_iff read_show_int) (auto simp: call_json_def json_strings_def omit_string_def list_all_iff)
qed

lemma anyFailing_counts:
  "anyFailing calls \<longleftrightarrow> (\<exists>k \<in> {outDenied, outMiss, outError}. map_of (counts_of calls) k \<noteq> None)"
  by (auto simp: anyFailing_def failing_def map_of_counts count_outcome_def list_ex_iff filter_empty_conv split: if_splits)



end
