(* ===== verification/Cli_Flags.thy ===== *)
theory Cli_Flags
  imports Cli_Shim
begin

section \<open>Command line and shim files (cmd/xrr: run.go, main.go, platform.go)\<close>

text \<open>
  How the arguments of \<^verbatim>\<open>xrr run\<close> become the flag layer of the configuration:
  \<^verbatim>\<open>FlagSet.Parse\<close> of package \<^verbatim>\<open>flag\<close> on the flags the command declares,
  and \<^verbatim>\<open>Visit\<close>, which sees only the flags that were given. Durations are parsed and
  printed by package \<^verbatim>\<open>time\<close>, the arguments \<open>dur\<close> and \<open>showDur\<close>. Then
  the entry point of the binary, and the copy a shim file is when it cannot be a hard link.
\<close>

subsection \<open>Flags\<close>

text \<open>What the flags hold after parsing; a scalar that was not given is \<^const>\<open>None\<close>.\<close>

record flags =
  fg_shim :: "string list"
  fg_deny :: "string list"
  fg_env :: "string list"
  fg_scrubDeny :: "string list"
  fg_scrubAllow :: "string list"
  fg_mode :: "string option"
  fg_cassettes :: "string option"
  fg_reportFile :: "string option"
  fg_configPath :: "string option"
  fg_noDefaultDeny :: "bool option"
  fg_strict :: "bool option"
  fg_stdinWait :: "int option"

definition no_flags :: flags where
  "no_flags = \<lparr>fg_shim = [], fg_deny = [], fg_env = [], fg_scrubDeny = [], fg_scrubAllow = [], fg_mode = None,
     fg_cassettes = None, fg_reportFile = None, fg_configPath = None, fg_noDefaultDeny = None, fg_strict = None,
     fg_stdinWait = None\<rparr>"

definition bool_flags :: "string list" where
  "bool_flags = [''no-default-deny'', ''strict'']"

definition flag_names :: "string list" where
  "flag_names = bool_flags @ [''mode'', ''cassettes'', ''shim'', ''deny'', ''env'', ''scrub'', ''no-scrub'',
     ''stdin-wait'', ''report-file'', ''config'']"

text \<open>The \<^verbatim>\<open>Set\<close> method of the flag of that name; \<^const>\<open>None\<close> is its error.\<close>

definition set_flag :: "(string \<Rightarrow> int option) \<Rightarrow> string \<Rightarrow> string \<Rightarrow> flags \<Rightarrow> flags option" where
  "set_flag dur name v st =
     (if name = ''mode'' then Some (st\<lparr>fg_mode := Some v\<rparr>)
      else if name = ''cassettes'' then Some (st\<lparr>fg_cassettes := Some v\<rparr>)
      else if name = ''shim'' then Some (st\<lparr>fg_shim := listFlag_Set (fg_shim st) v\<rparr>)
      else if name = ''deny'' then Some (st\<lparr>fg_deny := listFlag_Set (fg_deny st) v\<rparr>)
      else if name = ''no-default-deny'' then map_option (\<lambda>b. st\<lparr>fg_noDefaultDeny := Some b\<rparr>) (ParseBool v)
      else if name = ''strict'' then map_option (\<lambda>b. st\<lparr>fg_strict := Some b\<rparr>) (ParseBool v)
      else if name = ''env'' then Some (st\<lparr>fg_env := listFlag_Set (fg_env st) v\<rparr>)
      else if name = ''scrub'' then Some (st\<lparr>fg_scrubDeny := listFlag_Set (fg_scrubDeny st) v\<rparr>)
      else if name = ''no-scrub'' then Some (st\<lparr>fg_scrubAllow := listFlag_Set (fg_scrubAllow st) v\<rparr>)
      else if name = ''stdin-wait'' then map_option (\<lambda>d. st\<lparr>fg_stdinWait := Some d\<rparr>) (dur v)
      else if name = ''report-file'' then Some (st\<lparr>fg_reportFile := Some v\<rparr>)
      else if name = ''config'' then Some (st\<lparr>fg_configPath := Some v\<rparr>)
      else None)"

datatype flag_error = BadSyntax | NotDefined string | InvalidValue string | NeedsArgument string | ErrHelp

text \<open>The value after the first equals sign that is not the first character.\<close>

definition cut_value :: "string \<Rightarrow> string \<times> string option" where
  "cut_value name = (case cut_at CHR ''='' (tl name) of None \<Rightarrow> (name, None) | Some (a, b) \<Rightarrow> (hd name # a, Some b))"

fun parse_flags :: "(string \<Rightarrow> int option) \<Rightarrow> string list \<Rightarrow> flags \<Rightarrow> flag_error + (flags \<times> string list)" where
  "parse_flags dur [] st = Inr (st, [])"
| "parse_flags dur (s # rest) st =
     (if length s < 2 \<or> hd s \<noteq> CHR ''-'' then Inr (st, s # rest)
      else if s = ''--'' then Inr (st, rest)
      else
        let name = (if s ! 1 = CHR ''-'' then drop 2 s else drop 1 s) in
        if name = [] \<or> hd name = CHR ''-'' \<or> hd name = CHR ''='' then Inl BadSyntax
        else
          (case cut_value name of (n, v) \<Rightarrow>
             if n \<notin> set flag_names then Inl (if n = ''help'' \<or> n = ''h'' then ErrHelp else NotDefined n)
             else if n \<in> set bool_flags then
               (case set_flag dur n (case v of Some x \<Rightarrow> x | None \<Rightarrow> ''true'') st of
                  None \<Rightarrow> Inl (InvalidValue n)
                | Some st' \<Rightarrow> parse_flags dur rest st')
             else
               (case v of
                  Some x \<Rightarrow>
                    (case set_flag dur n x st of None \<Rightarrow> Inl (InvalidValue n) | Some st' \<Rightarrow> parse_flags dur rest st')
                | None \<Rightarrow>
                    (case rest of
                       [] \<Rightarrow> Inl (NeedsArgument n)
                     | x # rest' \<Rightarrow>
                         (case set_flag dur n x st of None \<Rightarrow> Inl (InvalidValue n) | Some st' \<Rightarrow> parse_flags dur rest' st')))))"

text \<open>The flag layer: only flags that were given.\<close>

definition flag_layer :: "(int \<Rightarrow> string) \<Rightarrow> flags \<Rightarrow> settings" where
  "flag_layer showDur st =
     \<lparr>cg_Mode = fg_mode st, cg_Cassettes = fg_cassettes st, cg_Shim = fg_shim st, cg_Deny = fg_deny st,
      cg_NoDefaultDeny = fg_noDefaultDeny st, cg_Strict = fg_strict st, cg_Env = fg_env st,
      cg_StdinWait = map_option showDur (fg_stdinWait st), cg_ReportFile = fg_reportFile st,
      cg_Scrub = \<lparr>sc_Allow = fg_scrubAllow st, sc_Deny = fg_scrubDeny st\<rparr>\<rparr>"

definition runCmd_args ::
  "unicode \<Rightarrow> ('d \<Rightarrow> goerr option \<times> settings) \<Rightarrow> (string \<Rightarrow> int option) \<Rightarrow> (int \<Rightarrow> string) \<Rightarrow> run_host \<Rightarrow> run_io
   \<Rightarrow> string list \<Rightarrow> 'd world \<Rightarrow> int" where
  "runCmd_args U dec dur showDur h io args w =
     (case parse_flags dur args no_flags of
        Inl e \<Rightarrow> if e = ErrHelp then exitOK else exitUsage
      | Inr (st, child) \<Rightarrow>
          runCmd U dec dur h io (flag_layer showDur st) (case fg_configPath st of Some p \<Rightarrow> p | None \<Rightarrow> []) child w)"

text \<open>The exit code of the process: a shim answers for the command it stands for, otherwise the
  arguments name a subcommand.\<close>

definition xrr_main :: "(string \<Rightarrow> bool) \<Rightarrow> (string \<Rightarrow> string \<Rightarrow> int) \<Rightarrow> string res \<Rightarrow> (string list \<Rightarrow> int) \<Rightarrow> string list \<Rightarrow> int" where
  "xrr_main is_file serve exe run args =
     (case runAsShim is_file serve exe of Some code \<Rightarrow> code | None \<Rightarrow> dispatch run args)"

subsection \<open>Shim files (platform.go)\<close>

text \<open>The files a shim directory is made of: their contents by path. \<open>d_link\<close> is the outcome of
  \<^verbatim>\<open>os.Link\<close> when the destination is free (\<^const>\<open>None\<close> makes the link); a copy
  may fail to open either file, after some octets, or on close.\<close>

record shim_dir =
  d_files :: "string \<Rightarrow> string option"
  d_link :: "string \<Rightarrow> string \<Rightarrow> goerr option"
  d_open :: "string \<Rightarrow> goerr option"
  d_create :: "string \<Rightarrow> goerr option"
  d_copy :: "string \<Rightarrow> (goerr \<times> nat) option"
  d_close :: "string \<Rightarrow> goerr option"

definition ErrExist :: goerr where "ErrExist = ErrNew ''file exists''"

definition copyExec :: "string \<Rightarrow> string \<Rightarrow> shim_dir \<Rightarrow> goerr option \<times> shim_dir" where
  "copyExec src dst d =
     (case (case d_files d src of None \<Rightarrow> Some (ErrNotExist src) | Some _ \<Rightarrow> d_open d src) of
        Some e \<Rightarrow> (Some e, d)
      | None \<Rightarrow>
          (case (if d_files d dst \<noteq> None then Some ErrExist else d_create d dst) of
             Some e \<Rightarrow> (Some e, d)
           | None \<Rightarrow>
               let contents = (case d_files d src of Some c \<Rightarrow> c | None \<Rightarrow> []);
                   written = (case d_copy d dst of Some (e, n) \<Rightarrow> take n contents | None \<Rightarrow> contents);
                   err = (case d_copy d dst of Some (e, n) \<Rightarrow> Some e | None \<Rightarrow> d_close d dst)
               in if err \<noteq> None then (err, d\<lparr>d_files := (d_files d)(dst := None)\<rparr>)
                  else (None, d\<lparr>d_files := (d_files d)(dst \<mapsto> written)\<rparr>)))"

definition linkOrCopy :: "string \<Rightarrow> string \<Rightarrow> shim_dir \<Rightarrow> goerr option \<times> shim_dir" where
  "linkOrCopy src dst d =
     (case (if d_files d src = None then Some (ErrNotExist src)
            else if d_files d dst \<noteq> None then Some ErrExist
            else d_link d src dst) of
        None \<Rightarrow> (None, d\<lparr>d_files := (d_files d)(dst := d_files d src)\<rparr>)
      | Some err \<Rightarrow> if err = ErrExist then (Some err, d) else copyExec src dst d)"

subsection \<open>Properties\<close>

text \<open>A shim file is made whole or not at all. When it was made, the destination was free, it now
  has the contents of the source and every other file is as before; on any failure (the link, the
  opening of either file, a copy that breaks off, the close) all files are as before, so nothing is
  overwritten and no partial binary is left.\<close>

theorem linkOrCopy_all_or_nothing:
  assumes "linkOrCopy src dst d = (r, d')"
  shows "(r = None \<longrightarrow> d_files d dst = None \<and> d_files d src \<noteq> None \<and> d_files d' = (d_files d)(dst := d_files d src))
    \<and> (r \<noteq> None \<longrightarrow> d' = d)"
proof -
  have same: "d\<lparr>d_files := (d_files d)(dst := None)\<rparr> = d" if "d_files d dst = None"
    using that by (cases d) (auto simp: fun_eq_iff)
  show ?thesis
    using assms same
    by (auto simp: linkOrCopy_def copyExec_def Let_def split: if_splits option.splits prod.splits)
qed

theorem linkOrCopy_all_or_nothing_witness:
  "let d = \<lparr>d_files = [''/xrr'' \<mapsto> ''ELF''], d_link = (\<lambda>_ _. Some (ErrNew ''cross-device link'')), d_open = (\<lambda>_. None),
            d_create = (\<lambda>_. None), d_copy = (\<lambda>p. if p = ''/b/git'' then Some (ErrNew ''no space'', 2) else None), d_close = (\<lambda>_. None)\<rparr>
   in d_files (snd (linkOrCopy ''/xrr'' ''/b/git'' d)) = d_files d
      \<and> d_files (snd (linkOrCopy ''/xrr'' ''/b/curl'' d)) ''/b/curl'' = Some ''ELF''"
proof -
  define d where "d = \<lparr>d_files = [''/xrr'' \<mapsto> ''ELF''], d_link = (\<lambda>_ _. Some (ErrNew ''cross-device link'')), d_open = (\<lambda>_. None),
    d_create = (\<lambda>_. None), d_copy = (\<lambda>p. if p = ''/b/git'' then Some (ErrNew ''no space'', 2) else None), d_close = (\<lambda>_. None)\<rparr>"
  obtain r1 d1 r2 d2 where l: "linkOrCopy ''/xrr'' ''/b/git'' d = (r1, d1)" "linkOrCopy ''/xrr'' ''/b/curl'' d = (r2, d2)"
    by (metis prod.exhaust)
  have "r1 \<noteq> None" "r2 = None" using l by (auto simp: d_def linkOrCopy_def copyExec_def ErrExist_def)
  with linkOrCopy_all_or_nothing[OF l(1)] linkOrCopy_all_or_nothing[OF l(2)] l show ?thesis
    unfolding Let_def d_def[symmetric] by (simp add: d_def)
qed

text \<open>Rendering flags as arguments.\<close>

definition flag_arg :: "string \<Rightarrow> string \<Rightarrow> string" where
  "flag_arg name v = ''--'' @ name @ ''='' @ v"

definition opt_arg :: "string \<Rightarrow> string option \<Rightarrow> string list" where
  "opt_arg name v = (case v of None \<Rightarrow> [] | Some x \<Rightarrow> [flag_arg name x])"

definition list_arg :: "string \<Rightarrow> string list \<Rightarrow> string list" where
  "list_arg name xs = (if xs = [] then [] else [flag_arg name (join_with '','' xs)])"

definition show_bool :: "bool \<Rightarrow> string" where
  "show_bool b = (if b then ''true'' else ''false'')"

definition render_flags :: "(int \<Rightarrow> string) \<Rightarrow> flags \<Rightarrow> string list" where
  "render_flags showDur st =
     list_arg ''shim'' (fg_shim st) @ list_arg ''deny'' (fg_deny st) @ list_arg ''env'' (fg_env st)
     @ list_arg ''scrub'' (fg_scrubDeny st) @ list_arg ''no-scrub'' (fg_scrubAllow st)
     @ opt_arg ''mode'' (fg_mode st) @ opt_arg ''cassettes'' (fg_cassettes st) @ opt_arg ''report-file'' (fg_reportFile st)
     @ opt_arg ''config'' (fg_configPath st) @ opt_arg ''no-default-deny'' (map_option show_bool (fg_noDefaultDeny st))
     @ opt_arg ''strict'' (map_option show_bool (fg_strict st)) @ opt_arg ''stdin-wait'' (map_option showDur (fg_stdinWait st))"

text \<open>A list a list flag can hold: no repetitions, no empty items, no commas, no blanks around items.\<close>

definition clean_list :: "string list \<Rightarrow> bool" where
  "clean_list xs \<longleftrightarrow> distinct xs \<and> list_all (\<lambda>x. x \<noteq> [] \<and> CHR '','' \<notin> set x \<and> trim_space x = x) xs"

lemma split_on_join:
  "xs \<noteq> [] \<Longrightarrow> list_all (\<lambda>x. c \<notin> set x) xs \<Longrightarrow> split_on c (join_with [c] xs) = xs"
proof (induction xs rule: list_nonempty_induct)
  case (cons x xs)
  then obtain y ys where "xs = y # ys" by (cases xs) auto
  with cons show ?case using split_on_append[of c x "join_with [c] xs"] by (simp add: split_on_plain)
qed (simp add: split_on_plain)

lemma listFlag_Set_join:
  assumes "clean_list xs" "xs \<noteq> []"
  shows "listFlag_Set [] (join_with '','' xs) = xs"
proof -
  have "foldl (\<lambda>l p. let p = trim_space p in if p = [] \<or> contains l p then l else l @ [p]) acc ys = acc @ ys"
    if "distinct (acc @ ys)" "list_all (\<lambda>x. x \<noteq> [] \<and> trim_space x = x) ys" for acc ys
    using that
  proof (induction ys arbitrary: acc)
    case (Cons y ys)
    then have "\<not> contains acc y" by (auto simp: contains_def)
    with Cons show ?case by (simp add: Let_def)
  qed simp
  from this[of "[]" xs] show ?thesis
    using assms split_on_join[of xs "CHR '',''"] by (simp add: listFlag_Set_def clean_list_def list_all_iff)
qed

lemma parse_flag_arg:
  assumes "name \<in> set flag_names" "set_flag dur name v st = Some st'"
  shows "parse_flags dur (flag_arg name v # rest) st = parse_flags dur rest st'"
proof -
  have n: "name \<noteq> []" "hd name \<noteq> CHR ''-''" "hd name \<noteq> CHR ''=''" "CHR ''='' \<notin> set name"
    using assms(1) by (auto simp: flag_names_def bool_flags_def)
  then have "cut_value (name @ CHR ''='' # v) = (name, Some v)"
    by (cases name) (auto simp: cut_value_def)
  with n assms show ?thesis by (simp add: flag_arg_def)
qed

lemma parse_list_arg:
  assumes "name \<in> set flag_names" "clean_list xs" "\<And>v. set_flag dur name v st = Some (upd (listFlag_Set [] v) st)" "upd [] st = st"
  shows "parse_flags dur (list_arg name xs @ r) st = parse_flags dur r (upd xs st)"
proof (cases "xs = []")
  case False
  then show ?thesis
    using parse_flag_arg[OF assms(1) assms(3)] listFlag_Set_join[OF assms(2)] by (simp add: list_arg_def)
qed (simp add: list_arg_def assms(4))

lemma parse_opt_arg:
  assumes "name \<in> set flag_names" "\<And>x. v = Some x \<Longrightarrow> set_flag dur name x st = Some st'" "v = None \<Longrightarrow> st' = st"
  shows "parse_flags dur (opt_arg name v @ r) st = parse_flags dur r st'"
  using assms parse_flag_arg[OF assms(1), of dur _ st st' r] by (cases v) (simp_all add: opt_arg_def)

lemma set_flag_named:
  "set_flag dur ''mode'' v st = Some (st\<lparr>fg_mode := Some v\<rparr>)"
  "set_flag dur ''cassettes'' v st = Some (st\<lparr>fg_cassettes := Some v\<rparr>)"
  "set_flag dur ''report-file'' v st = Some (st\<lparr>fg_reportFile := Some v\<rparr>)"
  "set_flag dur ''config'' v st = Some (st\<lparr>fg_configPath := Some v\<rparr>)"
  "set_flag dur ''no-default-deny'' (show_bool b) st = Some (st\<lparr>fg_noDefaultDeny := Some b\<rparr>)"
  "set_flag dur ''strict'' (show_bool b) st = Some (st\<lparr>fg_strict := Some b\<rparr>)"
  "dur t = Some d \<Longrightarrow> set_flag dur ''stdin-wait'' t st = Some (st\<lparr>fg_stdinWait := Some d\<rparr>)"
  by (simp_all add: set_flag_def, auto simp: ParseBool_def show_bool_def)

lemma unset_flag:
  "fg_mode st = None \<Longrightarrow> st\<lparr>fg_mode := None\<rparr> = st" "fg_cassettes st = None \<Longrightarrow> st\<lparr>fg_cassettes := None\<rparr> = st"
  "fg_reportFile st = None \<Longrightarrow> st\<lparr>fg_reportFile := None\<rparr> = st" "fg_configPath st = None \<Longrightarrow> st\<lparr>fg_configPath := None\<rparr> = st"
  "fg_noDefaultDeny st = None \<Longrightarrow> st\<lparr>fg_noDefaultDeny := None\<rparr> = st" "fg_strict st = None \<Longrightarrow> st\<lparr>fg_strict := None\<rparr> = st"
  "fg_stdinWait st = None \<Longrightarrow> st\<lparr>fg_stdinWait := None\<rparr> = st"
  by (cases st; simp)+

lemma parse_list_args:
  assumes "clean_list xs"
  shows "fg_shim st = [] \<Longrightarrow> parse_flags dur (list_arg ''shim'' xs @ r) st = parse_flags dur r (st\<lparr>fg_shim := xs\<rparr>)"
    "fg_deny st = [] \<Longrightarrow> parse_flags dur (list_arg ''deny'' xs @ r) st = parse_flags dur r (st\<lparr>fg_deny := xs\<rparr>)"
    "fg_env st = [] \<Longrightarrow> parse_flags dur (list_arg ''env'' xs @ r) st = parse_flags dur r (st\<lparr>fg_env := xs\<rparr>)"
    "fg_scrubDeny st = [] \<Longrightarrow> parse_flags dur (list_arg ''scrub'' xs @ r) st = parse_flags dur r (st\<lparr>fg_scrubDeny := xs\<rparr>)"
    "fg_scrubAllow st = [] \<Longrightarrow> parse_flags dur (list_arg ''no-scrub'' xs @ r) st = parse_flags dur r (st\<lparr>fg_scrubAllow := xs\<rparr>)"
  using parse_list_arg[where upd = "\<lambda>v. fg_shim_update (\<lambda>_. v)" and st = st, OF _ assms, of "''shim''" dur r]
    parse_list_arg[where upd = "\<lambda>v. fg_deny_update (\<lambda>_. v)" and st = st, OF _ assms, of "''deny''" dur r]
    parse_list_arg[where upd = "\<lambda>v. fg_env_update (\<lambda>_. v)" and st = st, OF _ assms, of "''env''" dur r]
    parse_list_arg[where upd = "\<lambda>v. fg_scrubDeny_update (\<lambda>_. v)" and st = st, OF _ assms, of "''scrub''" dur r]
    parse_list_arg[where upd = "\<lambda>v. fg_scrubAllow_update (\<lambda>_. v)" and st = st, OF _ assms, of "''no-scrub''" dur r]
  by (cases st; simp add: flag_names_def set_flag_def)+

lemma parse_opt_args:
  "fg_mode st = None \<Longrightarrow> parse_flags dur (opt_arg ''mode'' v @ r) st = parse_flags dur r (st\<lparr>fg_mode := v\<rparr>)"
  "fg_cassettes st = None \<Longrightarrow> parse_flags dur (opt_arg ''cassettes'' v @ r) st = parse_flags dur r (st\<lparr>fg_cassettes := v\<rparr>)"
  "fg_reportFile st = None \<Longrightarrow> parse_flags dur (opt_arg ''report-file'' v @ r) st = parse_flags dur r (st\<lparr>fg_reportFile := v\<rparr>)"
  "fg_configPath st = None \<Longrightarrow> parse_flags dur (opt_arg ''config'' v @ r) st = parse_flags dur r (st\<lparr>fg_configPath := v\<rparr>)"
  "fg_noDefaultDeny st = None \<Longrightarrow>
     parse_flags dur (opt_arg ''no-default-deny'' (map_option show_bool b) @ r) st = parse_flags dur r (st\<lparr>fg_noDefaultDeny := b\<rparr>)"
  "fg_strict st = None \<Longrightarrow>
     parse_flags dur (opt_arg ''strict'' (map_option show_bool b) @ r) st = parse_flags dur r (st\<lparr>fg_strict := b\<rparr>)"
  "fg_stdinWait st = None \<Longrightarrow> (\<And>d. dur (showDur d) = Some d) \<Longrightarrow>
     parse_flags dur (opt_arg ''stdin-wait'' (map_option showDur i) @ r) st = parse_flags dur r (st\<lparr>fg_stdinWait := i\<rparr>)"
  by (rule parse_opt_arg; simp add: flag_names_def bool_flags_def; use set_flag_named unset_flag in fastforce)+


definition sample_line :: flags where
  "sample_line = no_flags\<lparr>fg_shim := [''git'', ''curl''], fg_strict := Some False, fg_mode := Some ''record''\<rparr>"


text \<open>A malformed command line never starts anything: asking for help succeeds, every other mistake is
  a usage error.\<close>

lemma bad_flags_exit:
  "parse_flags dur args no_flags = Inl e \<Longrightarrow> runCmd_args U dec dur showDur h io args w = (if e = ErrHelp then 0 else 2)"
  by (simp add: runCmd_args_def exit_defs)

text \<open>What follows the first argument that is not a flag is the child's, and is never looked at.\<close>

lemma parse_flags_rest:
  "parse_flags dur args st = Inr (st', rest) \<Longrightarrow> suffix rest args"
  by (induction dur args st rule: parse_flags.induct)
    (auto simp: Let_def suffix_Cons split: if_splits option.splits list.splits prod.splits)

end
