(* ===== verification/Cli_Run.thy ===== *)
theory Cli_Run
  imports Cli_Files Cli_Flags
begin

section \<open>A run from its command line to its exit code\<close>

text \<open>
  The parts of \<^verbatim>\<open>xrr run\<close> put together: flags, layers, resolution, the configuration
  file, the shim that loads it, the call log and the exit code.
\<close>

lemma loadLayers_flags:
  assumes "loadLayers dec dur configPath fl w = Inr m"
  shows "set (cg_Deny fl) \<subseteq> set (cg_Deny m)" "set (cg_Shim fl) \<subseteq> set (cg_Shim m)"
proof -
  obtain lo where "m = mergeSettings lo fl"
    using assms by (auto simp: loadLayers_def Let_def split: sum.splits option.splits)
  then show "set (cg_Deny fl) \<subseteq> set (cg_Deny m)" "set (cg_Shim fl) \<subseteq> set (cg_Shim m)"
    by (auto simp: mergeSettings_def union_nub)
qed

lemma denied_name:
  assumes r: "resolve U h opts child = (Inr cfg, made)" "plain_commands U opts" and n: "n \<in> set (cf_Deny cfg)"
    and d: "d = cfg\<lparr>cf_Cmds := es\<rparr>" "map_of es = map_of (cf_Cmds cfg)" "distinct (map fst es)" and os: "h_os k = h_goos h"
  shows "inNames U (cf_Deny d) (sh_name (new_shim U d getenv k (shimFileName U n (h_goos h)) args))"
proof -
  have m: "n \<in> set (op_shim opts @ cf_Deny cfg)" using n by simp
  note nm = resolved_names(4)[OF r m]
  have "is_ascii (shimFileName U n (h_goos h))"
    using nm by (auto simp: shimFileName_def) (simp add: is_ascii_def)
  then have "cmdFor U es (shimFileName U n (h_goos h)) (h_goos h) = n"
    using resolved_cmdFor[OF r d(2,3) m] by simp
  then have "sh_name (new_shim U d getenv k (shimFileName U n (h_goos h)) args) = cassetteName U n"
    by (simp add: new_shim_def Let_def os d(1))
  then show ?thesis using n nm by (auto simp: inNames_iff single_ext_def d(1))
qed

lemma shim_run_denied:
  assumes "inNames U (cf_Deny (sh_cfg s)) (sh_name s)" "h_log k = None"
  shows "\<exists>st2 e. shim_run U dec s k st = (exitDenied, st2) \<and> ss_execs st2 = ss_execs st \<and> ss_world st2 = ss_world st
    \<and> ss_stdout st2 = ss_stdout st \<and> ss_calls st2 = ss_calls st @ [e] \<and> ce_Outcome e = outDenied \<and> ce_ExitCode e = exitDenied"
  using assms by (auto simp: shim_run_def shim_log_calls)

text \<open>C15: What the command line denies does not run, and the run fails. Take a name given with
  \<^verbatim>\<open>--deny\<close>; whatever the other layers are, once the run has resolved them and written the
  configuration file, the shim of that name, which knows nothing but the file, exits with 126
  without starting a process, touching a cassette or printing to standard output; and a run that
  reads a call log with its entry in it does not succeed.\<close>

theorem denied_flag_blocks_command:
  assumes flags: "parse_flags dur args no_flags = Inr (fl, child)" "n \<in> set (fg_deny fl)"
    and layers: "loadLayers dec dur cp (flag_layer showDur fl) w = Inr m"
    and run: "resolve U h (toOpts dur m) child = (Inr cfg, made)" "plain_commands U (toOpts dur m)" "config_ok cfg"
    and files: "writeConfig runDir cfg fs = (None, fs1)" "rf_read_fault fs (path_Join runDir configFile) = None"
    and host: "h_os k = h_goos h" "h_log k = None"
  shows "\<exists>st2 e. shimMain U rdec (loadConfig U runDir fs1) getenv k (shimFileName U n (h_goos h)) cmdargs st = (exitDenied, st2)
    \<and> ss_execs st2 = ss_execs st \<and> ss_world st2 = ss_world st \<and> ss_stdout st2 = ss_stdout st
    \<and> ss_calls st2 = ss_calls st @ [e] \<and> ce_Outcome e = outDenied
    \<and> (\<forall>fs2 fs3 cs io goos opts cfg' child'. log_ok runDir fs2 \<and> readCalls U runDir fs2 = Inr cs
         \<and> appendCall runDir e fs2 = (None, fs3) \<and> io_calls io = readCalls U runDir fs3
         \<longrightarrow> execute U goos io opts cfg' child' \<noteq> exitOK)"
proof -
  let ?es = "sort_key fst (cf_Cmds cfg)" and ?f = "shimFileName U n (h_goos h)"
  let ?d = "cfg\<lparr>cf_Cmds := ?es\<rparr>"
  let ?s = "new_shim U ?d getenv k ?f cmdargs"
  have es: "map_of ?es = map_of (cf_Cmds cfg)" "distinct (map fst ?es)"
    using resolved_cmds_distinct[OF run(1)]
    by (auto intro!: map_of_inject_set[THEN iffD2] simp: distinct_map)
  have "n \<in> set (op_deny (toOpts dur m))"
    using flags(2) loadLayers_flags(1)[OF layers] by (auto simp: toOpts_def flag_layer_def)
  then have "n \<in> set (cf_Deny cfg)" using resolved_names(2)[OF run(1)] by blast
  from denied_name[OF run(1,2) this refl es host(1)] have "inNames U (cf_Deny (sh_cfg ?s)) (sh_name ?s)"
    by (simp add: new_shim_def Let_def)
  from shim_run_denied[OF this host(2), of rdec st] obtain st2 e where
    s: "shim_run U rdec ?s k st = (exitDenied, st2)" "ss_execs st2 = ss_execs st" "ss_world st2 = ss_world st"
    "ss_stdout st2 = ss_stdout st" "ss_calls st2 = ss_calls st @ [e]" "ce_Outcome e = outDenied" "ce_ExitCode e = exitDenied"
    by blast
  have "execute U goos io opts cfg' child' \<noteq> exitOK"
    if "log_ok runDir fs2" "readCalls U runDir fs2 = Inr cs" "appendCall runDir e fs2 = (None, fs3)" "io_calls io = readCalls U runDir fs3"
    for fs2 fs3 cs io goos opts cfg' child'
  proof -
    have "in_int64 (ce_ExitCode e)" by (simp add: s(7) exitDenied_def in_int64_def)
    from appendCall_step(2)[OF that(1) this that(3), of U] that(2,4) have "io_calls io = Inr (cs @ [san_call e])" by simp
    moreover have "anyFailing (cs @ [san_call e])"
      using failing_san[of e] s(6) by (simp add: anyFailing_def failing_def)
    ultimately show ?thesis using execute_failing by (simp add: exitOK_def)
  qed
  moreover have "shimMain U rdec (loadConfig U runDir fs1) getenv k ?f cmdargs st = (exitDenied, st2)"
    using s(1) config_loaded[OF run(3) files, of U] by (simp add: shimMain_def)
  ultimately show ?thesis using s by blast
qed

subsection \<open>A closed example\<close>

definition deny_line :: "string list" where
  "deny_line = [''--shim=git'', ''-no-default-deny'', ''--deny'', ''open'', ''--'', ''make'', ''all'']"

definition deny_flags :: flags where
  "deny_flags = no_flags\<lparr>fg_shim := [''git''], fg_noDefaultDeny := Some True, fg_deny := [''open'']\<rparr>"

definition deny_layer :: settings where
  "deny_layer = no_settings\<lparr>cg_Shim := [''git''], cg_Deny := [''open''], cg_NoDefaultDeny := Some True\<rparr>"

lemma deny_parsed: "parse_flags (\<lambda>_. None) deny_line no_flags = Inr (deny_flags, [''make'', ''all''])"
proof -
  have l: "listFlag_Set [] ''git'' = [''git'']" "listFlag_Set [] ''open'' = [''open'']" by code_simp+
  have "flag_arg ''shim'' ''git'' = ''--shim=git''" by (simp add: flag_arg_def)
  moreover have "set_flag (\<lambda>_. None) ''shim'' ''git'' no_flags = Some (no_flags\<lparr>fg_shim := [''git'']\<rparr>)"
    by (simp add: set_flag_def no_flags_def l)
  moreover have "''shim'' \<in> set flag_names" by (simp add: flag_names_def)
  ultimately have "parse_flags (\<lambda>_. None) deny_line no_flags
      = parse_flags (\<lambda>_. None) [''-no-default-deny'', ''--deny'', ''open'', ''--'', ''make'', ''all''] (no_flags\<lparr>fg_shim := [''git'']\<rparr>)"
    using parse_flag_arg[of "''shim''" "\<lambda>_. None" "''git''" no_flags] unfolding deny_line_def by metis
  also have "\<dots> = Inr (deny_flags, [''make'', ''all''])"
    by (simp add: cut_value_def flag_names_def bool_flags_def set_flag_def ParseBool_def no_flags_def deny_flags_def l)
  finally show ?thesis .
qed

lemma deny_layers:
  "loadLayers (\<lambda>_. (None, no_settings)) (\<lambda>_. None) [] (flag_layer show_int deny_flags) tree_world = Inr deny_layer"
  by (simp add: loadLayers_def userConfigPath_def loadFile_def os_ReadFile_def tree_world_def envSettings_def
      env_bool_def env_string_def env_list_def ParseBool_def settings_validate_def validMode_def validatePatterns_def
      mergeSettings_def union_nub nub_def pick_def no_settings_def deny_flags_def no_flags_def deny_layer_def flag_layer_def
      checkConflicts_def Let_def)

lemma deny_resolved:
  "\<exists>cfg. resolve ascii_tables sample_host (toOpts (\<lambda>_. None) deny_layer) [''make'', ''all''] = (Inr cfg, []) \<and> config_ok cfg"
proof -
  let ?r = "resolve ascii_tables sample_host (toOpts (\<lambda>_. None) deny_layer) [''make'', ''all'']"
  have "\<not> isl (fst ?r)" "snd ?r = []" by code_simp+
  then obtain cfg where cfg: "?r = (Inr cfg, [])" by (cases ?r; cases "fst ?r") auto
  have "cfg = projr (fst ?r)" using cfg by simp
  then have parts: "cf_Mode cfg = ''replay''" "cf_CassetteDir cfg = ''/w/cassettes''" "cf_RealPath cfg = ''/bin''" "cf_Deny cfg = [''open'']"
    "cf_EnvCapture cfg = []" "cf_ScrubDeny cfg = []" "cf_ScrubAllow cfg = []"
    "cf_Cmds cfg = [(''git.exe'', ''git''), (''open.exe'', ''open'')]"
    by (simp, code_simp)+
  have "cf_StdinWaitMs cfg = 250"
    using cfg by (auto simp: resolve_def Let_def toOpts_def deny_layer_def no_settings_def go_div_def split: if_splits sum.splits option.splits prod.splits)
  with parts have "config_ok cfg" by (simp add: config_ok_def in_int64_def is_ascii_utf8_valid is_ascii_def)
  with cfg show ?thesis by blast
qed

theorem denied_flag_blocks_command_witness:
  "\<exists>cfg fs1 st2. resolve ascii_tables sample_host (toOpts (\<lambda>_. None) deny_layer) [''make'', ''all''] = (Inr cfg, [])
     \<and> writeConfig ''r'' cfg empty_files = (None, fs1)
     \<and> shimMain ascii_tables tree_dec (loadConfig ascii_tables ''r'' fs1) (\<lambda>_. []) (shim_host\<lparr>h_os := ''windows''\<rparr>) ''open.exe'' [''x''] shim_start
         = (126, st2)
     \<and> ss_execs st2 = []"
proof -
  obtain cfg where cfg: "resolve ascii_tables sample_host (toOpts (\<lambda>_. None) deny_layer) [''make'', ''all''] = (Inr cfg, [])" "config_ok cfg"
    using deny_resolved by blast
  obtain fs1 where w: "writeConfig ''r'' cfg empty_files = (None, fs1)"
    by (simp add: writeConfig_def rf_WriteFile_def rf_put_def empty_files_def)
  have p: "plain_commands ascii_tables (toOpts (\<lambda>_. None) deny_layer)"
    unfolding plain_commands_def single_ext_def by code_simp
  have n: "''open'' \<in> set (fg_deny deny_flags)" by (simp add: deny_flags_def)
  have rf: "rf_read_fault empty_files (path_Join ''r'' configFile) = None" by (simp add: empty_files_def)
  have k: "h_os (shim_host\<lparr>h_os := ''windows''\<rparr>) = h_goos sample_host" "h_log (shim_host\<lparr>h_os := ''windows''\<rparr>) = None"
    by (simp_all add: sample_host_def shim_host_def)
  have f: "shimFileName ascii_tables ''open'' (h_goos sample_host) = ''open.exe''" by code_simp
  from denied_flag_blocks_command[where rdec = tree_dec and getenv = "\<lambda>_. []" and cmdargs = "[''x'']" and st = shim_start,
      OF deny_parsed n deny_layers cfg(1) p cfg(2) w rf k, unfolded f exitDenied_def]
  obtain st2 where "shimMain ascii_tables tree_dec (loadConfig ascii_tables ''r'' fs1) (\<lambda>_. []) (shim_host\<lparr>h_os := ''windows''\<rparr>) ''open.exe'' [''x''] shim_start
         = (126, st2)" "ss_execs st2 = ss_execs shim_start" by blast
  with cfg(1) w show ?thesis by (auto simp: shim_start_def)
qed

end
