(* ===== verification/Session_Runs.thy ===== *)
theory Session_Runs
  imports Adapters
begin

section \<open>Runs of calls through a session\<close>

text \<open>
  An application makes many calls through a session, of several adapters, and may make the same
  call again. This theory follows a whole run: what a recording run leaves in the cassette
  directory, and what a later replaying run, which may make the calls in another order and number,
  gets back. A call returns its results with the next world, or \<^const>\<open>None\<close> when it panics.
\<close>

type_synonym ('r, 'd) call = "'d world \<Rightarrow> ('r \<times> 'd world) option"

text \<open>\<^verbatim>\<open>Record\<close> when the live operation may panic: the panic unwinds through the session in
  the two modes that call the operation, and they call it first.\<close>

definition Record_live ::
  "FileSession \<Rightarrow> 'q adapter \<Rightarrow> 'q \<Rightarrow> (Response option \<times> goerr option, 'd) call
   \<Rightarrow> (Response option \<times> goerr option, 'd) call" where
  "Record_live s ad req do w =
     (if s_mode s \<in> {ModeRecord, ModePassthrough} \<and> do w = None then None
      else Record s ad req (\<lambda>w. case do w of Some r \<Rightarrow> r | None \<Rightarrow> ((None, None), w)) w)"

lemma NewSession_sel [simp]: "s_mode (NewSession m c) = m" "s_cassette (NewSession m c) = c"
  by (simp_all add: NewSession_def)

subsection \<open>Recording and replaying a run of calls\<close>

fun run_all :: "('c \<Rightarrow> 'w \<Rightarrow> ('r \<times> 'w) option) \<Rightarrow> 'c list \<Rightarrow> 'w \<Rightarrow> ('r list \<times> 'w) option" where
  "run_all f [] w = Some ([], w)"
| "run_all f (c # cs) w =
     Option.bind (f c w) (\<lambda>(r, w1). map_option (\<lambda>(rs, w2). (r # rs, w2)) (run_all f cs w1))"

text \<open>The outcome of the last of some calls that has the key of a given call.\<close>

definition last_outcome :: "('c \<Rightarrow> 'k) \<Rightarrow> 'c list \<Rightarrow> 'r list \<Rightarrow> 'c \<Rightarrow> 'r" where
  "last_outcome key cs rs d = the (map_of (rev (zip (map key cs) rs)) (key d))"

lemma last_outcome_Cons:
  assumes "length rs = length cs" "key d \<in> key ` set (c # cs)"
  shows "last_outcome key (c # cs) (r # rs) d = (if key d \<in> key ` set cs then last_outcome key cs rs d else r)"
proof -
  have "fst ` set (rev (zip (map key cs) rs)) = set (map fst (zip (map key cs) rs))" by simp
  also have "\<dots> = key ` set cs" using assms(1) by (subst map_fst_zip) simp_all
  finally have "map_of (rev (zip (map key cs) rs)) (key d) = None \<longleftrightarrow> key d \<notin> key ` set cs"
    by (simp add: map_of_eq_None_iff)
  moreover have "key d \<notin> key ` set cs \<Longrightarrow> key d = key c" using assms(2) by auto
  ultimately show ?thesis
    by (cases "map_of (rev (zip (map key cs) rs)) (key d)") (simp_all add: last_outcome_def map_add_def)
qed

lemma last_outcome_distinct:
  "length rs = length cs \<Longrightarrow> distinct (map key cs) \<Longrightarrow> map (last_outcome key cs rs) cs = rs"
proof (induction cs arbitrary: rs)
  case (Cons c cs)
  then obtain r rs' where rs: "rs = r # rs'" "length rs' = length cs" by (cases rs) auto
  have "map (last_outcome key (c # cs) rs) cs = map (last_outcome key cs rs') cs"
    using rs by (intro map_cong) (simp_all add: last_outcome_Cons)
  with Cons rs show ?case by (simp add: last_outcome_Cons)
qed simp

text \<open>The last outcome is one that was recorded for the key.\<close>

lemma last_outcome_recorded:
  assumes "length rs = length cs" "key d \<in> key ` set cs"
  shows "\<exists>c. (c, last_outcome key cs rs d) \<in> set (zip cs rs) \<and> key c = key d"
  using assms
proof (induction cs arbitrary: rs)
  case (Cons c cs)
  then obtain r rs' where rs: "rs = r # rs'" "length rs' = length cs" by (cases rs) auto
  show ?case
  proof (cases "key d \<in> key ` set cs")
    case True
    with Cons.IH[OF rs(2)] Cons.prems(2) rs show ?thesis by (auto simp: last_outcome_Cons)
  next
    case False
    with Cons.prems(2) rs show ?thesis by (auto simp: last_outcome_Cons)
  qed
qed simp

text \<open>
  A program that makes calls: it ends, or makes a call and goes on with what it observes of the
  outcome. The run of a program gives its result and the calls it made with their outcomes.
\<close>

datatype ('c, 'v, 'x) client =
    Return 'x
  | Ask 'c "'v \<Rightarrow> ('c, 'v, 'x) client"

primrec run_client ::
  "('r \<Rightarrow> 'v) \<Rightarrow> ('c \<Rightarrow> 'w \<Rightarrow> ('r \<times> 'w) option) \<Rightarrow> ('c, 'v, 'x) client \<Rightarrow> 'w \<Rightarrow> (('x \<times> ('c \<times> 'r) list) \<times> 'w) option" where
  "run_client obs f (Return x) = (\<lambda>w. Some ((x, []), w))"
| "run_client obs f (Ask c k) = (\<lambda>w. Option.bind (f c w) (\<lambda>(r, w1).
     map_option (\<lambda>((x, tr), w2). ((x, (c, r) # tr), w2)) (run_client obs f (k (obs r)) w1)))"

lemma run_client_all:
  "run_client obs f p w = Some ((x, tr), w2) \<Longrightarrow> run_all f (map fst tr) w = Some (map snd tr, w2)"
proof (induction p arbitrary: w tr)
  case (Ask c k)
  then obtain r w1 tr' where r: "tr = (c, r) # tr'" "f c w = Some (r, w1)" "run_client obs f (k (obs r)) w1 = Some ((x, tr'), w2)"
    by (auto simp: bind_eq_Some_conv)
  with Ask.IH[OF rangeI r(3)] show ?case by simp
qed simp

lemma run_client_calls:
  "run_client obs f p w = Some ((x, tr), w2) \<Longrightarrow> (c, r) \<in> set tr \<Longrightarrow> \<exists>w' w''. f c w' = Some (r, w'')"
proof (induction p arbitrary: w tr)
  case (Ask d k)
  then obtain s w1 tr' where s: "tr = (d, s) # tr'" "f d w = Some (s, w1)" "run_client obs f (k (obs s)) w1 = Some ((x, tr'), w2)"
    by (auto simp: bind_eq_Some_conv)
  with Ask.IH[OF rangeI s(3)] Ask.prems(2) show ?case by auto
qed simp

text \<open>
  The contract of recorded calls: a call made while recording leaves its outcome in the store,
  under a key, and disturbs no other key; a call made while replaying is answered from the store
  and changes nothing. What is held for a call is held for every fit call with its key.
  \<open>sim d r s\<close> says that \<open>s\<close> is an answer to the call \<open>d\<close> when \<open>r\<close> was
  recorded.
\<close>

locale recorded_calls =
  fixes rec rep :: "'c \<Rightarrow> 'w \<Rightarrow> ('r \<times> 'w) option"
    and key :: "'c \<Rightarrow> 'k"
    and fit :: "'c \<Rightarrow> bool"
    and good :: "'w \<Rightarrow> bool"
    and ok :: "'w \<Rightarrow> 'c \<Rightarrow> 'r \<Rightarrow> bool"
    and holds :: "'w \<Rightarrow> 'c \<Rightarrow> 'r \<Rightarrow> bool"
    and sim :: "'c \<Rightarrow> 'r \<Rightarrow> 'r \<Rightarrow> bool"
  assumes rec_holds: "good w \<Longrightarrow> ok w c r \<Longrightarrow> rec c w = Some (r, w1) \<Longrightarrow> good w1 \<and> holds w1 c r"
    and rec_ok: "good w \<Longrightarrow> ok w c r \<Longrightarrow> rec c w = Some (r, w1) \<Longrightarrow> ok w1 = ok w"
    and rec_other: "good w \<Longrightarrow> ok w c r \<Longrightarrow> rec c w = Some (r, w1) \<Longrightarrow> key d \<noteq> key c \<Longrightarrow> holds w d s \<Longrightarrow> holds w1 d s"
    and holds_key: "holds w c r \<Longrightarrow> fit d \<Longrightarrow> key d = key c \<Longrightarrow> holds w d r"
    and rep_holds: "holds w c r \<Longrightarrow> \<exists>s. rep c w = Some (s, w) \<and> sim c r s"
begin

lemma later_calls_keep:
  assumes "run_all rec cs w = Some (rs, w2)" "good w" "list_all2 (ok w) cs rs" "holds w d s" "key d \<notin> key ` set cs"
  shows "holds w2 d s"
  using assms
proof (induction cs arbitrary: rs w)
  case (Cons c cs)
  from Cons.prems(1,3) obtain r w1 rs' where r: "rec c w = Some (r, w1)" "run_all rec cs w1 = Some (rs', w2)"
    "rs = r # rs'" "ok w c r" "list_all2 (ok w) cs rs'"
    by (auto simp: bind_eq_Some_conv)
  note facts = rec_holds[OF Cons.prems(2) r(4,1)] rec_ok[OF Cons.prems(2) r(4,1)]
  have "holds w1 d s" using rec_other[OF Cons.prems(2) r(4,1) _ Cons.prems(4)] Cons.prems(5) by simp
  with Cons.IH[OF r(2)] facts r(5) Cons.prems(5) show ?case by simp
qed simp

lemma last_held:
  assumes "run_all rec cs w = Some (rs, w2)" "good w" "list_all2 (ok w) cs rs" "fit d" "key d \<in> key ` set cs"
  shows "holds w2 d (last_outcome key cs rs d)"
  using assms
proof (induction cs arbitrary: rs w)
  case (Cons c cs)
  from Cons.prems(1,3) obtain r w1 rs' where r: "rec c w = Some (r, w1)" "run_all rec cs w1 = Some (rs', w2)"
    "rs = r # rs'" "ok w c r" "list_all2 (ok w) cs rs'"
    by (auto simp: bind_eq_Some_conv)
  note facts = rec_holds[OF Cons.prems(2) r(4,1)] rec_ok[OF Cons.prems(2) r(4,1)]
  note last = last_outcome_Cons[OF list_all2_lengthD[OF r(5), symmetric] Cons.prems(5), of r, folded r(3)]
  show ?case
  proof (cases "key d \<in> key ` set cs")
    case True
    with Cons.IH[OF r(2)] facts r(5) Cons.prems(4) last show ?thesis by simp
  next
    case False
    then have "holds w1 d r" using facts Cons.prems(4,5) by (auto intro: holds_key)
    with later_calls_keep[OF r(2)] False facts r(5) last show ?thesis by simp
  qed
qed simp

text \<open>Any calls with recorded keys, in any order and number, get the last recorded outcomes.\<close>

lemma run_answers:
  assumes "run_all rec cs w = Some (rs, w2)" "good w" "list_all2 (ok w) cs rs"
    and "list_all (\<lambda>d. fit d \<and> key d \<in> key ` set cs) ds"
  obtains ss where "run_all rep ds w2 = Some (ss, w2)"
    "list_all2 (\<lambda>d s. sim d (last_outcome key cs rs d) s) ds ss"
proof -
  have "\<exists>ss. run_all rep ds w2 = Some (ss, w2) \<and> list_all2 (\<lambda>d s. sim d (last_outcome key cs rs d) s) ds ss"
    using assms(4)
  proof (induction ds)
    case (Cons d ds)
    then obtain ss where "run_all rep ds w2 = Some (ss, w2)" "list_all2 (\<lambda>d s. sim d (last_outcome key cs rs d) s) ds ss"
      by auto
    moreover obtain s where "rep d w2 = Some (s, w2)" "sim d (last_outcome key cs rs d) s"
      using rep_holds[OF last_held[OF assms(1-3)], of d] Cons.prems by auto
    ultimately show ?case by (intro exI[of _ "s # ss"]) simp
  qed simp
  with that show thesis by blast
qed

text \<open>A program that ran while recording, and cannot observe the difference between what was
  recorded and its answer, has the same run while replaying, call by call.\<close>

lemma held_client_replays:
  assumes "run_client obs rec p w = Some ((x, tr), w1)" "\<forall>(c, r) \<in> set tr. holds w2 c r \<and> (\<forall>s. sim c r s \<longrightarrow> obs s = obs r)"
  shows "\<exists>tr2. run_client obs rep p w2 = Some ((x, tr2), w2)
    \<and> list_all2 (\<lambda>(c, r) (d, s). d = c \<and> sim c r s) tr tr2"
  using assms
proof (induction p arbitrary: w tr)
  case (Ask c k)
  then obtain r w3 tr' where r: "tr = (c, r) # tr'" "run_client obs rec (k (obs r)) w3 = Some ((x, tr'), w1)"
    by (auto simp: bind_eq_Some_conv)
  obtain s where s: "rep c w2 = Some (s, w2)" "sim c r s" "obs s = obs r"
    using rep_holds[of w2 c r] Ask.prems(2) r(1) by auto
  obtain tr2 where "run_client obs rep (k (obs r)) w2 = Some ((x, tr2), w2)"
    "list_all2 (\<lambda>(c, r) (d, s). d = c \<and> sim c r s) tr' tr2"
    using Ask.IH[OF rangeI r(2)] Ask.prems(2) r(1) by auto
  with s r(1) show ?case by (intro exI[of _ "(c, s) # tr2"]) simp
qed simp

lemma client_replays:
  assumes "run_client obs rec p w = Some ((x, tr), w2)" "good w" "\<forall>(c, r) \<in> set tr. ok w c r \<and> fit c"
    and "\<forall>(c, r) \<in> set tr. \<forall>(d, s) \<in> set tr. key c = key d \<longrightarrow> r = s"
    and "\<forall>(c, r) \<in> set tr. \<forall>s. sim c r s \<longrightarrow> obs s = obs r"
  shows "\<exists>tr2. run_client obs rep p w2 = Some ((x, tr2), w2)
    \<and> list_all2 (\<lambda>(c, r) (d, s). d = c \<and> sim c r s) tr tr2"
proof (rule held_client_replays[OF assms(1)], clarify, intro conjI)
  fix c r
  assume cr: "(c, r) \<in> set tr"
  then have k: "key c \<in> key ` set (map fst tr)" by force
  have ok: "list_all2 (ok w) (map fst tr) (map snd tr)"
    using assms(3) by (auto simp: list_all2_map1 list_all2_map2 list_all2_same)
  obtain d where d: "(d, last_outcome key (map fst tr) (map snd tr) c) \<in> set tr" "key d = key c"
    using last_outcome_recorded[of "map snd tr" "map fst tr" key c] k by (auto simp: zip_map_fst_snd)
  then have "last_outcome key (map fst tr) (map snd tr) c = r" using assms(4) cr by fastforce
  then show "holds w2 c r"
    using last_held[OF run_client_all[OF assms(1)] assms(2) ok _ k] assms(3) cr by auto
  show "\<forall>s. sim c r s \<longrightarrow> obs s = obs r" using assms(5) cr by blast
qed

end

text \<open>Where an answer is a function of what was recorded, \<open>view\<close>.\<close>

locale wrapped_calls = recorded_calls rec rep key fit good ok holds "\<lambda>d r s. s = view r"
  for rec rep :: "'c \<Rightarrow> 'w \<Rightarrow> ('r \<times> 'w) option" and key :: "'c \<Rightarrow> 'k" and fit good ok holds
    and view :: "'r \<Rightarrow> 'r"
begin

lemma run_replays:
  assumes "run_all rec cs w = Some (rs, w2)" "good w" "list_all2 (ok w) cs rs"
    and "list_all (\<lambda>d. fit d \<and> key d \<in> key ` set cs) ds"
  shows "run_all rep ds w2 = Some (map (\<lambda>d. view (last_outcome key cs rs d)) ds, w2)"
proof -
  obtain ss where ss: "run_all rep ds w2 = Some (ss, w2)"
    "list_all2 (\<lambda>d s. s = view (last_outcome key cs rs d)) ds ss"
    by (rule run_answers[OF assms])
  have "ss = map (\<lambda>d. view (last_outcome key cs rs d)) ds"
    using ss(2) by (auto simp: list_all2_conv_all_nth intro: nth_equalityI)
  with ss(1) show ?thesis by simp
qed

lemma run_again:
  assumes "run_all rec cs w = Some (rs, w2)" "good w" "list_all2 (ok w) cs rs" "list_all fit cs" "distinct (map key cs)"
  shows "run_all rep cs w2 = Some (map view rs, w2)"
  using run_replays[OF assms(1-3), of cs] assms(4) arg_cong[OF last_outcome_distinct[OF _ assms(5), of rs], of "map view"]
    list_all2_lengthD[OF assms(3)]
  by (simp add: list_all_iff comp_def)

end

text \<open>An operation that does not write into the cassette directory.\<close>

definition spares :: "FileCassette \<Rightarrow> ('r, 'd) call \<Rightarrow> bool" where
  "spares c do \<longleftrightarrow> (\<forall>w r w1. do w = Some (r, w1) \<longrightarrow> same_but_files w w1
     \<and> (\<forall>a fp kind. w_files w1 (cassette_path c a fp kind) = w_files w (cassette_path c a fp kind)))"

text \<open>The cassette holds an interaction: a response with these fields, and an error text.\<close>

definition held :: "FileCassette \<Rightarrow> 'q adapter \<Rightarrow> 'q \<Rightarrow> (string \<times> gval) list \<Rightarrow> string \<Rightarrow> 'd world \<Rightarrow> bool" where
  "held c ad req kvs txt w \<longleftrightarrow> (\<exists>fp q lvs. a_Fingerprint ad req = Inr fp \<and> key_ok (a_ID ad, fp)
     \<and> Load c (a_ID ad) fp w = Inr (q, Some lvs, txt) \<and> key_norm (GMap lvs) = key_norm (GMap kvs))"

definition save_error :: "goerr option \<Rightarrow> bool" where
  "save_error e = (case e of Some (ErrWrap s x) \<Rightarrow> s = ''xrr: save'' | _ \<Rightarrow> False)"

lemma Load_spared:
  assumes "same_but_files w w'"
    and "\<And>kind. kind \<in> kinds \<Longrightarrow> w_files w' (cassette_path c a fp kind) = w_files w (cassette_path c a fp kind)"
  shows "Load c a fp w' = Load c a fp w"
  using Load_cong[OF assms] same_but_files_fields(1)[OF assms(1)] by (simp add: Load_def)

lemma untouched_cong: "same_but_files w w' \<Longrightarrow> untouched c w' g = untouched c w g"
  unfolding untouched_def using same_but_files_fields(1,7)[of w w'] by simp

lemma held_spared:
  assumes "spares c do" "do w = Some (r, w1)"
  shows "held c ad req kvs txt w1 = held c ad req kvs txt w"
proof -
  have "Load c (a_ID ad) fp w1 = Load c (a_ID ad) fp w" for fp
    using assms by (intro Load_spared) (auto simp: spares_def)
  then show ?thesis by (simp add: held_def)
qed

lemma held_saved:
  assumes "Save c a fp req resp e w = (r, w')" "key_ok (a, fp)" "(a_ID ad, a_Fingerprint ad q) \<noteq> (a, Inr fp)"
    and "held c ad q kvs txt w"
  shows "held c ad q kvs txt w'"
proof -
  note o = Save_other[OF assms(1)]
  have "Load c (a_ID ad) fq w' = Load c (a_ID ad) fq w" if "key_ok (a_ID ad, fq)" "(a_ID ad, fq) \<noteq> (a, fp)" for fq
    using o(2) that assms(2) by (intro Load_spared[OF o(1)]) (auto simp: cassette_path_inj)
  with assms(3,4) show ?thesis unfolding held_def by (metis prod.inject)
qed

lemma Record_live_returns:
  assumes "s_mode s = ModeRecord" "s_cassette s = Some c"
    and "do w = Some ((Some resp0, e0), w1)" "a_Fingerprint ad req = Inr fp"
    and "Record_live s ad req do w = Some ((resp, e), w2)" "\<not> save_error e"
  shows "e = e0" "resp = Some resp0"
proof -
  obtain se w3 where sv: "Save c (a_ID ad) fp (Some (a_fields ad req)) (Some (resp_fields resp0)) e0 w1 = (se, w3)"
    by fastforce
  have "se = None"
    using assms sv by (cases se) (auto simp: Record_live_def Record_def session_record_def save_error_def)
  then show "e = e0" "resp = Some resp0"
    using assms sv by (simp_all add: Record_live_def Record_def session_record_def)
qed

lemma Record_live_saved:
  assumes s: "s_mode s = ModeRecord" "s_cassette s = Some c"
    and live: "do w = Some ((Some (AdapterResp (GMap kvs)), e0), w1)" "spares c do"
    and fp: "a_Fingerprint ad req = Inr fp" "key_ok (a_ID ad, fp)"
    and req: "a_fields ad req = GMap qvs"
    and vals: "plain (GMap qvs)" "plain (GMap kvs)" "utf8_valid (errstr e0)"
    and world: "store_ok c w" "untouched c w (GMap qvs)" "untouched c w (GMap kvs)"
    and rec: "Record_live s ad req do w = Some ((resp, e), w2)" "\<not> save_error e"
  shows "e = e0" "resp = Some (AdapterResp (GMap kvs))" "held c ad req kvs (errstr e) w2" "same_but_files w w2"
    "(a_ID bd, a_Fingerprint bd q) \<noteq> (a_ID ad, Inr fp) \<Longrightarrow> held c bd q lvs txt w \<Longrightarrow> held c bd q lvs txt w2"
proof -
  let ?do = "\<lambda>w. case do w of Some r \<Rightarrow> r | None \<Rightarrow> ((None, None), w)"
  have w1: "same_but_files w w1" using live by (auto simp: spares_def)
  have r: "Record s ad req ?do w = Some ((resp, e), w2)"
    using rec(1) live(1) by (simp add: Record_live_def)
  have resp: "resp = Some (AdapterResp (GMap kvs))"
    using Record_live_returns(2)[OF s live(1) fp(1) rec] .
  then have r': "Record s ad req ?do w = Some ((Some (AdapterResp (GMap kvs)), e), w2)" using r by simp
  have world1: "store_ok c w1" "untouched c w1 (GMap qvs)" "untouched c w1 (GMap kvs)"
    using world w1 by (simp_all add: store_ok_cong untouched_cong)
  have do: "?do w = ((Some (AdapterResp (GMap kvs)), e0), w1)" using live(1) by simp
  obtain p pvs where saved: "e = e0" "key_norm (GMap pvs) = key_norm (GMap kvs)"
    "Load c (a_ID ad) fp w2 = Inr (Some p, Some pvs, errstr e0)"
    "Save c (a_ID ad) fp (Some (GMap qvs)) (Some (GMap kvs)) e0 w1 = (None, w2)"
    by (rule Record_saved[where do = ?do, OF s do fp req vals world1 r'])
  show "e = e0" "resp = Some (AdapterResp (GMap kvs))" using saved(1) resp .
  show "held c ad req kvs (errstr e) w2" using saved fp unfolding held_def by blast
  show "same_but_files w w2" using w1 Save_other(1)[OF saved(4)] by (rule same_but_files_trans)
  show "held c bd q lvs txt w2" if "(a_ID bd, a_Fingerprint bd q) \<noteq> (a_ID ad, Inr fp)" "held c bd q lvs txt w"
    by (rule held_saved[OF saved(4) fp(2) that(1)]) (simp add: held_spared[OF live(2,1)] that(2))
qed

lemma Record_live_held:
  assumes "s_mode t = ModeReplay" "s_cassette t = Some c" "held c ad req kvs txt w"
  obtains lvs where "key_norm (GMap lvs) = key_norm (GMap kvs)"
    "Record_live t ad req do w = Some ((Some (RawResponse (a_ID ad) (Some lvs)), if txt = [] then None else Some (ErrNew txt)), w)"
proof -
  obtain fp q lvs where h: "a_Fingerprint ad req = Inr fp" "Load c (a_ID ad) fp w = Inr (q, Some lvs, txt)"
    "key_norm (GMap lvs) = key_norm (GMap kvs)"
    using assms(3) by (auto simp: held_def)
  show thesis
    using that[OF h(3)] Record_loaded[OF assms(1,2) h(1,2)] assms(1) by (simp add: Record_live_def mode_defs)
qed

text \<open>How an outcome comes back from a replay: an error keeps its text only, and an error without
  text is no error.\<close>

definition replayed_error :: "goerr option \<Rightarrow> goerr option" where
  "replayed_error e = (if errstr e = [] then None else Some (ErrNew (errstr e)))"

subsection \<open>Runs over several adapters\<close>

text \<open>A call names its adapter and its request; \<open>live\<close> is what the application does for it.\<close>

type_synonym unary_call = "Request adapter \<times> Request"

definition session_call ::
  "FileSession \<Rightarrow> (unary_call \<Rightarrow> (Response option \<times> goerr option, 'd) call)
   \<Rightarrow> unary_call \<Rightarrow> (Response option \<times> goerr option, 'd) call" where
  "session_call s live call = Record_live s (fst call) (snd call) (live call)"

definition call_key :: "unary_call \<Rightarrow> string \<times> string res" where
  "call_key call = (a_ID (fst call), a_Fingerprint (fst call) (snd call))"

text \<open>A call that can be recorded with its outcome: it has a fingerprint, the payloads of request
  and response are mappings that can be written and that the redactor leaves alone, and the
  cassette could be written.\<close>

definition recordable :: "FileCassette \<Rightarrow> 'd world \<Rightarrow> unary_call \<Rightarrow> Response option \<times> goerr option \<Rightarrow> bool" where
  "recordable c w = (\<lambda>(ad, req) (resp, e). \<exists>fp qvs kvs.
     a_Fingerprint ad req = Inr fp \<and> key_ok (a_ID ad, fp)
     \<and> a_fields ad req = GMap qvs \<and> plain (GMap qvs) \<and> untouched c w (GMap qvs)
     \<and> resp = Some (AdapterResp (GMap kvs)) \<and> plain (GMap kvs) \<and> untouched c w (GMap kvs)
     \<and> utf8_valid (errstr e) \<and> \<not> save_error e)"

definition call_held :: "FileCassette \<Rightarrow> 'd world \<Rightarrow> unary_call \<Rightarrow> Response option \<times> goerr option \<Rightarrow> bool" where
  "call_held c w = (\<lambda>(ad, req) (resp, e). \<exists>kvs.
     resp = Some (AdapterResp (GMap kvs)) \<and> held c ad req kvs (errstr e) w)"

text \<open>An answer to a call: a response of its adapter with the recorded fields, in any order, and
  an error with the recorded text.\<close>

definition answers :: "unary_call \<Rightarrow> Response option \<times> goerr option \<Rightarrow> Response option \<times> goerr option \<Rightarrow> bool" where
  "answers call = (\<lambda>(resp, e) (resp', e'). \<exists>kvs lvs.
     resp = Some (AdapterResp (GMap kvs)) \<and> resp' = Some (RawResponse (a_ID (fst call)) (Some lvs))
     \<and> key_norm (GMap lvs) = key_norm (GMap kvs) \<and> e' = replayed_error e)"

lemma recordableI:
  assumes "a_Fingerprint (fst call) (snd call) = Inr fp" "key_ok (a_ID (fst call), fp)"
    and "a_fields (fst call) (snd call) = GMap qvs" "plain (GMap qvs)" "untouched c w (GMap qvs)"
    and "plain (GMap kvs)" "untouched c w (GMap kvs)" "utf8_valid (errstr e)" "\<not> save_error e"
  shows "recordable c w call (Some (AdapterResp (GMap kvs)), e)"
  using assms unfolding recordable_def by (cases call) auto

lemma recordable_cong: "same_but_files w w' \<Longrightarrow> recordable c w' = recordable c w"
  by (simp add: recordable_def untouched_cong fun_eq_iff)

text \<open>The live operations return a response, with or without an error.\<close>

definition responds :: "(unary_call \<Rightarrow> (Response option \<times> goerr option, 'd) call) \<Rightarrow> bool" where
  "responds live \<longleftrightarrow> (\<forall>call w resp e w1. live call w = Some ((resp, e), w1) \<longrightarrow> resp \<noteq> None)"

text \<open>What a recordable call comes from.\<close>

lemma recorded_live:
  assumes "recordable c w (ad, req) (resp, e)" "session_call (NewSession ModeRecord (Some c)) live (ad, req) w = Some ((resp, e), w2)"
    and "responds live"
  obtains w1 where "live (ad, req) w = Some ((resp, e), w1)"
proof -
  let ?s = "NewSession ModeRecord (Some c)"
  obtain fp where fp: "a_Fingerprint ad req = Inr fp" "\<not> save_error e" using assms(1) by (auto simp: recordable_def)
  have rec: "Record_live ?s ad req (live (ad, req)) w = Some ((resp, e), w2)" using assms(2) by (simp add: session_call_def)
  then obtain r e0 w1 where "live (ad, req) w = Some ((r, e0), w1)"
    by (cases "live (ad, req) w") (auto simp: Record_live_def)
  moreover from this obtain resp0 where "r = Some resp0" using assms(3) unfolding responds_def by blast
  ultimately have live: "live (ad, req) w = Some ((Some resp0, e0), w1)" by simp
  from Record_live_returns[OF _ _ live fp(1) rec fp(2)] live that show thesis by simp
qed

lemma session_recorded:
  assumes w: "store_ok c w" "spares c (live call)" and ok: "recordable c w call r"
    and live: "responds live"
    and rec: "session_call (NewSession ModeRecord (Some c)) live call w = Some (r, w2)"
  shows "same_but_files w w2" "call_held c w2 call r"
    "call_key d \<noteq> call_key call \<Longrightarrow> call_held c w d x \<Longrightarrow> call_held c w2 d x"
proof -
  let ?s = "NewSession ModeRecord (Some c)"
  obtain ad req resp e where split: "call = (ad, req)" "r = (resp, e)" by (cases call; cases r)
  obtain fp qvs kvs where k: "a_Fingerprint ad req = Inr fp" "key_ok (a_ID ad, fp)" "a_fields ad req = GMap qvs"
    "plain (GMap qvs)" "plain (GMap kvs)" "utf8_valid (errstr e)" "untouched c w (GMap qvs)" "untouched c w (GMap kvs)"
    "resp = Some (AdapterResp (GMap kvs))" "\<not> save_error e"
    using ok unfolding recordable_def split by blast
  obtain w1 where "live (ad, req) w = Some ((Some (AdapterResp (GMap kvs)), e), w1)"
    using recorded_live[OF ok[unfolded split] rec[unfolded split] live] k(9) by blast
  note saved = Record_live_saved[OF _ _ this w(2)[unfolded split] k(1-6) w(1) k(7,8) _ k(10), of ?s, simplified]
  have rl: "Record_live ?s ad req (live (ad, req)) w = Some ((resp, e), w2)"
    using rec by (simp add: session_call_def split)
  show "same_but_files w w2" by (rule saved(4)[OF rl])
  show "call_held c w2 call r" using saved(3)[OF rl] k(9) by (simp add: call_held_def split)
  show "call_held c w2 d x" if other: "call_key d \<noteq> call_key call" "call_held c w d x"
  proof -
    obtain bd q lvs e' where d: "d = (bd, q)" "x = (Some (AdapterResp (GMap lvs)), e')" "held c bd q lvs (errstr e') w"
      using other(2) by (auto simp: call_held_def split: prod.splits)
    have "a_ID bd = a_ID ad \<longrightarrow> a_Fingerprint bd q \<noteq> Inr fp"
      using other(1) k(1) by (simp add: call_key_def d split)
    from saved(5)[OF rl this d(3)] show ?thesis by (simp add: call_held_def d)
  qed
qed

lemma session_answers:
  assumes "call_held c w call r"
  shows "\<exists>s. session_call (NewSession ModeReplay (Some c)) live call w = Some (s, w) \<and> answers call r s"
proof -
  obtain ad req kvs e where k: "call = (ad, req)" "r = (Some (AdapterResp (GMap kvs)), e)" "held c ad req kvs (errstr e) w"
    using assms by (auto simp: call_held_def split: prod.splits)
  obtain lvs where "key_norm (GMap lvs) = key_norm (GMap kvs)"
    "Record_live (NewSession ModeReplay (Some c)) ad req (live (ad, req)) w
      = Some ((Some (RawResponse (a_ID ad) (Some lvs)), if errstr e = [] then None else Some (ErrNew (errstr e))), w)"
    by (rule Record_live_held[OF NewSession_sel k(3)])
  then show ?thesis by (auto simp: session_call_def answers_def k replayed_error_def)
qed

interpretation sess: recorded_calls "session_call (NewSession ModeRecord (Some c)) live"
  "session_call (NewSession ModeReplay (Some c)) live'" call_key "\<lambda>_. True"
  "\<lambda>w. store_ok c w \<and> (\<forall>call. spares c (live call)) \<and> responds live"
  "recordable c" "call_held c" answers
  for live live' :: "unary_call \<Rightarrow> (Response option \<times> goerr option, 'd) call" and c :: FileCassette
proof unfold_locales
  fix w w1 :: "'d world" and call d :: unary_call and r s :: "Response option \<times> goerr option"
  show "call_held c w call r \<Longrightarrow> \<exists>s. session_call (NewSession ModeReplay (Some c)) live' call w = Some (s, w) \<and> answers call r s"
    by (rule session_answers)
  show "call_held c w call r \<Longrightarrow> call_key d = call_key call \<Longrightarrow> call_held c w d r"
    by (auto simp: call_held_def call_key_def held_def split: prod.splits)
  assume A: "store_ok c w \<and> (\<forall>call. spares c (live call)) \<and> responds live"
    "recordable c w call r" "session_call (NewSession ModeRecord (Some c)) live call w = Some (r, w1)"
  have "store_ok c w" "spares c (live call)" "responds live"
    using A(1) by blast+
  note rec = session_recorded[OF this(1,2) A(2) this(3) A(3)]
  show "(store_ok c w1 \<and> (\<forall>call. spares c (live call)) \<and> responds live) \<and> call_held c w1 call r"
    using A(1) rec(1,2) store_ok_cong by blast
  show "recordable c w1 = recordable c w" by (rule recordable_cong[OF rec(1)])
  show "call_key d \<noteq> call_key call \<Longrightarrow> call_held c w d s \<Longrightarrow> call_held c w1 d s" by (rule rec(3))
qed

text \<open>C3: A recorded run is a table. An application made a run of recordable calls through a
  recording session, of any adapters and with repetitions. A session that replays the same
  directory answers every later run made of calls with recorded adapters and fingerprints, in any
  order and number: each is answered with the fields of the response of the last recorded call
  with its adapter and fingerprint, in any order of the fields, and an error of the same text. No
  live operation is run, not even one that panics, and the world is left as it was.\<close>

theorem session_run_replays:
  assumes "store_ok c w" "\<And>call. spares c (live call)" "responds live"
    and "run_all (session_call (NewSession ModeRecord (Some c)) live) calls w = Some (outs, w2)"
    and "list_all2 (recordable c w) calls outs" "list_all (\<lambda>call. call_key call \<in> call_key ` set calls) again"
  shows "\<exists>outs2. run_all (session_call (NewSession ModeReplay (Some c)) live') again w2 = Some (outs2, w2)
    \<and> list_all2 (\<lambda>call. answers call (last_outcome call_key calls outs call)) again outs2"
proof -
  obtain outs2 where "run_all (session_call (NewSession ModeReplay (Some c)) live') again w2 = Some (outs2, w2)"
    "list_all2 (\<lambda>call. answers call (last_outcome call_key calls outs call)) again outs2"
    by (rule sess.run_answers[OF assms(4) _ assms(5), of again live']) (use assms in simp_all)
  then show ?thesis by blast
qed

lemma tree_session_call:
  assumes "same_but_files tree_world w" "live call w = Some ((Some (AdapterResp (GMap kvs)), e), w)"
    and "a_Fingerprint (fst call) (snd call) = Inr fp" "a_fields (fst call) (snd call) = GMap qvs"
    and "json_ok (GMap qvs)" "json_ok (GMap kvs)"
  obtains w2 where "session_call (NewSession ModeRecord (Some c)) live call w = Some ((Some (AdapterResp (GMap kvs)), e), w2)"
    "same_but_files tree_world w2"
proof -
  obtain w2 where sv: "Save c (a_ID (fst call)) fp (Some (GMap qvs)) (Some (GMap kvs)) e w = (None, w2)"
    using tree_saves[OF assms(1), of "Some (GMap qvs)" "Some (GMap kvs)"] assms(5,6)
    by (simp add: normalizePayload_def) (metis prod.collapse)
  show thesis
  proof (rule that)
    show "session_call (NewSession ModeRecord (Some c)) live call w = Some ((Some (AdapterResp (GMap kvs)), e), w2)"
      using sv assms(2-4) by (simp add: session_call_def Record_live_def Record_def session_record_def mode_defs)
    show "same_but_files tree_world w2"
      using assms(1) Save_other(1)[OF sv] by (rule same_but_files_trans)
  qed
qed

definition sample_exec_call :: unary_call where
  "sample_exec_call = (exec_adapter, ExecRequest \<lparr>er_Argv = Some [''x''], er_Stdin = [], er_Cwd = [], er_Env = []\<rparr>)"

definition sample_redis_call :: unary_call where
  "sample_redis_call = (redis_adapter ascii_tables, RedisRequest \<lparr>rr_Command = ''GET'', rr_Args = []\<rparr>)"

definition sample_result :: "unary_call \<Rightarrow> Response option \<times> goerr option" where
  "sample_result call =
     (if a_ID (fst call) = ''exec''
      then (Some (AdapterResp (exec_response_fields \<lparr>ep_Stdout = ''x'', ep_Stderr = [], ep_ExitCode = 3, ep_DurationMs = 0\<rparr>)),
            Some (ErrNew ''exit status 3''))
      else (Some (AdapterResp (redis_response_fields \<lparr>rd_Result = GInt 7\<rparr>)), None))"

lemma untouched_redis_samples:
  "untouched (NewFileCassette d) tree_world (GMap [(''command'', GStr ''GET'')])"
  "untouched (NewFileCassette d) tree_world (GMap [(''result'', GInt 7)])"
proof -
  have p: "printable ''command''" by (simp add: printable_def)
  have "normalizeKey ascii_tables ''command'' = ''COMMAND''" unfolding p[THEN normalizeKey_printable] by code_simp
  then have "IsSecretKey default_redactor ''command'' = False" by (simp add: not_secret_simps)
  moreover have "IsSecretValue default_redactor ''GET'' = False" by code_simp
  ultimately have "RedactField default_redactor ''command'' ''GET'' = (''GET'', False)" by (simp add: RedactField_def)
  then show "untouched (NewFileCassette d) tree_world (GMap [(''command'', GStr ''GET'')])"
    "untouched (NewFileCassette d) tree_world (GMap [(''result'', GInt 7)])"
    by (simp_all add: untouched_def tree_redactor) (simp_all add: tree_redact_simps)
qed

lemma sample_keys:
  obtains fp1 fp2 where "a_Fingerprint (fst sample_exec_call) (snd sample_exec_call) = Inr fp1" "key_ok (''exec'', fp1)"
    "a_Fingerprint (fst sample_redis_call) (snd sample_redis_call) = Inr fp2" "key_ok (''redis'', fp2)"
proof -
  have "exec_ok \<lparr>er_Argv = Some [''x''], er_Stdin = [], er_Cwd = [], er_Env = []\<rparr>" by (simp add: exec_ok_def field_names)
  moreover have "redis_ok ascii_tables \<lparr>rr_Command = ''GET'', rr_Args = []\<rparr>" by code_simp
  ultimately show thesis
    using that exec.fp_total redis.fp_total unfolding sample_exec_call_def sample_redis_call_def
    by (fastforce simp: key_ok_def field_names)
qed

theorem session_run_replays_witness:
  "\<exists>w2 outs2. run_all (session_call (NewSession ModeRecord (Some (NewFileCassette ''d''))) (\<lambda>call w. Some (sample_result call, w)))
         [sample_exec_call, sample_redis_call] tree_world
       = Some ([sample_result sample_exec_call, sample_result sample_redis_call], w2)
     \<and> run_all (session_call (NewSession ModeReplay (Some (NewFileCassette ''d''))) (\<lambda>_ _. None))
         [sample_redis_call, sample_exec_call, sample_redis_call] w2 = Some (outs2, w2)
     \<and> list_all2 (\<lambda>call. answers call (sample_result call)) [sample_redis_call, sample_exec_call, sample_redis_call] outs2"
proof -
  let ?c = "NewFileCassette ''d''" and ?live = "\<lambda>call w. Some (sample_result call, w :: ynode world)"
  let ?rec = "session_call (NewSession ModeRecord (Some ?c)) ?live"
  let ?q1 = "[(''argv'', GList [GStr ''x''])]" and ?p1 = "[(''stdout'', GStr ''x''), (''exit_code'', GInt 3)]"
  let ?q2 = "[(''command'', GStr ''GET'')]" and ?p2 = "[(''result'', GInt 7)]"
  obtain fp1 fp2 where fp: "a_Fingerprint (fst sample_exec_call) (snd sample_exec_call) = Inr fp1" "key_ok (''exec'', fp1)"
    "a_Fingerprint (fst sample_redis_call) (snd sample_redis_call) = Inr fp2" "key_ok (''redis'', fp2)"
    by (rule sample_keys)
  have flds: "a_fields (fst sample_exec_call) (snd sample_exec_call) = GMap ?q1"
    "a_fields (fst sample_redis_call) (snd sample_redis_call) = GMap ?q2"
    by (simp_all add: sample_exec_call_def sample_redis_call_def yaml_strs_def)
  have res: "sample_result sample_exec_call = (Some (AdapterResp (GMap ?p1)), Some (ErrNew ''exit status 3''))"
    "sample_result sample_redis_call = (Some (AdapterResp (GMap ?p2)), None)"
    by (simp_all add: sample_result_def sample_exec_call_def sample_redis_call_def exec_response_fields_def redis_response_fields_def)
  obtain w1 where w1: "?rec sample_exec_call tree_world = Some (sample_result sample_exec_call, w1)" "same_but_files tree_world w1"
    by (rule tree_session_call[OF same_but_files_refl, of ?live sample_exec_call ?p1 _ fp1 ?q1 ?c]) (simp_all add: res fp flds)
  obtain w2 where w2: "?rec sample_redis_call w1 = Some (sample_result sample_redis_call, w2)"
    by (rule tree_session_call[OF w1(2), of ?live sample_redis_call ?p2 _ fp2 ?q2 ?c]) (simp_all add: res fp flds)
  have r: "run_all ?rec [sample_exec_call, sample_redis_call] tree_world
      = Some ([sample_result sample_exec_call, sample_result sample_redis_call], w2)"
    by (simp add: w1(1) w2)
  have ids: "a_ID (fst sample_exec_call) = ''exec''" "a_ID (fst sample_redis_call) = ''redis''"
    by (simp_all add: sample_exec_call_def sample_redis_call_def)
  have "recordable ?c tree_world sample_exec_call (sample_result sample_exec_call)"
    unfolding res by (rule recordableI[OF fp(1) _ flds(1)]) (simp_all add: ids fp untouched_exec_samples save_error_def field_names)
  moreover have "recordable ?c tree_world sample_redis_call (sample_result sample_redis_call)"
    unfolding res by (rule recordableI[OF fp(3) _ flds(2)]) (simp_all add: ids fp untouched_redis_samples save_error_def field_names)
  ultimately have ok: "list_all2 (recordable ?c tree_world) [sample_exec_call, sample_redis_call]
      [sample_result sample_exec_call, sample_result sample_redis_call]" by simp
  have sp: "spares ?c (?live call)" for call by (simp add: spares_def)
  have rs: "responds ?live" by (auto simp: responds_def sample_result_def)
  have again: "list_all (\<lambda>call. call_key call \<in> call_key ` set [sample_exec_call, sample_redis_call])
      [sample_redis_call, sample_exec_call, sample_redis_call]" by simp
  have last: "last_outcome call_key [sample_exec_call, sample_redis_call] [o1, o2] sample_exec_call = o1"
    "last_outcome call_key [sample_exec_call, sample_redis_call] [o1, o2] sample_redis_call = o2"
    for o1 o2 :: "Response option \<times> goerr option"
    by (simp_all add: last_outcome_def call_key_def sample_exec_call_def sample_redis_call_def)
  from session_run_replays[OF tree_world_ok sp rs r ok again, of "\<lambda>_ _. None"] r show ?thesis
    by (auto simp: list_all2_Cons1 last)
qed

end
