(* ===== verification/Fakecli.thy ===== *)
theory Fakecli
  imports Cli_Names Session_Runs
begin

section \<open>The stand-in for commands and suites (cmd/xrr/testdata/fakecli)\<close>

text \<open>
  One program that plays, by the name it was started under, a command that is shimmed or the suite
  that starts it. It is written here as a \<^typ>\<open>('c, 'v, 'x) client\<close> of the operating system:
  it asks for commands to be run and ends with what it wrote and its exit code. Messages name
  their arguments without the quoting of \<^verbatim>\<open>%q\<close>.
\<close>

subsection \<open>The program\<close>

text \<open>A command to run, and what \<^verbatim>\<open>cmd.Output\<close> gives: the output, and the exit code or
  another error.\<close>

record fake_cmd =
  fc_Env :: "string list option"
  fc_Bin :: string
  fc_Args :: "string list"

datatype ran =
    Exited string int
  | Failed string goerr

record fake_end =
  fe_Stdout :: string
  fe_Stderr :: string
  fe_Code :: int

type_synonym fake_client = "(fake_cmd, ran, fake_end) client"

abbreviation newline :: string where "newline \<equiv> [CHR 0x0A]"

abbreviation printed :: "string \<Rightarrow> int \<Rightarrow> fake_client" where
  "printed out code \<equiv> Return \<lparr>fe_Stdout = out, fe_Stderr = [], fe_Code = code\<rparr>"

text \<open>What \<^verbatim>\<open>call\<close> prints of a command that was run.\<close>

definition fake_call :: "string \<Rightarrow> string list \<Rightarrow> ran \<Rightarrow> string" where
  "fake_call bin args r =
     (case r of
        Exited out rc \<Rightarrow> out @ hd args @ '' rc='' @ show_int rc @ newline
      | Failed out e \<Rightarrow> bin @ '': '' @ err_text e @ newline @ out @ hd args @ '' rc='' @ show_int 100 @ newline)"

definition fake_ask :: "string list option \<Rightarrow> string \<Rightarrow> string list \<Rightarrow> (string \<Rightarrow> fake_client) \<Rightarrow> fake_client" where
  "fake_ask env bin args k = Ask \<lparr>fc_Env = env, fc_Bin = bin, fc_Args = args\<rparr> (\<lambda>r. k (fake_call bin args r))"

definition fake_suite :: "(string \<Rightarrow> string res) \<Rightarrow> (string \<Rightarrow> string) \<Rightarrow> string list \<Rightarrow> fake_client" where
  "fake_suite lookPath getenv args0 =
     (let (az, args) = (if args0 \<noteq> [] \<and> prefix ''bin='' (hd args0) then (drop 4 (hd args0), tl args0) else (''az'', args0))
      in if args \<noteq> [] \<and> hd args = ''noenv'' then
           (case lookPath az of
              Inl e \<Rightarrow> printed (''lookpath: '' @ err_text e @ newline) 1
            | Inr bin \<Rightarrow>
                let sr = getenv ''SystemRoot''
                in fake_ask (Some (if sr \<noteq> [] then [''SystemRoot='' @ sr] else [])) bin [''account'', ''show''] (\<lambda>out. printed out 0))
         else if args \<noteq> [] \<and> hd args = ''rundir'' then printed (''XRR_RUN_DIR='' @ getenv ''XRR_RUN_DIR'' @ newline) 0
         else fake_ask None az [''account'', ''show''] (\<lambda>out1.
              fake_ask None az [''fail''] (\<lambda>out2.
              if args \<noteq> [] \<and> hd args = ''deny''
              then fake_ask None ''open'' [''x''] (\<lambda>out3. printed (out1 @ out2 @ out3) 0)
              else printed (out1 @ out2) 0)))"

definition fake_name :: "unicode \<Rightarrow> string \<Rightarrow> string" where
  "fake_name U arg0 =
     (let name = to_lower U (path_Base arg0)
      in case find (\<lambda>e. suffix e name) [''.exe'', ''.cmd'', ''.com'', ''.bat''] of
           Some e \<Rightarrow> trim_suffix e name
         | None \<Rightarrow> name)"

definition fake_main :: "unicode \<Rightarrow> (string \<Rightarrow> string res) \<Rightarrow> (string \<Rightarrow> string) \<Rightarrow> string \<Rightarrow> string list \<Rightarrow> fake_client" where
  "fake_main U lookPath getenv arg0 args =
     (let name = fake_name U arg0
      in if name = ''az''
         then Return \<lparr>fe_Stdout = ''az:'' @ join_with '' '' args @ newline, fe_Stderr = ''az-err'' @ newline,
                      fe_Code = (if args \<noteq> [] \<and> hd args = ''fail'' then 3 else 0)\<rparr>
         else if name = ''true'' then printed [] 0
         else if name = ''suite'' then fake_suite lookPath getenv args
         else Return \<lparr>fe_Stdout = [], fe_Stderr = ''fakecli: unknown name '' @ name @ newline, fe_Code = 99\<rparr>)"

text \<open>A command that only prints, as the answer it gives.\<close>

definition fake_run :: "unicode \<Rightarrow> fake_cmd \<Rightarrow> ran" where
  "fake_run U cmd =
     (case fake_main U (\<lambda>_. Inl ErrEOF) (\<lambda>_. []) (fc_Bin cmd) (fc_Args cmd) of
        Return e \<Rightarrow> Exited (fe_Stdout e) (fe_Code e)
      | Ask _ _ \<Rightarrow> Failed [] ErrEOF)"

text \<open>The suite against the command itself prints what the tests of the port expect.\<close>

lemma fake_suite_prints:
  "map_option (\<lambda>((e, tr), _). (fe_Stdout e, fe_Code e, map (fc_Args \<circ> fst) tr))
     (run_client id (\<lambda>cmd _. Some (fake_run ascii_tables cmd, ())) (fake_main ascii_tables lookPath getenv ''suite'' []) ())
   = Some (''az:account show'' @ newline @ ''account rc=0'' @ newline @ ''az:fail'' @ newline @ ''fail rc=3'' @ newline,
           0, [[''account'', ''show''], [''fail'']])"
  by code_simp

end
