(* ===== verification/Cli_Suite.thy ===== *)
theory Cli_Suite
  imports Cli_Shim Fakecli
begin

section \<open>A test suite under shims (cmd/xrr)\<close>

text \<open>
  The child of a run is a program, say a test suite, that starts shimmed commands: each start is a
  process of its own that shares nothing with the others but the cassette directory and the call
  log. This theory composes the shim calls of such a program. A program is a \<^typ>\<open>('c, 'v, 'x) client\<close>
  that may choose its next command by the outputs and exit codes of the earlier ones. The main
  result is that a program recorded under shims runs the same when it is replayed.
\<close>

subsection \<open>Shim processes\<close>

text \<open>A start of a shim: the name of the shim file, the arguments, what is on standard input.\<close>

record shim_call =
  sl_File :: string
  sl_Args :: "string list"
  sl_Input :: string

record shim_answer =
  an_Code :: int
  an_Stdout :: string
  an_Stderr :: string
  an_Calls :: "callEntry list"
  an_Execs :: "exec_call list"

definition fresh_process :: "'d world \<Rightarrow> 'd shim_state" where
  "fresh_process w = \<lparr>ss_world = w, ss_stdout = [], ss_stderr = [], ss_calls = [], ss_execs = []\<rparr>"

definition shim_process ::
  "unicode \<Rightarrow> (ynode \<Rightarrow> exec_Response res) \<Rightarrow> runConfig \<Rightarrow> (string \<Rightarrow> string) \<Rightarrow> (shim_call \<Rightarrow> host)
   \<Rightarrow> shim_call \<Rightarrow> 'd world \<Rightarrow> (shim_answer \<times> 'd world) option" where
  "shim_process U dec cfg getenv H c w =
     (case shimMain U dec (Inr cfg) getenv (H c) (sl_File c) (sl_Args c) (fresh_process w) of (code, st) \<Rightarrow>
        Some (\<lparr>an_Code = code, an_Stdout = ss_stdout st, an_Stderr = ss_stderr st, an_Calls = ss_calls st, an_Execs = ss_execs st\<rparr>,
              ss_world st))"

abbreviation record_cfg :: "runConfig \<Rightarrow> runConfig" where
  "record_cfg cfg \<equiv> cfg\<lparr>cf_Mode := ModeRecord\<rparr>"

abbreviation replay_cfg :: "runConfig \<Rightarrow> runConfig" where
  "replay_cfg cfg \<equiv> cfg\<lparr>cf_Mode := ModeReplay\<rparr>"

text \<open>
  The hosts of the processes of a run: one system and environment, a log that can be written.
  While recording a binary that is found can be started and reads its whole input; while replaying
  the input arrives in time.
\<close>

definition recording_hosts :: "string \<Rightarrow> string list \<Rightarrow> (shim_call \<Rightarrow> host) \<Rightarrow> bool" where
  "recording_hosts os env H \<longleftrightarrow> (\<forall>c. h_os (H c) = os \<and> h_environ (H c) = env \<and> h_log (H c) = None \<and> h_pipe (H c) = None
     \<and> in_int64 (h_durationMs (H c)) \<and> (\<forall>x. \<exists>p. h_start (H c) x = Inr p \<and> pr_fed p = sl_Input c))"

definition replaying_hosts :: "string \<Rightarrow> string list \<Rightarrow> (shim_call \<Rightarrow> host) \<Rightarrow> bool" where
  "replaying_hosts os env K \<longleftrightarrow> (\<forall>c. h_os (K c) = os \<and> h_environ (K c) = env \<and> h_log (K c) = None
     \<and> readStdinIdle (K c) = sl_Input c)"

text \<open>What the shims of a run have in common: the secrets they scrub, the name each serves and the
  request it is filed under.\<close>

definition run_secrets :: "unicode \<Rightarrow> runConfig \<Rightarrow> (string \<Rightarrow> string) \<Rightarrow> string list \<Rightarrow> envSecrets" where
  "run_secrets U cfg getenv env =
     collectEnvSecrets (NewRedactor U (RedactConfigFromEnv U getenv)) env (cf_ScrubDeny cfg) (cf_ScrubAllow cfg)"

definition served_name :: "unicode \<Rightarrow> runConfig \<Rightarrow> string \<Rightarrow> shim_call \<Rightarrow> string" where
  "served_name U cfg os c = cassetteName U (cmdFor U (cf_Cmds cfg) (sl_File c) os)"

definition suite_request :: "unicode \<Rightarrow> runConfig \<Rightarrow> string \<Rightarrow> shim_call \<Rightarrow> exec_Request" where
  "suite_request U cfg os c =
     \<lparr>er_Argv = Some (served_name U cfg os c # sl_Args c), er_Stdin = sl_Input c, er_Cwd = [], er_Env = []\<rparr>"

definition suite_key :: "unicode \<Rightarrow> runConfig \<Rightarrow> string \<Rightarrow> shim_call \<Rightarrow> string res" where
  "suite_key U cfg os c = exec_Fingerprint (ExecRequest (suite_request U cfg os c))"

definition suite_fit :: "unicode \<Rightarrow> runConfig \<Rightarrow> string \<Rightarrow> shim_call \<Rightarrow> bool" where
  "suite_fit U cfg os c \<longleftrightarrow> \<not> inNames U (cf_Deny cfg) (served_name U cfg os c)"

definition run_cassette :: "runConfig \<Rightarrow> FileCassette" where
  "run_cassette cfg = NewFileCassette (cf_CassetteDir cfg)"

text \<open>A call that was recorded, with payloads that the encoder can write and the cassette redactor
  leaves alone.\<close>

definition suite_recorded ::
  "unicode \<Rightarrow> runConfig \<Rightarrow> (string \<Rightarrow> string) \<Rightarrow> string \<Rightarrow> (shim_call \<Rightarrow> host) \<Rightarrow> 'd world \<Rightarrow> shim_call \<Rightarrow> shim_answer \<Rightarrow> bool" where
  "suite_recorded U cfg getenv os H w c a \<longleftrightarrow>
     (let s = new_shim U (record_cfg cfg) getenv (H c) (sl_File c) (sl_Args c);
          q = exec_fields (saved_request s (H c) (sl_Input c));
          p = exec_response_fields (saved_response s (H c) (an_Stdout a) (an_Stderr a) (an_Code a))
      in map ce_Outcome (an_Calls a) = [outRecorded] \<and> 0 \<le> an_Code a \<and> in_int64 (an_Code a)
         \<and> exec_ok (suite_request U cfg os c)
         \<and> plain q \<and> untouched (run_cassette cfg) w q \<and> plain p \<and> untouched (run_cassette cfg) w p)"

text \<open>The cassette of a call holds its scrubbed outcome.\<close>

definition suite_holds ::
  "unicode \<Rightarrow> (ynode \<Rightarrow> exec_Response res) \<Rightarrow> runConfig \<Rightarrow> string \<Rightarrow> envSecrets \<Rightarrow> 'd world \<Rightarrow> shim_call \<Rightarrow> shim_answer \<Rightarrow> bool" where
  "suite_holds U dec cfg os E w c a \<longleftrightarrow> suite_fit U cfg os c \<and> 0 \<le> an_Code a \<and>
     (\<exists>fp q resp txt. suite_key U cfg os c = Inr fp \<and> key_ok (''exec'', fp)
       \<and> Load_as (y_map (w_yaml w)) dec (run_cassette cfg) ''exec'' fp w = Inr (q, resp, if an_Code a = 0 then [] else txt)
       \<and> ep_Stdout resp = env_scrub E (an_Stdout a) \<and> ep_Stderr resp = env_scrub E (an_Stderr a)
       \<and> ep_ExitCode resp = an_Code a)"

text \<open>How a replayed answer relates to the recorded one.\<close>

definition replays_answer :: "envSecrets \<Rightarrow> shim_answer \<Rightarrow> shim_answer \<Rightarrow> bool" where
  "replays_answer E a b \<longleftrightarrow> an_Code b = an_Code a \<and> an_Stdout b = env_scrub E (an_Stdout a)
     \<and> an_Stderr b = env_scrub E (an_Stderr a) \<and> an_Execs b = [] \<and> map ce_Outcome (an_Calls b) = [outReplayed]"

subsection \<open>One process\<close>

lemma new_shim_fields:
  assumes "h_os h = os" "h_environ h = env" "cf_Cmds cfg' = cf_Cmds cfg" "cf_ScrubDeny cfg' = cf_ScrubDeny cfg"
    "cf_ScrubAllow cfg' = cf_ScrubAllow cfg"
  shows "sh_cfg (new_shim U cfg' getenv h (sl_File c) (sl_Args c)) = cfg'"
    "sh_name (new_shim U cfg' getenv h (sl_File c) (sl_Args c)) = served_name U cfg os c"
    "sh_env (new_shim U cfg' getenv h (sl_File c) (sl_Args c)) = run_secrets U cfg getenv env"
    "live_request (new_shim U cfg' getenv h (sl_File c) (sl_Args c)) (sl_Input c) = suite_request U cfg os c"
  using assms by (simp_all add: new_shim_def served_name_def run_secrets_def live_request_def shim_argv_def suite_request_def Let_def)

lemma execReal_starts:
  assumes "h_pipe h = None" "\<And>x. \<exists>p. h_start h x = Inr p \<and> pr_fed p = inp"
  obtains "execReal U s h src tee (fresh_process w) = ((exitNotFound, Some errNotFound, None), fresh_process w)"
  | p st1 where "execReal U s h src tee (fresh_process w) = ((shim_wait (pr_wait p), None, Some p), st1)"
    "pr_fed p = inp" "ss_stdout st1 = pr_stdout p" "ss_stderr st1 = pr_stderr p"
proof (cases "lookPathIn (h_runnable h) (sh_bin s) (cf_RealPath (sh_cfg s)) (h_os h) (h_pathext h)")
  case None
  then show thesis by (intro that(1)) (simp add: execReal_def)
next
  case (Some path)
  let ?x = "\<lparr>x_path = path, x_args = sh_bin s # sh_args s,
      x_env = withEnvOS U (h_environ h) ''PATH'' (cf_RealPath (sh_cfg s)) (h_os h),
      x_stdin = (if src = StdinFile \<and> tee then StdinPump [] else src)\<rparr>"
  obtain p where "h_start h ?x = Inr p" "pr_fed p = inp" using assms(2) by blast
  then show thesis
    using Some assms(1) that(2)[of p "snd (execReal U s h src tee (fresh_process w))"]
    by (simp add: execReal_def Let_def fresh_process_def)
qed

lemma recorded_process:
  assumes H: "recording_hosts os env H" and run: "shim_process U dec (record_cfg cfg) getenv H c w = Some (a, w2)"
    and a: "map ce_Outcome (an_Calls a) = [outRecorded]"
  obtains p st1 st2 where
    "execReal U (new_shim U (record_cfg cfg) getenv (H c) (sl_File c) (sl_Args c)) (H c) (stdinSource (H c)) True (fresh_process w)
      = ((an_Code a, None, Some p), st1)" "pr_fed p = sl_Input c"
    "shim_record U (new_shim U (record_cfg cfg) getenv (H c) (sl_File c) (sl_Args c)) (H c) (fresh_process w) = (an_Code a, st2)"
    "ce_Outcome (last (ss_calls st2)) = outRecorded" "ss_world st2 = w2"
    "an_Stdout a = pr_stdout p" "an_Stderr a = pr_stderr p" "suite_fit U cfg os c"
proof -
  let ?s = "new_shim U (record_cfg cfg) getenv (H c) (sl_File c) (sl_Args c)" and ?st = "fresh_process w"
  have h: "h_os (H c) = os" "h_environ (H c) = env" "h_log (H c) = None" "h_pipe (H c) = None"
    "\<And>x. \<exists>p. h_start (H c) x = Inr p \<and> pr_fed p = sl_Input c"
    using H by (auto simp: recording_hosts_def)
  note f = new_shim_fields[OF h(1,2), of "record_cfg cfg" cfg, simplified]
  obtain code st2 where r: "shim_run U dec ?s (H c) ?st = (code, st2)" by fastforce
  have sa: "an_Code a = code" "an_Stdout a = ss_stdout st2" "an_Stderr a = ss_stderr st2" "an_Calls a = ss_calls st2" "w2 = ss_world st2"
    using run r by (auto simp: shim_process_def shimMain_def)
  have fit: "suite_fit U cfg os c"
  proof (rule ccontr)
    assume "\<not> suite_fit U cfg os c"
    then have "map ce_Outcome (ss_calls st2) = [outDenied]"
      using r f h(3) by (auto simp: suite_fit_def shim_run_def shim_log_calls fresh_process_def)
    then show False using a sa(4) by (simp add: outcome_defs)
  qed
  then have rec: "shim_record U ?s (H c) ?st = (code, st2)"
    using r f by (simp add: shim_run_def suite_fit_def mode_defs)
  have last: "ce_Outcome (last (ss_calls st2)) = outRecorded"
    using a sa(4) by (cases "ss_calls st2") auto
  show thesis
  proof (rule execReal_starts[where U = U and s = ?s and src = "stdinSource (H c)" and tee = True and w = w, OF h(4,5)])
    assume "execReal U ?s (H c) (stdinSource (H c)) True ?st = ((exitNotFound, Some errNotFound, None), ?st)"
    then have "ce_Outcome (last (ss_calls st2)) = outError"
      using rec h(3) by (auto simp: shim_record_def notFound_def shim_log_calls)
    then show thesis using last by (simp add: outcome_defs)
  next
    fix p st1
    assume x: "execReal U ?s (H c) (stdinSource (H c)) True ?st = ((shim_wait (pr_wait p), None, Some p), st1)"
      "pr_fed p = sl_Input c" "ss_stdout st1 = pr_stdout p" "ss_stderr st1 = pr_stderr p"
    have "\<exists>fp. exec_Fingerprint (ExecRequest (live_request ?s (pr_fed p))) = Inr fp"
    proof (rule ccontr)
      assume "\<not> ?thesis"
      then obtain e where "exec_Fingerprint (ExecRequest (live_request ?s (pr_fed p))) = Inl e"
        by (cases "exec_Fingerprint (ExecRequest (live_request ?s (pr_fed p)))") auto
      then have "ce_Outcome (last (ss_calls st2)) = outError"
        using rec x(1) h(3) by (auto simp: shim_record_def errNotFound_def saveFailed_def shim_log_calls)
      then show False using last by (simp add: outcome_defs)
    qed
    then obtain fp where fp: "exec_Fingerprint (ExecRequest (live_request ?s (pr_fed p))) = Inr fp" by blast
    note saved = shim_record_saved[OF x(1) rec h(3) last fp]
    show thesis
      by (rule that[of p st1 st2]) (use x rec last fit sa saved in simp_all)
  qed
qed

lemma suite_recorded_step:
  assumes H: "recording_hosts os env H" and w: "store_ok (run_cassette cfg) w" "decodes_response (w_yaml w) dec"
    and ok: "suite_recorded U cfg getenv os H w c a"
    and run: "shim_process U dec (record_cfg cfg) getenv H c w = Some (a, w2)"
  shows "same_but_files w w2" "suite_holds U dec cfg os (run_secrets U cfg getenv env) w2 c a"
    "suite_key U cfg os d \<noteq> suite_key U cfg os c \<Longrightarrow> suite_holds U dec cfg os E w d b \<Longrightarrow> suite_holds U dec cfg os E w2 d b"
proof -
  let ?s = "new_shim U (record_cfg cfg) getenv (H c) (sl_File c) (sl_Args c)"
  let ?q = "exec_fields (saved_request ?s (H c) (sl_Input c))"
  let ?p = "exec_response_fields (saved_response ?s (H c) (an_Stdout a) (an_Stderr a) (an_Code a))"
  have o: "map ce_Outcome (an_Calls a) = [outRecorded]" "0 \<le> an_Code a" "in_int64 (an_Code a)" "exec_ok (suite_request U cfg os c)"
    "plain ?q" "untouched (run_cassette cfg) w ?q" "plain ?p" "untouched (run_cassette cfg) w ?p"
    using ok by (simp_all add: suite_recorded_def Let_def)
  have h: "h_os (H c) = os" "h_environ (H c) = env" "h_log (H c) = None" "in_int64 (h_durationMs (H c))"
    using H by (auto simp: recording_hosts_def)
  note f = new_shim_fields[OF h(1,2), of "record_cfg cfg" cfg, simplified]
  obtain p st1 st2 where x: "execReal U ?s (H c) (stdinSource (H c)) True (fresh_process w) = ((an_Code a, None, Some p), st1)"
    "pr_fed p = sl_Input c" "shim_record U ?s (H c) (fresh_process w) = (an_Code a, st2)"
    "ce_Outcome (last (ss_calls st2)) = outRecorded" "ss_world st2 = w2"
    "an_Stdout a = pr_stdout p" "an_Stderr a = pr_stderr p" "suite_fit U cfg os c"
    by (rule recorded_process[OF H run o(1)])
  have fw: "ss_world (fresh_process w) = w" by (simp add: fresh_process_def)
  have cas: "run_cassette cfg = NewFileCassette (cf_CassetteDir (sh_cfg ?s))" by (simp add: run_cassette_def f)
  obtain qvs where q: "?q = GMap qvs" by (simp add: exec_fields_def)
  have "store_ok (run_cassette cfg) (ss_world (fresh_process w))" "decodes_response (w_yaml (ss_world (fresh_process w))) dec"
    "exec_ok (live_request ?s (pr_fed p))" "exec_fields (saved_request ?s (H c) (pr_fed p)) = GMap qvs" "plain (GMap qvs)"
    "untouched (run_cassette cfg) (ss_world (fresh_process w)) (GMap qvs)"
    "exec_response_fields (saved_response ?s (H c) (pr_stdout p) (pr_stderr p) (an_Code a)) = ?p"
    "untouched (run_cassette cfg) (ss_world (fresh_process w)) ?p"
    using w o q x(2,6,7) f(4) by (simp_all add: fw)
  from shim_recorded_loads[OF x(1) o(3) h(4) cas this(1-7) o(7) this(8) x(3) h(3) x(4)]
  obtain fp q where fp: "exec_Fingerprint (ExecRequest (live_request ?s (pr_fed p))) = Inr fp" "key_ok (''exec'', fp)"
    and sv: "Save (run_cassette cfg) ''exec'' fp (Some (GMap qvs)) (Some ?p)
       (if an_Code a \<noteq> 0 then Some (ErrNew (''exit status '' @ show_int (an_Code a))) else None) w = (None, w2)"
    and load: "Load_as (y_map (w_yaml w2)) dec (run_cassette cfg) ''exec'' fp w2
       = Inr (q, saved_response ?s (H c) (pr_stdout p) (pr_stderr p) (an_Code a),
           if an_Code a = 0 then [] else ''exit status '' @ show_int (an_Code a))"
    unfolding fw x(5) by blast
  have key: "suite_key U cfg os c = Inr fp" using fp(1) f(4) x(2) by (simp add: suite_key_def)
  show "same_but_files w w2" by (rule Save_other(1)[OF sv])
  show "suite_holds U dec cfg os (run_secrets U cfg getenv env) w2 c a"
    using key fp(2) load x(6,7,8) o(2) f(3) unfolding suite_holds_def by (auto simp: saved_response_def)
  show "suite_holds U dec cfg os E w2 d b" if "suite_key U cfg os d \<noteq> suite_key U cfg os c" "suite_holds U dec cfg os E w d b"
  proof -
    have "Load_as (y_map (w_yaml w2)) dec (run_cassette cfg) ''exec'' fq w2 = Load_as (y_map (w_yaml w)) dec (run_cassette cfg) ''exec'' fq w"
      if "key_ok (''exec'', fq)" "fq \<noteq> fp" for fq
      using that fp(2) same_but_files_fields(1)[OF Save_other(1)[OF sv]]
      by (subst Load_cong[OF Save_other(1)[OF sv] Save_other(2)[OF sv]]) (auto simp: cassette_path_inj)
    then show ?thesis using that key unfolding suite_holds_def by metis
  qed
qed

lemma suite_recorded_cong: "same_but_files w w' \<Longrightarrow> suite_recorded U cfg getenv os H w' = suite_recorded U cfg getenv os H w"
  by (simp add: suite_recorded_def untouched_cong fun_eq_iff)

lemma suite_replays_step:
  assumes K: "replaying_hosts os env K" and held: "suite_holds U dec cfg os (run_secrets U cfg getenv env) w c a"
  shows "\<exists>b. shim_process U dec (replay_cfg cfg) getenv K c w = Some (b, w)
    \<and> replays_answer (run_secrets U cfg getenv env) a b"
proof -
  let ?s = "new_shim U (replay_cfg cfg) getenv (K c) (sl_File c) (sl_Args c)" and ?st = "fresh_process w"
  have k: "h_os (K c) = os" "h_environ (K c) = env" "h_log (K c) = None" "readStdinIdle (K c) = sl_Input c"
    using K by (auto simp: replaying_hosts_def)
  note f = new_shim_fields[OF k(1,2), of "replay_cfg cfg" cfg, simplified]
  obtain fp q resp e where h: "suite_fit U cfg os c" "0 \<le> an_Code a" "suite_key U cfg os c = Inr fp"
    "Load_as (y_map (w_yaml w)) dec (run_cassette cfg) ''exec'' fp w = Inr (q, resp, if an_Code a = 0 then [] else e)"
    "ep_Stdout resp = env_scrub (run_secrets U cfg getenv env) (an_Stdout a)"
    "ep_Stderr resp = env_scrub (run_secrets U cfg getenv env) (an_Stderr a)" "ep_ExitCode resp = an_Code a"
    using held by (auto simp: suite_holds_def)
  have "shim_replay U dec ?s (K c) ?st = (ep_ExitCode resp, shim_log ?s (K c) outReplayed fp (ep_ExitCode resp) []
     (?st\<lparr>ss_stdout := ss_stdout ?st @ ep_Stdout resp, ss_stderr := ss_stderr ?st @ ep_Stderr resp\<rparr>))"
    by (rule shim_replay_hit[where fp = fp and q = q and e = e])
      (use h f k in \<open>simp_all add: suite_key_def run_cassette_def fresh_process_def\<close>)
  then show ?thesis
    using h f k by (simp add: shim_process_def shimMain_def shim_run_def suite_fit_def mode_defs shim_log_calls shim_log_stderr
        replays_answer_def fresh_process_def)
qed

lemma replayed_calls_fine:
  assumes "list_all2 (\<lambda>(c, a) (d, b). d = c \<and> replays_answer E a b) tr tr2"
  shows "\<forall>(d, b) \<in> set tr2. an_Execs b = [] \<and> \<not> anyFailing (an_Calls b)"
proof -
  have "an_Execs b = [] \<and> \<not> anyFailing (an_Calls b)" if "replays_answer E a b" for a b
    using that by (auto simp: replays_answer_def anyFailing_def failing_def outcome_defs)
  with assms show ?thesis by (induction rule: list_all2_induct) auto
qed

subsection \<open>A program under shims\<close>

interpretation suite: recorded_calls "shim_process U dec (record_cfg cfg) getenv H" "shim_process U dec (replay_cfg cfg) getenv K"
  "suite_key U cfg os" "suite_fit U cfg os"
  "\<lambda>w. recording_hosts os env H \<and> replaying_hosts os env K \<and> store_ok (run_cassette cfg) w \<and> decodes_response (w_yaml w) dec"
  "suite_recorded U cfg getenv os H"
  "\<lambda>w c a. replaying_hosts os env K \<and> suite_holds U dec cfg os (run_secrets U cfg getenv env) w c a"
  "\<lambda>_. replays_answer (run_secrets U cfg getenv env)"
  for U dec cfg getenv H K os env
proof unfold_locales
  fix w w1 :: "'b world" and c d :: shim_call and a b :: shim_answer
  let ?E = "run_secrets U cfg getenv env"
  show "replaying_hosts os env K \<and> suite_holds U dec cfg os ?E w c a \<Longrightarrow>
      \<exists>s. shim_process U dec (replay_cfg cfg) getenv K c w = Some (s, w) \<and> replays_answer ?E a s"
    by (blast intro: suite_replays_step)
  show "replaying_hosts os env K \<and> suite_holds U dec cfg os ?E w c a \<Longrightarrow> suite_fit U cfg os d
      \<Longrightarrow> suite_key U cfg os d = suite_key U cfg os c \<Longrightarrow> replaying_hosts os env K \<and> suite_holds U dec cfg os ?E w d a"
    by (auto simp: suite_holds_def)
  assume A: "recording_hosts os env H \<and> replaying_hosts os env K \<and> store_ok (run_cassette cfg) w \<and> decodes_response (w_yaml w) dec"
    "suite_recorded U cfg getenv os H w c a" "shim_process U dec (record_cfg cfg) getenv H c w = Some (a, w1)"
  then have "recording_hosts os env H" "replaying_hosts os env K" "store_ok (run_cassette cfg) w" "decodes_response (w_yaml w) dec"
    by blast+
  note step = suite_recorded_step[OF this(1,3,4) A(2,3)] and K = this(2)
  have "w_yaml w1 = w_yaml w" "store_ok (run_cassette cfg) w1 = store_ok (run_cassette cfg) w"
    using step(1) by (simp_all add: same_but_files_fields store_ok_cong)
  then show "(recording_hosts os env H \<and> replaying_hosts os env K \<and> store_ok (run_cassette cfg) w1 \<and> decodes_response (w_yaml w1) dec)
      \<and> replaying_hosts os env K \<and> suite_holds U dec cfg os ?E w1 c a"
    using A(1) step(2) by simp
  show "suite_recorded U cfg getenv os H w1 = suite_recorded U cfg getenv os H w"
    by (rule suite_recorded_cong[OF step(1)])
  show "suite_key U cfg os d \<noteq> suite_key U cfg os c \<Longrightarrow> replaying_hosts os env K \<and> suite_holds U dec cfg os ?E w d b
      \<Longrightarrow> replaying_hosts os env K \<and> suite_holds U dec cfg os ?E w1 d b"
    using step(3) by blast
qed


subsection \<open>The stand-in suite under shims\<close>

definition shim_call_of :: "unicode \<Rightarrow> string \<Rightarrow> fake_cmd \<Rightarrow> shim_call" where
  "shim_call_of U os cmd = \<lparr>sl_File = shimFileName U (path_Base (fc_Bin cmd)) os, sl_Args = fc_Args cmd, sl_Input = []\<rparr>"

definition ran_of :: "shim_answer \<Rightarrow> ran" where
  "ran_of a = Exited (an_Stdout a) (an_Code a)"

abbreviation shimmed :: "unicode \<Rightarrow> string \<Rightarrow> fake_client \<Rightarrow> (shim_call, ran, fake_end) client" where
  "shimmed U os \<equiv> map_client (shim_call_of U os) id"

definition fake_process :: "string \<Rightarrow> exec_call \<Rightarrow> process" where
  "fake_process inp x =
     (case fake_main ascii_tables (\<lambda>_. Inl ErrEOF) (\<lambda>_. []) (hd (x_args x)) (tl (x_args x)) of
        Return e \<Rightarrow> \<lparr>pr_wait = if fe_Code e = 0 then WaitOK else WaitExit (fe_Code e), pr_fed = inp, pr_stdout = fe_Stdout e, pr_stderr = fe_Stderr e\<rparr>
      | Ask _ _ \<Rightarrow> \<lparr>pr_wait = WaitOK, pr_fed = inp, pr_stdout = [], pr_stderr = []\<rparr>)"

definition suite_host :: "shim_call \<Rightarrow> host" where
  "suite_host c = shim_host\<lparr>h_runnable := (\<lambda>p. p = ''/bin/az''), h_input := [Chunk (sl_Input c), Closed],
     h_start := (\<lambda>x. Inr (fake_process (sl_Input c) x))\<rparr>"

text \<open>A host on which nothing can be found or started.\<close>

definition bare_host :: "shim_call \<Rightarrow> host" where
  "bare_host c = (suite_host c)\<lparr>h_runnable := (\<lambda>_. False), h_start := (\<lambda>_. Inl ErrEOF)\<rparr>"

definition suite_cfg :: runConfig where
  "suite_cfg = sample_cfg\<lparr>cf_Cmds := [(''az'', ''az'')]\<rparr>"

lemma sample_hosts: "recording_hosts ''linux'' [] suite_host" "replaying_hosts ''linux'' [] bare_host"
  by (auto simp: recording_hosts_def replaying_hosts_def suite_host_def bare_host_def shim_host_def readStdinIdle_def
      in_int64_def fake_process_def split: client.split)

abbreviation az_show :: shim_call where
  "az_show \<equiv> \<lparr>sl_File = ''az'', sl_Args = [''account'', ''show''], sl_Input = []\<rparr>"

abbreviation az_text :: string where "az_text \<equiv> ''az:account show'' @ newline"

lemma az_values:
  "IsSecretValue default_redactor ''az'' = False" "IsSecretValue default_redactor ''account'' = False"
  "IsSecretValue default_redactor ''show'' = False" "IsSecretValue default_redactor az_text = False"
  "IsSecretValue default_redactor (''az-err'' @ newline) = False"
  by code_simp+

lemma untouched_az:
  "untouched (NewFileCassette d) tree_world (GMap [(''argv'', GList [GStr ''az'', GStr ''account'', GStr ''show''])])"
  "untouched (NewFileCassette d) tree_world (GMap [(''stdout'', GStr az_text), (''stderr'', GStr (''az-err'' @ newline)), (''exit_code'', GInt i)])"
proof -
  have p: "printable ''stdout''" "printable ''stderr''" "printable ''argv''" by (simp_all add: printable_def)
  have "normalizeKey ascii_tables ''stdout'' = ''STDOUT''" "normalizeKey ascii_tables ''argv'' = ''ARGV''"
    "normalizeKey ascii_tables ''stderr'' = ''STDERR''"
    unfolding p[THEN normalizeKey_printable] by code_simp+
  then have "IsSecretKey default_redactor ''stdout'' = False" "IsSecretKey default_redactor ''argv'' = False"
    "IsSecretKey default_redactor ''stderr'' = False"
    by (simp_all add: not_secret_simps)
  then have "RedactField default_redactor ''argv'' ''az'' = (''az'', False)"
    "RedactField default_redactor ''argv'' ''account'' = (''account'', False)"
    "RedactField default_redactor ''argv'' ''show'' = (''show'', False)"
    "RedactField default_redactor ''stdout'' az_text = (az_text, False)"
    "RedactField default_redactor ''stderr'' (''az-err'' @ newline) = (''az-err'' @ newline, False)" by (simp_all add: RedactField_def az_values[simplified])
  then show "untouched (NewFileCassette d) tree_world (GMap [(''argv'', GList [GStr ''az'', GStr ''account'', GStr ''show''])])"
    "untouched (NewFileCassette d) tree_world (GMap [(''stdout'', GStr az_text), (''stderr'', GStr (''az-err'' @ newline)), (''exit_code'', GInt i)])"
    by (simp_all add: untouched_def tree_redactor) (simp_all add: tree_redact_simps)
qed

definition az_shim :: shim where
  "az_shim = new_shim ascii_tables (record_cfg suite_cfg) (\<lambda>_. []) (suite_host az_show) ''az'' [''account'', ''show'']"

lemma az_shim_fields:
  "sh_cfg az_shim = record_cfg suite_cfg" "sh_name az_shim = ''az''" "sh_bin az_shim = ''az''" "sh_args az_shim = [''account'', ''show'']"
  "sh_env az_shim = []" "sh_rd az_shim = default_redactor"
proof -
  have "cmdFor ascii_tables [(''az'', ''az'')] ''az'' ''linux'' = ''az''" "cassetteName ascii_tables ''az'' = ''az''" by code_simp+
  moreover have "NewRedactor ascii_tables (RedactConfigFromEnv ascii_tables (\<lambda>_. [])) = default_redactor"
  proof -
    have "trim_space [] = []" by code_simp
    then show ?thesis by (simp add: default_redactor_def RedactConfigFromEnv_def truthy_def to_lower_def is_ascii_def splitList_def)
  qed
  ultimately show "sh_cfg az_shim = record_cfg suite_cfg" "sh_name az_shim = ''az''" "sh_bin az_shim = ''az''"
    "sh_args az_shim = [''account'', ''show'']" "sh_env az_shim = []" "sh_rd az_shim = default_redactor"
    by (simp_all add: az_shim_def new_shim_def suite_cfg_def sample_cfg_def suite_host_def shim_host_def Let_def collectEnvSecrets_def List.map_filter_def)
qed

lemma az_fields:
  "exec_fields (saved_request az_shim (suite_host az_show) []) = GMap [(''argv'', GList [GStr ''az'', GStr ''account'', GStr ''show''])]"
  "exec_response_fields (saved_response az_shim (suite_host az_show) az_text (''az-err'' @ newline) 0)
   = GMap [(''stdout'', GStr az_text), (''stderr'', GStr (''az-err'' @ newline)), (''exit_code'', GInt 0)]"
proof -
  have "assignRe ''account'' = None" "assignRe ''show'' = None" by code_simp+
  then have "safeArgv az_shim = [''az'', ''account'', ''show'']"
    by (simp add: safeArgv_def az_shim_fields shim_argv_def scrubArgv_def scrubAll_def env_scrub_def az_values)
  then show "exec_fields (saved_request az_shim (suite_host az_show) []) = GMap [(''argv'', GList [GStr ''az'', GStr ''account'', GStr ''show''])]"
    by (simp add: exec_fields_def saved_request_def captureEnv_def az_shim_fields suite_cfg_def sample_cfg_def env_scrub_def yaml_strs_def)
qed (simp add: exec_response_fields_def saved_response_def az_shim_fields suite_host_def shim_host_def env_scrub_def)

lemma az_starts:
  "\<exists>st1. execReal ascii_tables az_shim (suite_host az_show) (stdinSource (suite_host az_show)) True (fresh_process tree_world)
     = ((0, None, Some \<lparr>pr_wait = WaitOK, pr_fed = [], pr_stdout = az_text, pr_stderr = ''az-err'' @ newline\<rparr>), st1)
     \<and> ss_stdout st1 = az_text \<and> ss_stderr st1 = ''az-err'' @ newline"
proof -
  have "lookPathIn (\<lambda>p. p = ''/bin/az'') ''az'' ''/bin'' ''linux'' [] = Some ''/bin/az''" by code_simp
  moreover have "fake_main ascii_tables (\<lambda>_. Inl ErrEOF) (\<lambda>_. []) ''az'' [''account'', ''show'']
      = Return \<lparr>fe_Stdout = az_text, fe_Stderr = ''az-err'' @ newline, fe_Code = 0\<rparr>"
  proof -
    have "fake_name ascii_tables ''az'' = ''az''" by code_simp
    then show ?thesis by (simp add: fake_main_def)
  qed
  ultimately show ?thesis
    by (simp add: execReal_def az_shim_fields suite_cfg_def sample_cfg_def suite_host_def shim_host_def stdinSource_def
        fake_process_def shim_wait_def exitCodeOf_def fresh_process_def Let_def)
qed

abbreviation az_process :: process where
  "az_process \<equiv> \<lparr>pr_wait = WaitOK, pr_fed = [], pr_stdout = az_text, pr_stderr = ''az-err'' @ newline\<rparr>"

lemma az_request: "suite_request ascii_tables suite_cfg ''linux'' az_show = \<lparr>er_Argv = Some [''az'', ''account'', ''show''], er_Stdin = [], er_Cwd = [], er_Env = []\<rparr>"
  by code_simp

lemma az_request_ok: "exec_ok (suite_request ascii_tables suite_cfg ''linux'' az_show)"
  by (simp add: az_request exec_ok_def field_names)

text \<open>The recorded call.\<close>

lemma az_recorded:
  obtains a w2 where "shim_process ascii_tables tree_dec (record_cfg suite_cfg) (\<lambda>_. []) suite_host az_show tree_world = Some (a, w2)"
    "an_Code a = 0" "an_Stdout a = az_text" "an_Stderr a = ''az-err'' @ newline" "map ce_Outcome (an_Calls a) = [outRecorded]"
proof -
  let ?h = "suite_host az_show" and ?c = "NewFileCassette (cf_CassetteDir suite_cfg)"
  obtain st1 where live: "execReal ascii_tables az_shim ?h (stdinSource ?h) True (fresh_process tree_world) = ((0, None, Some az_process), st1)"
    and out: "ss_stdout st1 = az_text" "ss_stderr st1 = ''az-err'' @ newline" using az_starts by blast
  have st1: "ss_world st1 = tree_world" "ss_calls st1 = []"
    using execReal_fields[of ascii_tables az_shim ?h "stdinSource ?h" True "fresh_process tree_world"] live
    by (simp_all add: fresh_process_def)
  have "live_request az_shim [] = suite_request ascii_tables suite_cfg ''linux'' az_show"
    by (simp add: az_request live_request_def shim_argv_def az_shim_fields)
  then obtain fp where fp: "exec_Fingerprint (ExecRequest (live_request az_shim [])) = Inr fp"
    using exec.fp_total az_request_ok by metis
  have "fst (Save ?c ''exec'' fp (Some (exec_fields (saved_request az_shim ?h [])))
      (Some (exec_response_fields (saved_response az_shim ?h az_text (''az-err'' @ newline) 0))) None tree_world) = None"
    unfolding az_fields by (rule tree_save) (simp_all add: normalizePayload_def)
  then obtain w2 where sv: "Save ?c ''exec'' fp (Some (exec_fields (saved_request az_shim ?h [])))
      (Some (exec_response_fields (saved_response az_shim ?h az_text (''az-err'' @ newline) 0))) None tree_world = (None, w2)"
    by (metis prod.collapse)
  have cfg: "h_log ?h = None" "cf_CassetteDir (record_cfg suite_cfg) = cf_CassetteDir suite_cfg"
    "\<not> inNames ascii_tables (cf_Deny (record_cfg suite_cfg)) ''az''"
    by code_simp+
  have "shim_run ascii_tables tree_dec az_shim ?h (fresh_process tree_world)
      = (0, shim_log az_shim ?h outRecorded fp 0 [] (st1\<lparr>ss_world := w2\<rparr>))"
    using live fp sv cfg by (simp add: shim_run_def mode_defs shim_record_def Let_def st1 az_shim_fields)
  then have "shim_process ascii_tables tree_dec (record_cfg suite_cfg) (\<lambda>_. []) suite_host az_show tree_world
      = Some (\<lparr>an_Code = 0, an_Stdout = az_text, an_Stderr = ''az-err'' @ newline,
           an_Calls = [\<lparr>ce_Cmd = ''az'', ce_Argv = safeArgv az_shim, ce_Outcome = outRecorded, ce_Fingerprint = fp, ce_ExitCode = 0, ce_Detail = []\<rparr>],
           an_Execs = ss_execs st1\<rparr>, w2)"
    using out st1 by (simp add: shim_process_def shimMain_def az_shim_def[symmetric] shim_log_calls[OF cfg(1)] shim_log_stderr[OF cfg(1)] az_shim_fields)
  then show thesis by (rule that) simp_all
qed

lemma az_suite_recorded:
  assumes "an_Code a = 0" "an_Stdout a = az_text" "an_Stderr a = ''az-err'' @ newline" "map ce_Outcome (an_Calls a) = [outRecorded]"
  shows "suite_recorded ascii_tables suite_cfg (\<lambda>_. []) ''linux'' suite_host tree_world az_show a"
proof -
  have p: "plain (GMap [(''argv'', GList [GStr ''az'', GStr ''account'', GStr ''show''])])"
    "plain (GMap [(''stdout'', GStr az_text), (''stderr'', GStr (''az-err'' @ newline)), (''exit_code'', GInt 0)])" by code_simp+
  show ?thesis
    using assms az_request_ok p untouched_az
    by (simp only: suite_recorded_def Let_def shim_call.simps az_shim_def[symmetric] az_fields) (simp add: in_int64_def run_cassette_def)
qed


end
