(* ===== verification/Examples.thy ===== *)
theory Examples
  imports Session_Runs
begin

section \<open>Adopting a session (examples: wrap\_command\_runner, wrap\_fs\_runner, env\_session)\<close>

text \<open>
  The three example programs show how an application adopts a session: its own interface is kept,
  a wrapper satisfies the interface and routes every call through the session, and callers never
  know. An interface is the datatype of its calls, an implementation a function on calls. A call
  returns its results with the next world, or \<^const>\<open>None\<close> when it panics.
\<close>

subsection \<open>Command runners (wrap\_command\_runner)\<close>

datatype RealCall = Run string "string list" | RunInDir string string "string list"

type_synonym 'd Real = "RealCall \<Rightarrow> (string \<times> goerr option, 'd) call"

text \<open>\<open>output\<close> starts the command in a directory (the current one when it is empty) and
  collects its standard output.\<close>

definition RealRunner :: "(string \<Rightarrow> string list \<Rightarrow> (string \<times> goerr option, 'd) call) \<Rightarrow> 'd Real" where
  "RealRunner output c =
     (case c of
        Run name args \<Rightarrow> output [] (name # args)
      | RunInDir dir name args \<Rightarrow> output dir (name # args))"

record 'd cmd_Wrapper =
  cw_inner :: "'d Real"
  cw_sess :: FileSession
  cw_adapter :: "Request adapter"

definition cmd_NewWrapper :: "'d Real \<Rightarrow> FileSession \<Rightarrow> 'd cmd_Wrapper" where
  "cmd_NewWrapper inner sess = \<lparr>cw_inner = inner, cw_sess = sess, cw_adapter = exec_adapter\<rparr>"

definition stdoutOf :: "Response option \<Rightarrow> string" where
  "stdoutOf resp =
     (case resp of
        None \<Rightarrow> []
      | Some (AdapterResp g) \<Rightarrow> (case g_field g ''stdout'' of Some (GStr s) \<Rightarrow> s | _ \<Rightarrow> [])
      | Some (RawResponse a payload) \<Rightarrow>
          (case payload of
             None \<Rightarrow> []
           | Some kvs \<Rightarrow> (case map_of kvs ''stdout'' of Some (GStr s) \<Rightarrow> s | _ \<Rightarrow> [])))"

text \<open>What the closure handed to the session makes of the inner call.\<close>

definition run_response :: "string \<Rightarrow> goerr option \<Rightarrow> exec_Response" where
  "run_response out e = \<lparr>ep_Stdout = out, ep_Stderr = [], ep_ExitCode = ExitCodeFromError e, ep_DurationMs = 0\<rparr>"

definition run_live :: "(string \<times> goerr option, 'd) call \<Rightarrow> (Response option \<times> goerr option, 'd) call" where
  "run_live run w =
     (case run w of
        None \<Rightarrow> None
      | Some ((out, e), w1) \<Rightarrow> Some ((Some (AdapterResp (exec_response_fields (run_response out e))), e), w1))"

definition Wrapper_Run :: "'d cmd_Wrapper \<Rightarrow> string \<Rightarrow> string list \<Rightarrow> (string \<times> goerr option, 'd) call" where
  "Wrapper_Run cw name args w =
     (let req = \<lparr>er_Argv = Some ([name] @ args), er_Stdin = [], er_Cwd = [], er_Env = []\<rparr>
      in map_option (\<lambda>((resp, err), w1). ((stdoutOf resp, err), w1))
           (Record_live (cw_sess cw) (cw_adapter cw) (ExecRequest req) (run_live (cw_inner cw (Run name args))) w))"

definition Wrapper_RunInDir :: "'d cmd_Wrapper \<Rightarrow> string \<Rightarrow> string \<Rightarrow> string list \<Rightarrow> (string \<times> goerr option, 'd) call" where
  "Wrapper_RunInDir cw dir name args w =
     (let req = \<lparr>er_Argv = Some ([name] @ args), er_Stdin = [], er_Cwd = dir, er_Env = []\<rparr>
      in map_option (\<lambda>((resp, err), w1). ((stdoutOf resp, err), w1))
           (Record_live (cw_sess cw) (cw_adapter cw) (ExecRequest req) (run_live (cw_inner cw (RunInDir dir name args))) w))"

text \<open>The wrapper satisfies the interface it wraps.\<close>

definition wrapper_real :: "'d cmd_Wrapper \<Rightarrow> 'd Real" where
  "wrapper_real cw c =
     (case c of
        Run name args \<Rightarrow> Wrapper_Run cw name args
      | RunInDir dir name args \<Rightarrow> Wrapper_RunInDir cw dir name args)"

function trimNewline :: "string \<Rightarrow> string" where
  "trimNewline s =
     (if s \<noteq> [] \<and> (last s = CHR 0x0A \<or> last s = CHR 0x0D) then trimNewline (butlast s) else s)"
  by pat_completeness auto
termination by (relation "measure length") auto

declare trimNewline.simps [simp del]

definition trimmed :: "(string \<times> goerr option, 'd) call \<Rightarrow> (string \<times> goerr option, 'd) call" where
  "trimmed run w = map_option (\<lambda>((out, err), w1). ((trimNewline out, err), w1)) (run w)"

definition CurrentBranch :: "'d Real \<Rightarrow> string \<Rightarrow> (string \<times> goerr option, 'd) call" where
  "CurrentBranch r repoDir = trimmed (r (RunInDir repoDir ''git'' [''rev-parse'', ''--abbrev-ref'', ''HEAD'']))"

definition Status :: "'d Real \<Rightarrow> string \<Rightarrow> (string \<times> goerr option, 'd) call" where
  "Status r repoDir = r (RunInDir repoDir ''git'' [''status'', ''--porcelain''])"

definition docker_Version :: "'d Real \<Rightarrow> (string \<times> goerr option, 'd) call" where
  "docker_Version r = trimmed (r (Run ''docker'' [''version'', ''--format'', ''{{.Server.Version}}'']))"

definition docker_Inspect :: "'d Real \<Rightarrow> string \<Rightarrow> (string \<times> goerr option, 'd) call" where
  "docker_Inspect r ref = r (Run ''docker'' [''inspect'', ref])"

text \<open>What a program printed, what it logged, and whether it ended in \<^verbatim>\<open>log.Fatal\<close>.\<close>

record prog =
  pg_out :: string
  pg_log :: "string list"
  pg_fatal :: bool

abbreviation nl :: string where "nl \<equiv> [CHR 0x0A]"

definition record_pass :: "'d Real \<Rightarrow> (prog, 'd) call" where
  "record_pass r w =
     Option.bind (r (Run ''echo'' [''hello from xrr'']) w) (\<lambda>((out, err), w1).
       case err of
         Some e \<Rightarrow> Some (\<lparr>pg_out = [], pg_log = [''record echo: '' @ err_text e], pg_fatal = True\<rparr>, w1)
       | None \<Rightarrow>
           Option.bind (CurrentBranch r ''.'' w1) (\<lambda>((branch, err2), w2).
           Option.bind (docker_Version r w2) (\<lambda>((ver, err3), w3).
             Some (\<lparr>pg_out = ''record echo: '' @ out
                      @ (case err2 of None \<Rightarrow> ''record git branch: '' @ branch @ nl | Some e \<Rightarrow> [])
                      @ (case err3 of None \<Rightarrow> ''record docker version: '' @ ver @ nl | Some e \<Rightarrow> []),
                    pg_log = (case err2 of None \<Rightarrow> []
                                | Some e \<Rightarrow> [''record git branch: '' @ err_text e @ '' (skipping if not in a git repo)''])
                      @ (case err3 of None \<Rightarrow> []
                           | Some e \<Rightarrow> [''record docker version: '' @ err_text e @ '' (skipping if docker absent)'']),
                    pg_fatal = False\<rparr>, w3))))"

definition replay_pass :: "'d Real \<Rightarrow> (prog, 'd) call" where
  "replay_pass r w =
     Option.bind (r (Run ''echo'' [''hello from xrr'']) w) (\<lambda>((out, err), w1).
       case err of
         Some e \<Rightarrow> Some (\<lparr>pg_out = [], pg_log = [''replay echo: '' @ err_text e], pg_fatal = True\<rparr>, w1)
       | None \<Rightarrow>
           Option.bind (CurrentBranch r ''.'' w1) (\<lambda>((branch, err2), w2).
           Option.bind (docker_Version r w2) (\<lambda>((ver, err3), w3).
             Some (\<lparr>pg_out = ''replay echo: '' @ out
                      @ (case err2 of None \<Rightarrow> ''replay git branch: '' @ branch @ nl | Some e \<Rightarrow> [])
                      @ (case err3 of None \<Rightarrow> ''replay docker version: '' @ ver @ nl | Some e \<Rightarrow> []),
                    pg_log = [], pg_fatal = False\<rparr>, w3))))"

definition cmd_main :: "'d Real \<Rightarrow> (prog, 'd) call" where
  "cmd_main real w =
     (let c = NewFileCassette ''./_cassettes'' in
      Option.bind (record_pass (wrapper_real (cmd_NewWrapper real (NewSession ModeRecord (Some c)))) w) (\<lambda>(p1, w1).
        if pg_fatal p1 then Some (p1, w1)
        else map_option (\<lambda>(p2, w2). (\<lparr>pg_out = pg_out p1 @ pg_out p2, pg_log = pg_log p1 @ pg_log p2, pg_fatal = pg_fatal p2\<rparr>, w2))
               (replay_pass (wrapper_real (cmd_NewWrapper real (NewSession ModeReplay (Some c)))) w1)))"

subsection \<open>File systems (wrap\_fs\_runner)\<close>

datatype FsCall =
    WriteFile string bytes "32 word"
  | Mkdir string "32 word"
  | Remove string
  | RemoveAll string
  | Rename string string
  | Chmod string "32 word"
  | Chown string int int
  | Symlink string string
  | Link string string
  | Truncate string int

type_synonym 'd FS = "FsCall \<Rightarrow> (goerr option, 'd) call"

definition panickyFS :: "'d FS" where
  "panickyFS c w = None"

record 'd fs_Wrapper =
  fw_inner :: "'d FS"
  fw_sess :: FileSession
  fw_adapter :: fs_Adapter

definition fs_NewWrapper :: "'d FS \<Rightarrow> FileSession \<Rightarrow> fs_Adapter \<Rightarrow> 'd fs_Wrapper" where
  "fs_NewWrapper inner sess a = \<lparr>fw_inner = inner, fw_sess = sess, fw_adapter = a\<rparr>"

text \<open>\<open>ms\<close> is the time the inner call took, in milliseconds.\<close>

definition fs_live :: "int \<Rightarrow> (goerr option, 'd) call \<Rightarrow> (Response option \<times> goerr option, 'd) call" where
  "fs_live ms do w =
     map_option (\<lambda>(e, w1). ((Some (AdapterResp (fs_response_fields \<lparr>fp_DurationMs = ms, fp_BytesWritten = 0\<rparr>)), e), w1)) (do w)"

definition fs_record :: "'d fs_Wrapper \<Rightarrow> int \<Rightarrow> fs_Request \<Rightarrow> (goerr option, 'd) call \<Rightarrow> (goerr option, 'd) call" where
  "fs_record fw ms req do w =
     map_option (\<lambda>((resp, err), w1). (err, w1))
       (Record_live (fw_sess fw) (fs_adapter (fw_adapter fw)) (FsRequest req) (fs_live ms do) w)"

definition fs_Request0 :: fs_Request where
  "fs_Request0 = \<lparr>fr_Op = [], fr_Path = [], fr_Data = [], fr_Mode = None, fr_UID = None, fr_GID = None,
     fr_Dest = [], fr_Size = None, fr_Flags = 0, fr_Recursive = False\<rparr>"

text \<open>The request each method of the wrapper builds; \<open>Normalize a\<close> is its \<^verbatim>\<open>np\<close>.\<close>

fun call_request :: "fs_Adapter \<Rightarrow> FsCall \<Rightarrow> fs_Request" where
  "call_request a (WriteFile path data mode) =
     fs_Request0\<lparr>fr_Op := OpWrite, fr_Path := Normalize a path, fr_Data := data, fr_Mode := Some mode\<rparr>"
| "call_request a (Mkdir path mode) =
     fs_Request0\<lparr>fr_Op := OpMkdir, fr_Path := Normalize a path, fr_Mode := Some mode\<rparr>"
| "call_request a (Remove path) = fs_Request0\<lparr>fr_Op := OpRemove, fr_Path := Normalize a path\<rparr>"
| "call_request a (RemoveAll path) =
     fs_Request0\<lparr>fr_Op := OpRemove, fr_Path := Normalize a path, fr_Recursive := True\<rparr>"
| "call_request a (Rename oldpath newpath) =
     fs_Request0\<lparr>fr_Op := OpRename, fr_Path := Normalize a oldpath, fr_Dest := Normalize a newpath\<rparr>"
| "call_request a (Chmod path mode) =
     fs_Request0\<lparr>fr_Op := OpChmod, fr_Path := Normalize a path, fr_Mode := Some mode\<rparr>"
| "call_request a (Chown path uid gid) =
     fs_Request0\<lparr>fr_Op := OpChown, fr_Path := Normalize a path, fr_UID := Some uid, fr_GID := Some gid\<rparr>"
| "call_request a (Symlink target link) =
     fs_Request0\<lparr>fr_Op := OpSymlink, fr_Path := Normalize a target, fr_Dest := Normalize a link\<rparr>"
| "call_request a (Link oldpath newpath) =
     fs_Request0\<lparr>fr_Op := OpHardlink, fr_Path := Normalize a oldpath, fr_Dest := Normalize a newpath\<rparr>"
| "call_request a (Truncate path sz) =
     fs_Request0\<lparr>fr_Op := OpTruncate, fr_Path := Normalize a path, fr_Size := Some sz\<rparr>"

text \<open>The wrapper satisfies the interface it wraps: the inner file system sees the paths as they
  are, the cassette the normalised ones.\<close>

definition wrapper_fs :: "'d fs_Wrapper \<Rightarrow> int \<Rightarrow> 'd FS" where
  "wrapper_fs fw ms c = fs_record fw ms (call_request (fw_adapter fw) c) (fw_inner fw c)"

definition tmpNormalizer :: "string \<Rightarrow> string \<Rightarrow> string" where
  "tmpNormalizer tmp p =
     (let pre = tmp @ [slash] in
      if p = tmp then ''$TMP''
      else if prefix pre p then ''$TMP'' @ drop (length tmp) p
      else p)"

text \<open>The body of the program: the outcome of \<^verbatim>\<open>os.MkdirTemp\<close> and
  \<^verbatim>\<open>os.MkdirAll\<close>, the names \<^verbatim>\<open>os.ReadDir\<close> lists afterwards, the effect of
  \<^verbatim>\<open>os.RemoveAll\<close>, deferred until the function returns, and the duration of the two calls
  are arguments.\<close>

definition fs_run ::
  "'d FS \<Rightarrow> string res \<Rightarrow> (string \<Rightarrow> goerr option) \<Rightarrow> ('d world \<Rightarrow> string list)
   \<Rightarrow> (string \<Rightarrow> 'd world \<Rightarrow> 'd world) \<Rightarrow> int \<Rightarrow> (goerr option \<times> string list, 'd) call" where
  "fs_run real mkdirTemp mkdirAll readDir rmAll ms w =
     (case mkdirTemp of
        Inl e \<Rightarrow> Some ((Some e, []), w)
      | Inr tmp \<Rightarrow>
          let cassetteDir = path_Join tmp ''cassettes'' in
          (case mkdirAll cassetteDir of
             Some e \<Rightarrow> Some ((Some e, []), rmAll tmp w)
           | None \<Rightarrow>
               let target = path_Join tmp ''hello.txt'';
                   a = WithNormalizer fs_NewAdapter (tmpNormalizer tmp);
                   write = WriteFile target (''hello'' @ nl) 0x1A4;
                   c = Some (NewFileCassette cassetteDir)
               in Option.bind (wrapper_fs (fs_NewWrapper real (NewSession ModeRecord c) a) ms write w) (\<lambda>(err, w1).
                    case err of
                      Some e \<Rightarrow> Some ((Some (ErrWrap ''record WriteFile'' e), []), rmAll tmp w1)
                    | None \<Rightarrow>
                        let out = (''recorded: '' @ target) # map (\<lambda>n. ''cassette: '' @ n) (readDir w1) in
                        map_option (\<lambda>(err2, w2).
                            (case err2 of
                               Some e \<Rightarrow> (Some (ErrWrap ''replay WriteFile'' e), out)
                             | None \<Rightarrow> (None, out @ [''replayed without touching disk'']), rmAll tmp w2))
                          (wrapper_fs (fs_NewWrapper panickyFS (NewSession ModeReplay c) a) ms write w1))))"

subsection \<open>Cross-process sessions (env\_session)\<close>

text \<open>A program that ends in \<^verbatim>\<open>log.Fatalf\<close> prints nothing and logs one line. The value
  \<^verbatim>\<open>%s\<close> prints for a payload that is not a string is \<open>other\<close>.\<close>

definition env_main ::
  "(gval option \<Rightarrow> string) \<Rightarrow> (string \<Rightarrow> string list \<Rightarrow> (string \<times> goerr option, 'd) call)
   \<Rightarrow> (string \<Rightarrow> string) \<Rightarrow> (string \<Rightarrow> bool res) \<Rightarrow> (string \<Rightarrow> goerr option) \<Rightarrow> (prog, 'd) call" where
  "env_main other output getenv stat mkdirAll w =
     (let fatal = (\<lambda>s e w1. Some (\<lparr>pg_out = [], pg_log = [s @ err_text e], pg_fatal = True\<rparr>, w1));
          printed = (\<lambda>s. \<lparr>pg_out = s, pg_log = [], pg_fatal = False\<rparr>);
          argv = [''echo'', ''hello from xrr env''];
          req = \<lparr>er_Argv = Some argv, er_Stdin = [], er_Cwd = [], er_Env = []\<rparr>;
          runEcho = run_live (output [] argv)
      in case fst (SessionFromEnv getenv stat mkdirAll) of
           Inl e \<Rightarrow> fatal ''xrr env: '' e w
         | Inr None \<Rightarrow>
             Option.bind (runEcho w) (\<lambda>((resp, err), w1).
               case err of
                 Some e \<Rightarrow>
                   Some (\<lparr>pg_out = ''(no xrr session; running real subprocess)'' @ nl, pg_log = [''real: '' @ err_text e],
                          pg_fatal = True\<rparr>, w1)
               | None \<Rightarrow> Some (printed (''(no xrr session; running real subprocess)'' @ nl @ ''real: '' @ stdoutOf resp), w1))
         | Inr (Some sess) \<Rightarrow>
             Option.bind (Record_live sess exec_adapter (ExecRequest req) runEcho w) (\<lambda>((resp, err), w1).
               case err of
                 Some e \<Rightarrow> fatal ''xrr session: '' e w1
               | None \<Rightarrow>
                   (case resp of
                      None \<Rightarrow> Some (printed [], w1)
                    | Some (AdapterResp g) \<Rightarrow> Some (printed (''recorded: '' @ stdoutOf resp), w1)
                    | Some (RawResponse a payload) \<Rightarrow>
                        Some (printed (''replayed: '' @
                          (case Option.bind payload (\<lambda>kvs. map_of kvs ''stdout'') of
                             Some (GStr s) \<Rightarrow> s
                           | v \<Rightarrow> other v)), w1))))"

subsection \<open>The command wrapper replays\<close>

text \<open>The request of a call, whichever method makes it.\<close>

definition real_request :: "RealCall \<Rightarrow> exec_Request" where
  "real_request c =
     (case c of
        Run name args \<Rightarrow> \<lparr>er_Argv = Some (name # args), er_Stdin = [], er_Cwd = [], er_Env = []\<rparr>
      | RunInDir dir name args \<Rightarrow> \<lparr>er_Argv = Some (name # args), er_Stdin = [], er_Cwd = dir, er_Env = []\<rparr>)"

lemma wrapper_real_request:
  "wrapper_real cw c w = map_option (\<lambda>((resp, err), w1). ((stdoutOf resp, err), w1))
     (Record_live (cw_sess cw) (cw_adapter cw) (ExecRequest (real_request c)) (run_live (cw_inner cw c)) w)"
  by (cases c) (simp_all add: wrapper_real_def Wrapper_Run_def Wrapper_RunInDir_def real_request_def)

definition cmd_key :: "RealCall \<Rightarrow> string res" where
  "cmd_key c = exec_Fingerprint (ExecRequest (real_request c))"

text \<open>An outcome that can be recorded: the texts are UTF-8, the redactor has no reason to touch
  them, and the cassette could be written.\<close>

definition cmd_recordable :: "FileCassette \<Rightarrow> 'd world \<Rightarrow> RealCall \<Rightarrow> string \<times> goerr option \<Rightarrow> bool" where
  "cmd_recordable c w = (\<lambda>call (out, e).
     exec_ok (real_request call) \<and> utf8_valid out \<and> utf8_valid (errstr e) \<and> \<not> save_error e
     \<and> untouched c w (request_fields (ExecRequest (real_request call)))
     \<and> untouched c w (exec_response_fields (run_response out e)))"

definition response_kvs :: "string \<Rightarrow> goerr option \<Rightarrow> (string \<times> gval) list" where
  "response_kvs out e = [(''stdout'', GStr out), (''exit_code'', GInt (ExitCodeFromError e))]"

lemma response_kvs: "exec_response_fields (run_response out e) = GMap (response_kvs out e)"
  by (simp add: exec_response_fields_def run_response_def response_kvs_def)

definition cmd_holds :: "FileCassette \<Rightarrow> 'd world \<Rightarrow> RealCall \<Rightarrow> string \<times> goerr option \<Rightarrow> bool" where
  "cmd_holds c w = (\<lambda>call (out, e).
     \<exists>e'. held c exec_adapter (ExecRequest (real_request call)) (response_kvs out e') (errstr e) w)"

definition cmd_view :: "string \<times> goerr option \<Rightarrow> string \<times> goerr option" where
  "cmd_view = (\<lambda>(out, e). (out, replayed_error e))"

abbreviation cmd_recorder :: "'d Real \<Rightarrow> FileCassette \<Rightarrow> 'd Real" where
  "cmd_recorder inner c \<equiv> wrapper_real (cmd_NewWrapper inner (NewSession ModeRecord (Some c)))"

abbreviation cmd_replayer :: "'d Real \<Rightarrow> FileCassette \<Rightarrow> 'd Real" where
  "cmd_replayer inner c \<equiv> wrapper_real (cmd_NewWrapper inner (NewSession ModeReplay (Some c)))"

lemma spares_run_live: "spares c run \<Longrightarrow> spares c (run_live run)"
  unfolding spares_def run_live_def by (fastforce split: option.splits prod.splits)

lemma plain_cmd_request: "exec_ok (real_request call) \<Longrightarrow> plain (request_fields (ExecRequest (real_request call)))"
  by (cases call) (auto simp: real_request_def exec_ok_def yaml_strs_def field_names list_all_iff)

lemma plain_response_kvs: "utf8_valid out \<Longrightarrow> plain (GMap (response_kvs out e))"
  by (simp add: response_kvs_def field_names)

lemma NewWrapper_sel [simp]:
  "cw_inner (cmd_NewWrapper r s) = r" "cw_sess (cmd_NewWrapper r s) = s" "cw_adapter (cmd_NewWrapper r s) = exec_adapter"
  "fw_inner (fs_NewWrapper f s a) = f" "fw_sess (fs_NewWrapper f s a) = s" "fw_adapter (fs_NewWrapper f s a) = a"
  by (simp_all add: cmd_NewWrapper_def fs_NewWrapper_def)

lemma cmd_recorded:
  assumes w: "store_ok c w" "spares c (inner call)" and ok: "cmd_recordable c w call (out, e)"
    and rec: "cmd_recorder inner c call w = Some ((out, e), w2)"
  shows "same_but_files w w2" "cmd_holds c w2 call (out, e)"
    "cmd_key d \<noteq> cmd_key call \<Longrightarrow> cmd_holds c w d x \<Longrightarrow> cmd_holds c w2 d x"
proof -
  let ?do = "run_live (inner call)" and ?req = "ExecRequest (real_request call)"
  obtain resp where r: "Record_live (NewSession ModeRecord (Some c)) exec_adapter ?req ?do w = Some ((resp, e), w2)"
    "out = stdoutOf resp"
    using rec by (auto simp: wrapper_real_request)
  have "\<exists>x. ?do w = Some x"
    using r(1) by (cases "?do w") (simp_all add: Record_live_def)
  then obtain o0 e0 w1 where live: "?do w = Some ((Some (AdapterResp (GMap (response_kvs o0 e0))), e0), w1)"
    by (auto simp: run_live_def response_kvs split: option.splits)
  obtain fp where fp: "exec_Fingerprint ?req = Inr fp" "key_ok (''exec'', fp)"
    using ok exec.fp_total[of "real_request call"] by (auto simp: cmd_recordable_def key_ok_def field_names)
  obtain qvs where q: "request_fields ?req = GMap qvs" by simp
  have ns: "\<not> save_error e" using ok by (simp add: cmd_recordable_def)
  have fpa: "a_Fingerprint exec_adapter ?req = Inr fp" "key_ok (a_ID exec_adapter, fp)" using fp by simp_all
  have eq: "e0 = e" "o0 = out"
    using Record_live_returns[OF _ _ live fpa(1) r(1) ns] r(2) by (simp_all add: stdoutOf_def response_kvs_def)
  note live' = live[unfolded eq]
  have vals: "plain (GMap qvs)" "plain (GMap (response_kvs out e))" "utf8_valid (errstr e)"
    "untouched c w (GMap qvs)" "untouched c w (GMap (response_kvs out e))"
    using ok plain_cmd_request[of call] plain_response_kvs
    by (simp_all del: request_fields.simps plain.simps add: cmd_recordable_def response_kvs q)
  have af: "a_fields exec_adapter ?req = GMap qvs" using q by simp
  note saved = Record_live_saved[OF _ _ live' spares_run_live[OF w(2)] fpa af vals(1-3) w(1) vals(4,5) r(1) ns, simplified]
  show "same_but_files w w2" by (rule saved(4))
  show "cmd_holds c w2 call (out, e)" using saved(3) by (auto simp: cmd_holds_def)
  show "cmd_holds c w2 d x" if "cmd_key d \<noteq> cmd_key call" "cmd_holds c w d x"
  proof (cases x)
    case (Pair o1 e1)
    with that(2) obtain e2 where "held c exec_adapter (ExecRequest (real_request d)) (response_kvs o1 e2) (errstr e1) w"
      by (auto simp: cmd_holds_def)
    moreover have "exec_Fingerprint (ExecRequest (real_request d)) \<noteq> Inr fp"
      using that(1) fp(1) by (simp add: cmd_key_def)
    ultimately have "held c exec_adapter (ExecRequest (real_request d)) (response_kvs o1 e2) (errstr e1) w2"
      using saved(5)[of exec_adapter] by simp
    with Pair show ?thesis by (auto simp: cmd_holds_def)
  qed
qed

lemma cmd_replays: "cmd_holds c w call x \<Longrightarrow> cmd_replayer inner c call w = Some (cmd_view x, w)"
proof -
  assume "cmd_holds c w call x"
  then obtain out e e' where x: "x = (out, e)"
    and h: "held c exec_adapter (ExecRequest (real_request call)) (response_kvs out e') (errstr e) w"
    by (auto simp: cmd_holds_def)
  let ?t = "NewSession ModeReplay (Some c)"
  obtain lvs where l: "key_norm (GMap lvs) = key_norm (GMap (response_kvs out e'))"
    "Record_live ?t exec_adapter (ExecRequest (real_request call)) (run_live (inner call)) w
      = Some ((Some (RawResponse ''exec'' (Some lvs)), if errstr e = [] then None else Some (ErrNew (errstr e))), w)"
    using Record_live_held[where t = ?t and do = "run_live (inner call)", OF _ _ h] unfolding NewSession_sel adapter_sel by blast
  have "map_of lvs ''stdout'' = Some (GStr out)"
    by (rule key_norm_string[OF l(1)]) (simp_all add: response_kvs_def)
  then show ?thesis
    using l(2) by (simp add: wrapper_real_request stdoutOf_def x cmd_view_def replayed_error_def)
qed

lemma cmd_recordable_cong: "same_but_files w w' \<Longrightarrow> cmd_recordable c w' = cmd_recordable c w"
  by (simp add: cmd_recordable_def untouched_cong fun_eq_iff)

interpretation cmd: wrapped_calls "cmd_recorder inner c" "cmd_replayer inner' c" cmd_key "\<lambda>_. True"
  "\<lambda>w. store_ok c w \<and> (\<forall>call. spares c (inner call))" "cmd_recordable c" "cmd_holds c" cmd_view
  for inner inner' :: "'d Real" and c :: FileCassette
proof unfold_locales
  fix w w1 :: "'d world" and call d :: RealCall and r s :: "string \<times> goerr option"
  show "cmd_holds c w call r \<Longrightarrow> \<exists>s. cmd_replayer inner' c call w = Some (s, w) \<and> s = cmd_view r"
    using cmd_replays by blast
  show "cmd_holds c w call r \<Longrightarrow> cmd_key d = cmd_key call \<Longrightarrow> cmd_holds c w d r"
    by (cases r) (simp add: cmd_holds_def held_def cmd_key_def)
  assume A: "store_ok c w \<and> (\<forall>call. spares c (inner call))" "cmd_recordable c w call r"
    "cmd_recorder inner c call w = Some (r, w1)"
  obtain out e where r: "r = (out, e)" by (cases r)
  have "spares c (inner call)" "store_ok c w" using A(1) by auto
  note rec = cmd_recorded[OF this(2,1) A(2,3)[unfolded r]]
  show "(store_ok c w1 \<and> (\<forall>call. spares c (inner call))) \<and> cmd_holds c w1 call r"
    using A(1) rec(1,2) store_ok_cong r by blast
  show "cmd_recordable c w1 = cmd_recordable c w" by (rule cmd_recordable_cong[OF rec(1)])
  show "cmd_key d \<noteq> cmd_key call \<Longrightarrow> cmd_holds c w d s \<Longrightarrow> cmd_holds c w1 d s" by (rule rec(3))
qed

text \<open>A wrapped command runner replays what it recorded. A sequence of recordable commands
  was run through the recording wrapper. Then the replaying wrapper over the same cassette
  directory answers every sequence of commands with recorded fingerprints, in any order and
  number: each gets the standard output of the last recorded command with its fingerprint and an
  error of the same text. The runner inside is never called (any runner, one that panics too) and
  the world is left as it was. When no two commands share a fingerprint, running them again gives
  back what they returned.\<close>

theorem wrapped_runner_replays:
  assumes "store_ok c w" "\<And>call. spares c (inner call)"
    and "run_all (wrapper_real (cmd_NewWrapper inner (NewSession ModeRecord (Some c)))) calls w = Some (outs, w2)"
    and "list_all2 (cmd_recordable c w) calls outs" "list_all (\<lambda>call. cmd_key call \<in> cmd_key ` set calls) again"
  shows "run_all (wrapper_real (cmd_NewWrapper inner' (NewSession ModeReplay (Some c)))) again w2
      = Some (map (\<lambda>call. case last_outcome cmd_key calls outs call of (out, e) \<Rightarrow> (out, replayed_error e)) again, w2)
    \<and> (distinct (map cmd_key calls) \<longrightarrow> map (last_outcome cmd_key calls outs) calls = outs)"
  using cmd.run_replays[OF assms(3) _ assms(4), of again inner'] assms(1,2,5)
    last_outcome_distinct[OF list_all2_lengthD[OF assms(4), symmetric], of cmd_key]
  by (simp add: cmd_view_def)

definition sample_runner :: "ynode Real" where
  "sample_runner c w = Some ((''x'', Some (ExitError 3 ''exit status 3'')), w)"

lemma sample_run:
  "\<exists>w2. cmd_recorder sample_runner (NewFileCassette ''d'') (Run ''x'' []) tree_world
     = Some ((''x'', Some (ExitError 3 ''exit status 3'')), w2)"
proof -
  let ?c = "NewFileCassette ''d''" and ?e = "Some (ExitError 3 ''exit status 3'')"
  have f: "request_fields (ExecRequest (real_request (Run ''x'' []))) = GMap [(''argv'', GList [GStr ''x''])]"
    by (simp add: real_request_def yaml_strs_def)
  have "exec_ok (real_request (Run ''x'' []))" by (simp add: exec_ok_def real_request_def field_names)
  then obtain fp where fp: "exec_Fingerprint (ExecRequest (real_request (Run ''x'' []))) = Inr fp"
    using exec.fp_total by blast
  obtain w2 where "Save ?c ''exec'' fp (Some (GMap [(''argv'', GList [GStr ''x''])]))
      (Some (GMap (response_kvs ''x'' ?e))) ?e tree_world = (None, w2)"
    using tree_save[of "Some (GMap [(''argv'', GList [GStr ''x''])])" "Some (GMap (response_kvs ''x'' ?e))" ?c "''exec''" fp ?e]
    by (simp add: normalizePayload_def response_kvs_def) (metis prod.collapse)
  then show ?thesis
    by (simp add: wrapper_real_request Record_live_def Record_def session_record_def mode_defs run_live_def
        sample_runner_def fp f response_kvs stdoutOf_def del: request_fields.simps)
      (simp add: response_kvs_def)
qed

theorem wrapped_runner_replays_witness:
  "\<exists>w2. run_all (wrapper_real (cmd_NewWrapper sample_runner (NewSession ModeRecord (Some (NewFileCassette ''d''))))) [Run ''x'' []] tree_world
       = Some ([(''x'', Some (ExitError 3 ''exit status 3''))], w2)
     \<and> run_all (wrapper_real (cmd_NewWrapper (\<lambda>_ _. None) (NewSession ModeReplay (Some (NewFileCassette ''d''))))) [Run ''x'' [], Run ''x'' []] w2
       = Some ([(''x'', Some (ErrNew ''exit status 3'')), (''x'', Some (ErrNew ''exit status 3''))], w2)"
proof -
  let ?c = "NewFileCassette ''d''" and ?x = "(''x'', Some (ExitError 3 ''exit status 3''))"
  obtain w2 where r: "run_all (cmd_recorder sample_runner ?c) [Run ''x'' []] tree_world = Some ([?x], w2)"
    using sample_run by auto
  have "cmd_recordable ?c tree_world (Run ''x'' []) ?x"
    using untouched_exec_samples by (simp add: cmd_recordable_def real_request_def exec_ok_def field_names
        save_error_def response_kvs response_kvs_def yaml_strs_def)
  then have ok: "list_all2 (cmd_recordable ?c tree_world) [Run ''x'' []] [?x]" by simp
  have sp: "spares ?c (sample_runner call)" for call by (simp add: spares_def sample_runner_def)
  have d: "list_all (\<lambda>call. cmd_key call \<in> cmd_key ` set [Run ''x'' []]) [Run ''x'' [], Run ''x'' []]" by simp
  from wrapped_runner_replays[OF tree_world_ok sp r ok d, of "\<lambda>_ _. None"] r show ?thesis
    by (simp add: replayed_error_def last_outcome_def)
qed

text \<open>The program runs three commands in each pass, and prints what they returned.\<close>

definition demo_calls :: "RealCall list" where
  "demo_calls = [Run ''echo'' [''hello from xrr''], RunInDir ''.'' ''git'' [''rev-parse'', ''--abbrev-ref'', ''HEAD''],
     Run ''docker'' [''version'', ''--format'', ''{{.Server.Version}}'']]"

fun pass_text :: "string \<Rightarrow> (string \<times> goerr option) list \<Rightarrow> string" where
  "pass_text label [(out, _), (branch, e2), (ver, e3)] =
     label @ '' echo: '' @ out
     @ (if e2 = None then label @ '' git branch: '' @ trimNewline branch @ nl else [])
     @ (if e3 = None then label @ '' docker version: '' @ trimNewline ver @ nl else [])"
| "pass_text label _ = []"

lemma record_pass_calls:
  assumes "record_pass r w = Some (p, w3)" "\<not> pg_fatal p"
  obtains outs where "run_all r demo_calls w = Some (outs, w3)" "pg_out p = pass_text ''record'' outs"
    "snd (hd outs) = None"
  using assms
  by (fastforce simp: record_pass_def CurrentBranch_def docker_Version_def trimmed_def demo_calls_def bind_eq_Some_conv
      split: option.splits)

lemma replay_pass_calls:
  assumes "run_all r demo_calls w = Some (outs, w3)" "snd (hd outs) = None"
  shows "replay_pass r w = Some (\<lparr>pg_out = pass_text ''replay'' outs, pg_log = [], pg_fatal = False\<rparr>, w3)"
proof -
  obtain out w1 branch e2 w2 ver e3 where "r (Run ''echo'' [''hello from xrr'']) w = Some ((out, None), w1)"
    "r (RunInDir ''.'' ''git'' [''rev-parse'', ''--abbrev-ref'', ''HEAD'']) w1 = Some ((branch, e2), w2)"
    "r (Run ''docker'' [''version'', ''--format'', ''{{.Server.Version}}'']) w2 = Some ((ver, e3), w3)"
    "outs = [(out, None), (branch, e2), (ver, e3)]"
    using assms by (auto simp: demo_calls_def bind_eq_Some_conv)
  then show ?thesis
    by (simp add: replay_pass_def CurrentBranch_def docker_Version_def trimmed_def split: option.split)
qed

lemma pass_text_view:
  assumes "list_all (\<lambda>(out, e). e = None \<or> errstr e \<noteq> []) outs"
  shows "pass_text label (map (\<lambda>(out, e). (out, replayed_error e)) outs) = pass_text label outs"
  using assms by (induction label outs rule: pass_text.induct) (auto simp: replayed_error_def)

lemma cmd_main_prints:
  assumes "store_ok (NewFileCassette ''./_cassettes'') w" "\<And>call. spares (NewFileCassette ''./_cassettes'') (real call)"
    and main: "cmd_main real w = Some (p, w2)" "\<not> pg_fatal p"
    and ok: "\<And>outs w1. run_all (cmd_recorder real (NewFileCassette ''./_cassettes'')) demo_calls w = Some (outs, w1) \<Longrightarrow>
      list_all2 (cmd_recordable (NewFileCassette ''./_cassettes'') w) demo_calls outs
      \<and> list_all (\<lambda>(out, e). e = None \<or> errstr e \<noteq> []) outs"
    and "distinct (map cmd_key demo_calls)"
  shows "\<exists>outs. run_all (cmd_recorder real (NewFileCassette ''./_cassettes'')) demo_calls w = Some (outs, w2)
    \<and> pg_out p = pass_text ''record'' outs @ pass_text ''replay'' outs"
proof -
  let ?c = "NewFileCassette ''./_cassettes''"
  obtain p1 w1 where p1: "record_pass (cmd_recorder real ?c) w = Some (p1, w1)" "\<not> pg_fatal p1"
    using main by (auto simp: cmd_main_def Let_def bind_eq_Some_conv split: if_splits)
  obtain outs where outs: "run_all (cmd_recorder real ?c) demo_calls w = Some (outs, w1)"
    "pg_out p1 = pass_text ''record'' outs" "snd (hd outs) = None"
    by (rule record_pass_calls[OF p1])
  note k = ok[OF outs(1)]
  let ?v = "map (\<lambda>(out, e). (out, replayed_error e)) outs"
  have rep: "run_all (cmd_replayer real ?c) demo_calls w1 = Some (?v, w1)"
    using cmd.run_again[OF outs(1) _ _ _ assms(6), of real] assms(1,2) k by (simp add: cmd_view_def list_all_iff)
  have "outs \<noteq> []" using outs(1) by (auto simp: demo_calls_def bind_eq_Some_conv)
  then have "snd (hd ?v) = None" using outs(3) by (cases outs) (auto simp: replayed_error_def)
  from replay_pass_calls[OF rep this] have
    "replay_pass (cmd_replayer real ?c) w1 = Some (\<lparr>pg_out = pass_text ''replay'' outs, pg_log = [], pg_fatal = False\<rparr>, w1)"
    using pass_text_view k by simp
  then show ?thesis
    using main p1 outs by (auto simp: cmd_main_def Let_def)
qed

text \<open>The loop of \<open>trimNewline\<close> cuts the longest run of line ends off the end.\<close>

lemma trimNewline_rev: "trimNewline s = rev (dropWhile (\<lambda>c. c = CHR 0x0A \<or> c = CHR 0x0D) (rev s))"
proof (induction s rule: rev_induct)
  case (snoc c s)
  then show ?case by (subst trimNewline.simps) auto
qed (simp add: trimNewline.simps)

subsubsection \<open>The program driven by the environment\<close>

lemma env_main_replays:
  fixes exe :: "string \<Rightarrow> string list \<Rightarrow> (string \<times> goerr option, 'd) call" and getenv :: "string \<Rightarrow> string"
  defines "call \<equiv> Run ''echo'' [''hello from xrr env'']" and "c \<equiv> NewFileCassette (getenv ''XRR_CASSETTE_DIR'')"
  assumes "getenv ''XRR_MODE'' = ModeRecord" "getenv' = getenv(''XRR_MODE'' := ModeReplay)"
    and "stat (getenv ''XRR_CASSETTE_DIR'') = Inr True" "getenv ''XRR_CASSETTE_DIR'' \<noteq> []"
    and "store_ok c w" "spares c (exe [] [''echo'', ''hello from xrr env''])" "cmd_recordable c w call (out, None)"
    and run: "env_main other exe getenv stat mkdirAll w = Some (\<lparr>pg_out = ''recorded: '' @ out, pg_log = [], pg_fatal = False\<rparr>, w2)"
  shows "env_main other exe' getenv' stat mkdirAll w2 = Some (\<lparr>pg_out = ''replayed: '' @ out, pg_log = [], pg_fatal = False\<rparr>, w2)"
proof -
  let ?req = "ExecRequest (real_request call)"
  have req: "real_request call = \<lparr>er_Argv = Some [''echo'', ''hello from xrr env''], er_Stdin = [], er_Cwd = [], er_Env = []\<rparr>"
    by (simp add: real_request_def call_def)
  have s: "SessionFromEnv getenv stat mkdirAll = (Inr (Some (NewSession ModeRecord (Some c))), [])"
    "SessionFromEnv getenv' stat mkdirAll = (Inr (Some (NewSession ModeReplay (Some c))), [])"
    using assms(3-6) by (simp_all add: SessionFromEnv_def Let_def mode_defs c_def)
  have "cmd_recorder (\<lambda>_. exe [] [''echo'', ''hello from xrr env'']) c call w = Some ((out, None), w2)"
    using run unfolding env_main_def Let_def s fst_conv wrapper_real_request req NewWrapper_sel
    by (auto simp: bind_eq_Some_conv split: option.splits Response.splits)
  then have "cmd_holds c w2 call (out, None)"
    using cmd_recorded(2)[where inner = "\<lambda>_. exe [] [''echo'', ''hello from xrr env'']"] assms(7-9) by blast
  then obtain e' where h: "held c exec_adapter ?req (response_kvs out e') [] w2"
    by (auto simp: cmd_holds_def)
  obtain lvs where l: "key_norm (GMap lvs) = key_norm (GMap (response_kvs out e'))"
    "Record_live (NewSession ModeReplay (Some c)) exec_adapter ?req (run_live (exe' [] [''echo'', ''hello from xrr env''])) w2
      = Some ((Some (RawResponse (a_ID exec_adapter) (Some lvs)), if [] = ([] :: string) then None else Some (ErrNew [])), w2)"
    by (rule Record_live_held[OF NewSession_sel h])
  have "map_of lvs ''stdout'' = Some (GStr out)"
    by (rule key_norm_string[OF l(1)]) (simp_all add: response_kvs_def)
  with l(2) show ?thesis
    unfolding env_main_def Let_def s fst_conv req by simp
qed

subsubsection \<open>The file system wrapper\<close>

fun map_paths :: "(string \<Rightarrow> string) \<Rightarrow> FsCall \<Rightarrow> FsCall" where
  "map_paths f (WriteFile p d m) = WriteFile (f p) d m"
| "map_paths f (Mkdir p m) = Mkdir (f p) m"
| "map_paths f (Remove p) = Remove (f p)"
| "map_paths f (RemoveAll p) = RemoveAll (f p)"
| "map_paths f (Rename p q) = Rename (f p) (f q)"
| "map_paths f (Chmod p m) = Chmod (f p) m"
| "map_paths f (Chown p u g) = Chown (f p) u g"
| "map_paths f (Symlink p q) = Symlink (f p) (f q)"
| "map_paths f (Link p q) = Link (f p) (f q)"
| "map_paths f (Truncate p n) = Truncate (f p) n"

fun call_paths :: "FsCall \<Rightarrow> string list" where
  "call_paths (WriteFile p d m) = [p]"
| "call_paths (Mkdir p m) = [p]"
| "call_paths (Remove p) = [p]"
| "call_paths (RemoveAll p) = [p]"
| "call_paths (Rename p q) = [p, q]"
| "call_paths (Chmod p m) = [p]"
| "call_paths (Chown p u g) = [p]"
| "call_paths (Symlink p q) = [p, q]"
| "call_paths (Link p q) = [p, q]"
| "call_paths (Truncate p n) = [p]"

text \<open>A call on paths relative to a directory: each is empty or starts with a slash.\<close>

definition below :: "FsCall \<Rightarrow> bool" where
  "below c = list_all (\<lambda>r. r = [] \<or> hd r = slash) (call_paths c)"

definition rooted :: "string \<Rightarrow> bool" where
  "rooted tmp \<longleftrightarrow> tmp \<noteq> [] \<and> hd tmp = slash"

definition tmp_adapter :: "string \<Rightarrow> fs_Adapter" where
  "tmp_adapter tmp = WithNormalizer fs_NewAdapter (tmpNormalizer tmp)"

lemma tmpNormalizer_below: "r = [] \<or> hd r = slash \<Longrightarrow> tmpNormalizer tmp (tmp @ r) = ''$TMP'' @ r"
  by (cases r) (auto simp: tmpNormalizer_def)

lemma tmpNormalizer_stable: "rooted tmp \<Longrightarrow> tmpNormalizer tmp (''$TMP'' @ r) = ''$TMP'' @ r"
  by (cases tmp) (auto simp: tmpNormalizer_def rooted_def)

text \<open>A sibling whose name merely starts like the directory is left alone.\<close>

lemma tmpNormalizer_sibling: "x \<noteq> slash \<Longrightarrow> tmpNormalizer tmp (tmp @ x # r) = tmp @ x # r"
  by (simp add: tmpNormalizer_def)

lemma tmp_Normalize:
  assumes "rooted tmp"
  shows "r = [] \<or> hd r = slash \<Longrightarrow> Normalize (tmp_adapter tmp) (tmp @ r) = ''$TMP'' @ r"
    "Normalize (tmp_adapter tmp) (''$TMP'' @ r) = ''$TMP'' @ r"
  using assms tmpNormalizer_below[of r tmp] tmpNormalizer_stable[of tmp r]
  by (auto simp: Normalize_def tmp_adapter_def WithNormalizer_def fs_NewAdapter_def rooted_def)

lemma Normalize_trivial [simp]: "Normalize a [] = []" "Normalize fs_NewAdapter p = p"
  by (simp_all add: Normalize_def fs_NewAdapter_def)

text \<open>The request a call makes, whatever the directory is.\<close>

definition tmp_request :: "FsCall \<Rightarrow> fs_Request" where
  "tmp_request c = call_request fs_NewAdapter (map_paths (\<lambda>r. ''$TMP'' @ r) c)"

lemma tmp_request:
  assumes "rooted tmp" "below c"
  shows "call_request (tmp_adapter tmp) (map_paths (\<lambda>r. tmp @ r) c) = tmp_request c"
  using assms(2) by (cases c) (simp_all add: tmp_request_def below_def tmp_Normalize[OF assms(1)])

lemma tmp_fingerprint:
  assumes "rooted tmp"
  shows "fs_Fingerprint (tmp_adapter tmp) (FsRequest (tmp_request c)) = fs_Fingerprint fs_NewAdapter (FsRequest (tmp_request c))"
proof -
  have "fs_inputs (tmp_adapter tmp) (tmp_request c) = fs_inputs fs_NewAdapter (tmp_request c)"
    by (cases c) (simp_all add: fs_inputs_def tmp_request_def fs_Request0_def tmp_Normalize(2)[OF assms, simplified])
  then show ?thesis by (simp add: fs_Fingerprint_def)
qed

definition fs_key :: "FsCall \<Rightarrow> string res" where
  "fs_key c = fs_Fingerprint fs_NewAdapter (FsRequest (tmp_request c))"

definition fs_kvs :: "int \<Rightarrow> (string \<times> gval) list" where
  "fs_kvs ms = (if ms = 0 then [] else [(''duration_ms'', GInt ms)])"

definition fs_recordable :: "(FsCall \<Rightarrow> int) \<Rightarrow> FileCassette \<Rightarrow> 'd world \<Rightarrow> FsCall \<Rightarrow> goerr option \<Rightarrow> bool" where
  "fs_recordable ms c w call e \<longleftrightarrow> below call \<and> plain (request_fields (FsRequest (tmp_request call)))
     \<and> utf8_valid (errstr e) \<and> \<not> save_error e
     \<and> untouched c w (request_fields (FsRequest (tmp_request call))) \<and> untouched c w (GMap (fs_kvs (ms call)))"

definition fs_holds :: "FileCassette \<Rightarrow> 'd world \<Rightarrow> FsCall \<Rightarrow> goerr option \<Rightarrow> bool" where
  "fs_holds c w call e \<longleftrightarrow> below call \<and>
     (\<exists>ms. held c (fs_adapter fs_NewAdapter) (FsRequest (tmp_request call)) (fs_kvs ms) (errstr e) w)"

abbreviation fs_recorder :: "'d FS \<Rightarrow> FileCassette \<Rightarrow> string \<Rightarrow> (FsCall \<Rightarrow> int) \<Rightarrow> 'd FS" where
  "fs_recorder inner c tmp ms call \<equiv>
     wrapper_fs (fs_NewWrapper inner (NewSession ModeRecord (Some c)) (tmp_adapter tmp)) (ms call) (map_paths (\<lambda>r. tmp @ r) call)"

abbreviation fs_replayer :: "'d FS \<Rightarrow> FileCassette \<Rightarrow> string \<Rightarrow> (FsCall \<Rightarrow> int) \<Rightarrow> 'd FS" where
  "fs_replayer inner c tmp ms call \<equiv>
     wrapper_fs (fs_NewWrapper inner (NewSession ModeReplay (Some c)) (tmp_adapter tmp)) (ms call) (map_paths (\<lambda>r. tmp @ r) call)"

lemma fs_response_kvs: "fs_response_fields \<lparr>fp_DurationMs = ms, fp_BytesWritten = 0\<rparr> = GMap (fs_kvs ms)"
  by (simp add: fs_response_fields_def fs_kvs_def)

lemma spares_fs_live: "spares c do \<Longrightarrow> spares c (fs_live ms do)"
  by (fastforce simp: spares_def fs_live_def)

text \<open>The session does not look at the adapter beyond its id, fields and the fingerprint of the
  request.\<close>

lemma Record_adapter_cong:
  assumes "a_ID ad = a_ID ad'" "a_fields ad req = a_fields ad' req" "a_Fingerprint ad req = a_Fingerprint ad' req"
  shows "Record_live s ad req do w = Record_live s ad' req do w"
  unfolding Record_live_def Record_def session_record_def session_replay_def assms ..

lemma wrapper_fs_request:
  assumes "rooted tmp" "below call"
  shows "wrapper_fs (fs_NewWrapper inner s (tmp_adapter tmp)) t (map_paths (\<lambda>r. tmp @ r) call) w =
    map_option (\<lambda>((resp, err), w1). (err, w1)) (Record_live s (fs_adapter fs_NewAdapter) (FsRequest (tmp_request call))
      (fs_live t (inner (map_paths (\<lambda>r. tmp @ r) call))) w)"
proof -
  have "Record_live s (fs_adapter (tmp_adapter tmp)) (FsRequest (tmp_request call)) do w
      = Record_live s (fs_adapter fs_NewAdapter) (FsRequest (tmp_request call)) do w" for do
    by (rule Record_adapter_cong) (simp_all add: tmp_fingerprint[OF assms(1)] del: request_fields.simps)
  then show ?thesis
    by (simp add: wrapper_fs_def fs_record_def tmp_request[OF assms])
qed

lemma fs_ok_plain: "plain (request_fields (FsRequest r)) \<Longrightarrow> fs_ok fs_NewAdapter r"
  by (auto simp: fs_ok_def field_names split: if_splits)

lemma fs_recorded:
  assumes w: "store_ok c w" "spares c (inner (map_paths (\<lambda>r. tmp @ r) call))" "rooted tmp"
    and ok: "fs_recordable ms c w call e" and rec: "fs_recorder inner c tmp ms call w = Some (e, w2)"
  shows "same_but_files w w2" "fs_holds c w2 call e"
    "fs_key d \<noteq> fs_key call \<Longrightarrow> fs_holds c w d x \<Longrightarrow> fs_holds c w2 d x"
proof -
  let ?do = "fs_live (ms call) (inner (map_paths (\<lambda>r. tmp @ r) call))" and ?req = "FsRequest (tmp_request call)"
  let ?ad = "fs_adapter fs_NewAdapter"
  have b: "below call" and ns: "\<not> save_error e" using ok by (simp_all add: fs_recordable_def)
  obtain resp where r: "Record_live (NewSession ModeRecord (Some c)) ?ad ?req ?do w = Some ((resp, e), w2)"
    using rec by (auto simp: wrapper_fs_request[OF w(3) b])
  have "\<exists>x. ?do w = Some x"
    using r by (cases "?do w") (simp_all add: Record_live_def)
  then obtain e0 w1 where live: "?do w = Some ((Some (AdapterResp (GMap (fs_kvs (ms call)))), e0), w1)"
    by (auto simp: fs_live_def fs_response_kvs)
  obtain fp where fp: "fs_key call = Inr fp" "key_ok (''fs'', fp)"
    using ok fs.fp_total[OF fs_ok_plain, of "tmp_request call"]
    by (auto simp: fs_recordable_def fs_key_def key_ok_def field_names simp del: request_fields.simps)
  have fpa: "a_Fingerprint ?ad ?req = Inr fp" "key_ok (a_ID ?ad, fp)" using fp by (simp_all add: fs_key_def)
  obtain qvs where q: "request_fields ?req = GMap qvs" by simp
  have eq: "e0 = e" using Record_live_returns(1)[OF _ _ live fpa(1) r ns] by simp
  have vals: "plain (GMap qvs)" "plain (GMap (fs_kvs (ms call)))" "utf8_valid (errstr e)"
    "untouched c w (GMap qvs)" "untouched c w (GMap (fs_kvs (ms call)))"
    using ok by (simp_all add: fs_recordable_def fs_kvs_def field_names del: request_fields.simps flip: q)
  have af: "a_fields ?ad ?req = GMap qvs" using q by simp
  note saved = Record_live_saved[OF _ _ live[unfolded eq] spares_fs_live[OF w(2)] fpa af vals(1-3) w(1) vals(4,5) r ns, simplified]
  show "same_but_files w w2" by (rule saved(4))
  show "fs_holds c w2 call e" using saved(3) b by (auto simp: fs_holds_def)
  show "fs_holds c w2 d x" if other: "fs_key d \<noteq> fs_key call" "fs_holds c w d x"
  proof -
    obtain m where "below d" "held c ?ad (FsRequest (tmp_request d)) (fs_kvs m) (errstr x) w"
      using other(2) by (auto simp: fs_holds_def)
    moreover have "fs_Fingerprint fs_NewAdapter (FsRequest (tmp_request d)) \<noteq> Inr fp"
      using other(1) fp(1) by (simp add: fs_key_def)
    ultimately show ?thesis
      using saved(5)[of "fs_adapter fs_NewAdapter" "FsRequest (tmp_request d)" "fs_kvs m" "errstr x"] unfolding fs_holds_def adapter_sel by blast
  qed
qed

lemma fs_replays:
  assumes "rooted tmp" "fs_holds c w call e"
  shows "fs_replayer inner c tmp ms call w = Some (replayed_error e, w)"
proof -
  obtain m where b: "below call"
    and h: "held c (fs_adapter fs_NewAdapter) (FsRequest (tmp_request call)) (fs_kvs m) (errstr e) w"
    using assms(2) by (auto simp: fs_holds_def)
  let ?do = "fs_live (ms call) (inner (map_paths (\<lambda>r. tmp @ r) call))"
  obtain lvs where "Record_live (NewSession ModeReplay (Some c)) (fs_adapter fs_NewAdapter) (FsRequest (tmp_request call)) ?do w
      = Some ((Some (RawResponse (a_ID (fs_adapter fs_NewAdapter)) (Some lvs)), if errstr e = [] then None else Some (ErrNew (errstr e))), w)"
    by (rule Record_live_held[OF NewSession_sel h])
  then show ?thesis
    by (simp add: wrapper_fs_request[OF assms(1) b] replayed_error_def del: request_fields.simps)
qed

lemma fs_recordable_cong: "same_but_files w w' \<Longrightarrow> fs_recordable ms c w' = fs_recordable ms c w"
  by (simp add: fs_recordable_def untouched_cong fun_eq_iff)

interpretation fsw: wrapped_calls "fs_recorder inner c tmp ms" "fs_replayer inner' c tmp' ms'" fs_key below
  "\<lambda>w. store_ok c w \<and> (\<forall>call. spares c (inner call)) \<and> rooted tmp \<and> rooted tmp'" "fs_recordable ms c"
  "\<lambda>w call e. fs_holds c w call e \<and> rooted tmp'" replayed_error
  for inner inner' :: "'d FS" and c :: FileCassette and tmp tmp' :: string and ms ms' :: "FsCall \<Rightarrow> int"
proof unfold_locales
  fix w w1 :: "'d world" and call d :: FsCall and r s :: "goerr option"
  show "fs_holds c w call r \<and> rooted tmp' \<Longrightarrow> \<exists>s. fs_replayer inner' c tmp' ms' call w = Some (s, w) \<and> s = replayed_error r"
    using fs_replays by blast
  show "fs_holds c w call r \<and> rooted tmp' \<Longrightarrow> below d \<Longrightarrow> fs_key d = fs_key call \<Longrightarrow> fs_holds c w d r \<and> rooted tmp'"
    by (simp add: fs_holds_def held_def fs_key_def)
  assume A: "store_ok c w \<and> (\<forall>call. spares c (inner call)) \<and> rooted tmp \<and> rooted tmp'" "fs_recordable ms c w call r"
    "fs_recorder inner c tmp ms call w = Some (r, w1)"
  have "store_ok c w" "spares c (inner (map_paths (\<lambda>r. tmp @ r) call))" "rooted tmp" using A(1) by auto
  note rec = fs_recorded[OF this A(2,3)]
  show "(store_ok c w1 \<and> (\<forall>call. spares c (inner call)) \<and> rooted tmp \<and> rooted tmp') \<and> fs_holds c w1 call r \<and> rooted tmp'"
    using A(1) rec(1,2) store_ok_cong by blast
  show "fs_recordable ms c w1 = fs_recordable ms c w" by (rule fs_recordable_cong[OF rec(1)])
  show "fs_key d \<noteq> fs_key call \<Longrightarrow> fs_holds c w d s \<and> rooted tmp' \<Longrightarrow> fs_holds c w1 d s \<and> rooted tmp'"
    using rec(3) by blast
qed

text \<open>C19: A wrapped file system replays in any temporary directory. Recordable calls were made
  with the normaliser of one temporary directory on paths below it. Replayed with the normaliser
  of another temporary directory on paths below that one, in any order and number, every call
  whose fingerprint was recorded returns the error, by its text, of the last recorded call with
  that fingerprint; no file system is called (any inner one is allowed, one that panics too), and
  the world is left as it was. When no two calls share a fingerprint, repeating them gives back
  their errors.\<close>

theorem wrapped_fs_replays_anywhere:
  assumes "store_ok c w" "\<And>call. spares c (inner call)" "rooted tmp" "rooted tmp'"
    and "run_all (\<lambda>call. wrapper_fs (fs_NewWrapper inner (NewSession ModeRecord (Some c)) (WithNormalizer fs_NewAdapter (tmpNormalizer tmp)))
           (ms call) (map_paths (\<lambda>r. tmp @ r) call)) calls w = Some (errs, w2)"
    and "list_all2 (fs_recordable ms c w) calls errs" "list_all (\<lambda>call. below call \<and> fs_key call \<in> fs_key ` set calls) again"
  shows "run_all (\<lambda>call. wrapper_fs (fs_NewWrapper inner' (NewSession ModeReplay (Some c)) (WithNormalizer fs_NewAdapter (tmpNormalizer tmp')))
           (ms' call) (map_paths (\<lambda>r. tmp' @ r) call)) again w2
      = Some (map (\<lambda>call. replayed_error (last_outcome fs_key calls errs call)) again, w2)
    \<and> (distinct (map fs_key calls) \<longrightarrow> map (last_outcome fs_key calls errs) calls = errs)"
  using fsw.run_replays[OF _ _ assms(6,7), of inner tmp w2 tmp' inner' ms'] assms(1-5)
    last_outcome_distinct[OF list_all2_lengthD[OF assms(6), symmetric], of fs_key]
  by (simp add: tmp_adapter_def)

lemma untouched_fs_samples:
  "untouched (NewFileCassette d) tree_world (GMap [(''op'', GStr ''remove''), (''path'', GStr ''$TMP/f'')])"
proof -
  have p: "printable ''op''" "printable ''path''" by (simp_all add: printable_def)
  have "normalizeKey ascii_tables ''op'' = ''OP''" "normalizeKey ascii_tables ''path'' = ''PATH''"
    unfolding p[THEN normalizeKey_printable] by code_simp+
  then have "IsSecretKey default_redactor ''op'' = False" "IsSecretKey default_redactor ''path'' = False"
    by (simp_all add: not_secret_simps)
  moreover have "IsSecretValue default_redactor ''remove'' = False" "IsSecretValue default_redactor ''$TMP/f'' = False"
    by code_simp+
  ultimately have "RedactField default_redactor ''op'' ''remove'' = (''remove'', False)"
    "RedactField default_redactor ''path'' ''$TMP/f'' = (''$TMP/f'', False)" by (simp_all add: RedactField_def)
  then show "untouched (NewFileCassette d) tree_world (GMap [(''op'', GStr ''remove''), (''path'', GStr ''$TMP/f'')])"
    by (simp add: untouched_def tree_redactor)
      (simp add: tree_redact_simps)
qed

definition sample_fs :: "ynode FS" where
  "sample_fs c w = Some (Some (ErrNotExist ''no such file''), w)"

lemma sample_remove_fields: "request_fields (FsRequest (tmp_request (Remove ''/f''))) = GMap [(''op'', GStr ''remove''), (''path'', GStr ''$TMP/f'')]"
  by (simp add: tmp_request_def fs_Request0_def OpRemove_def)

lemma sample_remove:
  "\<exists>w2. fs_recorder sample_fs (NewFileCassette ''d'') ''/a'' (\<lambda>_. 0) (Remove ''/f'') tree_world
     = Some (Some (ErrNotExist ''no such file''), w2)"
proof -
  let ?c = "NewFileCassette ''d''" and ?e = "Some (ErrNotExist ''no such file'')"
  let ?q = "GMap [(''op'', GStr ''remove''), (''path'', GStr ''$TMP/f'')]"
  have rb: "rooted ''/a''" "below (Remove ''/f'')" by (simp_all add: rooted_def below_def)
  have "fs_ok fs_NewAdapter (tmp_request (Remove ''/f''))"
    by (simp add: fs_ok_def tmp_request_def fs_Request0_def OpRemove_def field_names)
  then obtain fp where fp: "fs_Fingerprint fs_NewAdapter (FsRequest (tmp_request (Remove ''/f''))) = Inr fp"
    using fs.fp_total by blast
  obtain w2 where "Save ?c ''fs'' fp (Some ?q) (Some (GMap [])) ?e tree_world = (None, w2)"
    using tree_save[of "Some ?q" "Some (GMap [])" ?c "''fs''" fp ?e]
    by (simp add: normalizePayload_def) (metis prod.collapse)
  then show ?thesis
    unfolding wrapper_fs_request[OF rb]
    by (simp add: Record_live_def Record_def session_record_def mode_defs fs_live_def
        sample_fs_def fp sample_remove_fields fs_response_kvs fs_kvs_def del: request_fields.simps)
qed

theorem wrapped_fs_replays_anywhere_witness:
  "\<exists>w2. run_all (\<lambda>call. wrapper_fs (fs_NewWrapper sample_fs (NewSession ModeRecord (Some (NewFileCassette ''d'')))
            (WithNormalizer fs_NewAdapter (tmpNormalizer ''/a''))) 0 (map_paths (\<lambda>r. ''/a'' @ r) call)) [Remove ''/f''] tree_world
       = Some ([Some (ErrNotExist ''no such file'')], w2)
     \<and> run_all (\<lambda>call. wrapper_fs (fs_NewWrapper panickyFS (NewSession ModeReplay (Some (NewFileCassette ''d'')))
            (WithNormalizer fs_NewAdapter (tmpNormalizer ''/b''))) 0 (map_paths (\<lambda>r. ''/b'' @ r) call)) [Remove ''/f''] w2
       = Some ([Some (ErrNew ''no such file'')], w2)"
proof -
  let ?c = "NewFileCassette ''d''" and ?e = "Some (ErrNotExist ''no such file'')"
  obtain w2 where r: "run_all (\<lambda>call. wrapper_fs (fs_NewWrapper sample_fs (NewSession ModeRecord (Some ?c))
      (WithNormalizer fs_NewAdapter (tmpNormalizer ''/a''))) 0 (map_paths (\<lambda>r. ''/a'' @ r) call)) [Remove ''/f''] tree_world = Some ([?e], w2)"
    using sample_remove by (auto simp: tmp_adapter_def)
  have "fs_recordable (\<lambda>_. 0) ?c tree_world (Remove ''/f'') ?e"
    using untouched_fs_samples untouched_samples(1)
    by (simp add: fs_recordable_def sample_remove_fields below_def field_names save_error_def fs_kvs_def del: request_fields.simps)
  then have ok: "list_all2 (fs_recordable (\<lambda>_. 0) ?c tree_world) [Remove ''/f''] [?e]" by simp
  have sp: "spares ?c (sample_fs call)" for call by (simp add: spares_def sample_fs_def)
  have rt: "rooted ''/a''" "rooted ''/b''" by (simp_all add: rooted_def)
  have d: "list_all (\<lambda>call. below call \<and> fs_key call \<in> fs_key ` set [Remove ''/f'']) [Remove ''/f'']" by (simp add: below_def)
  from wrapped_fs_replays_anywhere[OF tree_world_ok sp rt r ok d, of panickyFS "\<lambda>_. 0"] r show ?thesis
    by (simp add: replayed_error_def last_outcome_def)
qed

text \<open>The example program succeeds whenever its one write was recorded without an error.\<close>

lemma fs_run_succeeds:
  fixes tmp :: string
  defines "c \<equiv> NewFileCassette (path_Join tmp ''cassettes'')" and "write \<equiv> WriteFile ''/hello.txt'' (''hello'' @ nl) 0x1A4"
  assumes "mkdirTemp = Inr tmp" "mkdirAll (path_Join tmp ''cassettes'') = None" "rooted tmp"
    and "path_Join tmp ''hello.txt'' = tmp @ ''/hello.txt''"
    and "store_ok c w" "spares c (real (map_paths (\<lambda>r. tmp @ r) write))" "fs_recordable (\<lambda>_. ms) c w write None"
    and rec: "fs_recorder real c tmp (\<lambda>_. ms) write w = Some (None, w1)"
  shows "\<exists>out. fs_run real mkdirTemp mkdirAll readDir rmAll ms w
    = Some ((None, out @ [''replayed without touching disk'']), rmAll tmp w1)"
proof -
  have "fs_holds c w1 write None"
    by (rule fs_recorded(2)[OF assms(7,8,5,9) rec])
  from fs_replays[OF assms(5) this, of panickyFS "\<lambda>_. ms"]
  have "fs_replayer panickyFS c tmp (\<lambda>_. ms) write w1 = Some (None, w1)" by (simp add: replayed_error_def)
  then show ?thesis
    using rec assms(3,4,6) by (simp add: fs_run_def Let_def c_def write_def tmp_adapter_def)
qed

end
