(* ===== verification/Spec2Isabelle.thy ===== *)
theory Spec2Isabelle
  imports Grpc_Replay Cli_Run Cli_Suite Examples
begin

text \<open>
  \<^bold>\<open>xrr: record and replay of program interactions.\<close>

  xrr (the Go module under \<^verbatim>\<open>src/go\<close>) records what a program exchanges with the outside
  world, commands, HTTP requests, Redis and SQL queries, file changes, gRPC calls, as files of a
  cassette directory, and replays them in tests. This development models the Go implementation
  and proves what its users rely on: a recording replays to the same conversation, different
  interactions never share a recording by accident, secrets do not reach the disk, and no
  malformed recording is written or served.

  \<^bold>\<open>Parts of the program and their theories.\<close>

  \<^item> \<open>Xrr_Prelude\<close>: octet strings, Go errors as values, the functions of package
    \<^verbatim>\<open>strings\<close> the sources call, decimal and hexadecimal text, and the locales for prefix
    codes and codecs. \<open>Go_Utf8\<close>, \<open>Go_Path\<close>, \<open>Go_Regexp\<close> and \<open>Go_Glob\<close>
    model the parts of the standard library the sources use (\<^verbatim>\<open>utf8\<close>,
    \<^verbatim>\<open>filepath\<close>, \<^verbatim>\<open>regexp\<close>, \<^verbatim>\<open>path.Match\<close>); \<open>Go_Json\<close>
    models \<^verbatim>\<open>encoding/json\<close>, both directions, as the command line tool uses it;
    \<open>Sha256\<close> and \<open>Base64\<close> are the two codings, on 32-bit words and on octets.

  \<^item> \<open>Canonical\<close> (\<^verbatim>\<open>canonical.go\<close>): the canonical JSON text and the fingerprint of
    a request. The encoder with its post-pass equals the RFC 8785 text and is injective up to the
    order of object keys.

  \<^item> \<open>Redact\<close> (\<^verbatim>\<open>redact.go\<close>): classification of names and values, placeholders, and
    the walk over encoded trees.

  \<^item> \<open>Yaml_Lib\<close>, \<open>Cassette\<close> (\<^verbatim>\<open>cassette.go\<close>): unary cassettes on an explicit
    file store. The locale \<open>keyed_store\<close> is the contract of a store, interpreted on
    \<^verbatim>\<open>Save\<close> and \<^verbatim>\<open>Load\<close>.

  \<^item> \<open>Session\<close> (\<^verbatim>\<open>xrr.go\<close>, \<^verbatim>\<open>session.go\<close>, \<^verbatim>\<open>env.go\<close>): modes,
    record, replay, passthrough, sessions from the environment.

  \<^item> \<open>Adapters\<close> (\<^verbatim>\<open>adapters/exec\<close>, \<^verbatim>\<open>redis\<close>, \<^verbatim>\<open>sql\<close>,
    \<^verbatim>\<open>http\<close>, \<^verbatim>\<open>grpc\<close>, \<^verbatim>\<open>fs\<close>): requests, responses and fingerprints of
    the unary adapters; the locale \<open>fingerprinting\<close> is interpreted on each of them.

  \<^item> \<open>Session_Runs\<close>: whole runs of calls through a session. The locale
    \<open>recorded_calls\<close> says what makes a run replay in any order and number of its calls, and
    is interpreted on sessions that mix adapters and on shims; programs that choose their next call
    by the outcomes of the earlier ones are \<open>client\<close>s, and run the same again; \<open>wrapped_calls\<close> extends it for callers
    that see a function of what was recorded.

  \<^item> \<open>Stream_Model\<close> (\<^verbatim>\<open>stream.go\<close>), \<open>Stream_Cassette\<close>
    (\<^verbatim>\<open>stream_cassette.go\<close>), \<open>Stream_Session\<close> (\<^verbatim>\<open>stream_session.go\<close>,
    \<^verbatim>\<open>stream_scrub.go\<close>): streamed interactions. A recording is a state machine
    whose steps are sends, receives and half-closes; a replay checks every send against the
    recording. The central theorem is that any interleaving of a recorded conversation replays to
    every client that says the same.

  \<^item> \<open>Grpc_Stream\<close> (\<^verbatim>\<open>adapters/grpc/stream.go\<close>): the client interceptor that records
    and replays streaming calls above the gRPC runtime.

  \<^item> \<open>Grpc_Wire\<close> (\<^verbatim>\<open>adapters/grpctransport/demux.go\<close>, \<^verbatim>\<open>headers.go\<close>),
    \<open>Grpc_Tap\<close> (\<^verbatim>\<open>record.go\<close>, \<^verbatim>\<open>adapter.go\<close>), \<open>Grpc_Replay\<close>
    (\<^verbatim>\<open>replay.go\<close>): the same below the runtime, on HTTP/2 frames. Reassembly of messages,
    the tap with its two decoding loops as an inductive step relation, and the replaying server
    end as a function from frames to frames with its reachable states.

  \<^item> \<open>Cli_Names\<close>, \<open>Cli_Config\<close>, \<open>Cli_Scrub\<close>, \<open>Cli_Shim\<close>
    (\<^verbatim>\<open>cmd/xrr\<close>: \<^verbatim>\<open>platform.go\<close>, \<^verbatim>\<open>config.go\<close>; \<^verbatim>\<open>config_file.go\<close>,
    \<^verbatim>\<open>run.go\<close>; \<^verbatim>\<open>scrub.go\<close>; \<^verbatim>\<open>shim.go\<close>, \<^verbatim>\<open>report.go\<close>,
    \<^verbatim>\<open>main.go\<close>): the command that records and replays the programs a test suite
    starts. Configuration layers, identity of commands, scrubbing, the call a shim serves, and the
    exit code of a run. \<open>Cli_Flags\<close> adds the command line itself and the making of shim
    files (\<^verbatim>\<open>runCmd\<close>, \<^verbatim>\<open>linkOrCopy\<close>), \<open>Cli_Files\<close> the JSON files by
    which a run and its shims talk (\<^verbatim>\<open>writeConfig\<close>, \<^verbatim>\<open>appendCall\<close>,
    \<^verbatim>\<open>readCalls\<close>, \<^verbatim>\<open>writeReportFile\<close>), with the locale \<open>append_log\<close> as
    the contract of a call log, interpreted on the file and on the list it refines.
    \<open>Cli_Run\<close> follows one setting from the flag to the exit code through all of them.
    \<open>Cli_Suite\<close> composes the shim processes a program starts, which share only the cassette
    directory, and shows that the program runs the same on replay; \<open>Fakecli\<close>
    (\<^verbatim>\<open>cmd/xrr/testdata/fakecli\<close>) is the stand-in command and suite of the tests,
    the program of its closed example.

  \<^item> \<open>Examples\<close> (\<^verbatim>\<open>examples/wrap_command_runner\<close>,
    \<^verbatim>\<open>examples/wrap_fs_runner\<close>, \<^verbatim>\<open>examples/env_session\<close>): how an application adopts
    a session. Wrappers that satisfy the interface they wrap; the locale \<open>wrapped_calls\<close>
    is interpreted on both of them.

  \<^bold>\<open>How the code is represented.\<close>

  A Go string or byte slice is a list of octets, a struct a record, an interface value or an
  \<^verbatim>\<open>any\<close> a datatype (\<^typ>\<open>gval\<close>), an error a value of \<^typ>\<open>goerr\<close>, and a
  function that may fail returns \<^typ>\<open>'a res\<close>, the error on the left. A nil map or slice is
  told from an empty one where the code can tell. A Go map is a partial function, or an
  association list where its order of iteration could matter; theorems then hold for every order.
  Files live in the record \<^typ>\<open>'d world\<close>, which also holds the environment, the clock and
  the faults of the file system. Methods that hold a mutex are one step each, so that concurrent
  callers are sequences of steps in any interleaving. Machine integers are words in
  \<open>Sha256\<close> and in file modes; status codes and lengths that are read from the wire are
  reduced to their width explicitly (\<open>to_int64\<close>, \<open>to_code\<close>, \<open>be32\<close>).

  \<^bold>\<open>Parameters.\<close> Code outside the repository is an argument. \<^typ>\<open>'d yaml\<close> is the
  YAML library; \<open>yaml_ok\<close> states what the sources use of it, and \<open>tree_yaml\<close> is an
  instance that satisfies it. \<open>grpc_lib\<close> is the protobuf codec and the status package, with
  \<open>grpc_lib_ok\<close> and the instance \<open>sample_lib\<close>. The tables of package
  \<^verbatim>\<open>unicode\<close> are the record \<^typ>\<open>unicode\<close>, about which nothing is assumed; on ASCII
  text the model computes the case mappings itself. Frames of HTTP/2 are taken as
  \<^verbatim>\<open>x/net/http2\<close> delivers them. \<^verbatim>\<open>time.ParseDuration\<close>, which computes with
  floating-point numbers, is an argument of the configuration, and so is the printing of a duration. The operating system the command
  line tool runs on is the records \<^typ>\<open>run_host\<close>, \<^typ>\<open>run_io\<close> and \<^typ>\<open>host\<close>.

  \<^bold>\<open>What is proved.\<close>

  Round trips: a unary call, a streamed conversation, a call through the gRPC interceptor, a call
  tapped from the wire and served again as frames, a command run through a shim, a whole program
  that starts commands through shims, and sequences of
  calls through a wrapped runner or file system, the latter in another directory, all replay what
  was recorded; flags, the shim configuration and JSON texts are read back as written. Functional descriptions: validation of stream pairs decides a declarative
  predicate; fingerprints identify exactly the fields they are meant to; occurrence numbers count
  earlier opens; configuration layers compose by precedence; the report counts what the log holds.
  Refinement: a cassette directory is a keyed store, a recorded run a table of last outcomes, the call log a
  list. Safety: redacted trees and scrubbed
  texts hold no secret, the bytes on disk do not depend on one, denied commands never run, what the
  command line denies is blocked by a shim that knows only the configuration file, strict replay
  starts nothing. Invariants and liveness: every reachable recording is valid, every
  half-closed call of the transport replay is answered, the tap ends under every schedule. Some
  theorems state defects: names under an empty key escape redaction, Redis arguments and escaped
  slashes collide, a request split over two frames is lost, a terminal is recorded but not
  replayed, two extensions share a shim.

  \<^bold>\<open>Termination and bounds.\<close> Every definition is a total function. Loops over frames,
  octets and patterns recurse on what is left of them, and the two loops of the tap are a relation
  proved well-founded. Only the JSON parser takes fuel, twice the length of the text plus two,
  and more fuel never changes its result; its depth limit of 10000 is the library's. The size bounds of the code are kept: 64 MiB
  for a message, hence for what a decoder holds back, 16 KiB for a chunk, eight octets for a secret
  found by name. Sequence numbers and
  clock values are assumed below 2 to the 63rd where the code stores them in 64 bits.

  \<^bold>\<open>Not modelled.\<close> Floating-point payload values; \<^verbatim>\<open>Serialize\<close> and
  \<^verbatim>\<open>Deserialize\<close> of the adapters, which only call the YAML library; the usage texts; the
  goroutines that pump standard input and forward signals, whose effect is given by the host;
  dialling, sockets and HPACK; Windows path syntax; and the ports
  to other languages, which share the file format but no code, with the server that an example of
  one of them talks to.
\<close>

end
